(* ===== verification/Prelude.thy ===== *)
theory Prelude
  imports Main "HOL-Library.Word" "HOL-Library.Char_ord" "HOL-Library.List_Lexorder"
begin

text \<open>
  Shared vocabulary of the development: the types the components have in common, the
  collections of rewrite rules they add to, and generic facts on lists, maps and majorities.

  Go's \<^verbatim>\<open>uint64\<close> slot and ballot counters are only compared, copied and incremented by one
  (one increment per proposal, per election), so they are natural numbers here.  Go's
  \<^verbatim>\<open>int64\<close> money amounts and the \<^verbatim>\<open>uint32\<close> hash are words: there wrap-around is reachable and
  matters.  Go strings are byte strings ordered bytewise, which is the lexicographic order that
  the library puts on \<^typ>\<open>string\<close>.
\<close>

type_synonym byte = "8 word"
type_synonym bytes = "byte list"
type_synonym i64 = "64 word"
type_synonym NodeID = string
type_synonym slot = nat

named_theorems log_simps \<open>field updates of the durable log\<close>
named_theorems node_defs \<open>definitions of the handlers of a Paxos replica\<close>
named_theorems fault_simps \<open>the fault table after each operation\<close>
named_theorems ledger_defs \<open>definitions of the ledger state machine\<close>

section \<open>Lists and folds\<close>

lemma fold_invariant:
  assumes "P s" and "\<And>x s. x \<in> set xs \<Longrightarrow> P s \<Longrightarrow> P (f x s)"
  shows "P (fold f xs s)"
  using assms by (induction xs arbitrary: s) auto

lemma fold_snoc [simp]: "fold f (xs @ [x]) s = f x (fold f xs s)"
  by simp

lemma length_filter_card:
  "distinct xs \<Longrightarrow> length (filter P xs) = card {x \<in> set xs. P x}"
  by (metis distinct_card distinct_filter set_filter)

section \<open>Maps\<close>

lemma map_upd_Some_iff [simp]:
  "(m(k \<mapsto> v)) j = Some w \<longleftrightarrow> (if j = k then v = w else m j = Some w)"
  by simp

section \<open>Majorities\<close>

lemma majorities_meet:
  assumes "finite E" and "S \<subseteq> E" and "T \<subseteq> E"
    and "card E div 2 < card S" and "card E div 2 < card T"
  shows "\<exists>x. x \<in> S \<and> x \<in> T"
proof (rule ccontr)
  assume "\<not> ?thesis"
  then have "S \<inter> T = {}" by blast
  moreover have "finite S" "finite T" using assms finite_subset by blast+
  ultimately have "card (S \<union> T) = card S + card T" by (rule card_Un_disjoint[rotated 2])
  moreover have "card (S \<union> T) \<le> card E" using assms by (intro card_mono) auto
  ultimately show False using assms(4,5) by linarith
qed

text \<open>
  A quorum system: the sets of replicas whose joint consent decides.  Everything the safety
  arguments need of quorums is that any two of them share a member.
\<close>

locale quorum_system =
  fixes quorum :: "'a set \<Rightarrow> bool"
  assumes quorums_meet: "quorum S \<Longrightarrow> quorum T \<Longrightarrow> \<exists>x. x \<in> S \<and> x \<in> T"
begin

lemma quorum_nonempty: "quorum S \<Longrightarrow> S \<noteq> {}"
  using quorums_meet by blast

lemma quorum_agree:
  assumes "quorum S" and "quorum T"
    and "\<And>x. x \<in> S \<Longrightarrow> f x = Some v" and "\<And>x. x \<in> T \<Longrightarrow> f x = Some w"
  shows "v = w"
proof -
  obtain x where "x \<in> S" "x \<in> T" using quorums_meet[OF assms(1,2)] by blast
  then show ?thesis using assms(3)[of x] assms(4)[of x] by simp
qed

end

end
