(* ===== verification/Ballots.thy ===== *)
theory Ballots
  imports Prelude
begin

text \<open>
  The vocabulary of consensus, from \<^verbatim>\<open>src/internal/paxos/paxos.go\<close>: ballots and their order, log
  entries, the one message envelope, and the majority size.  The order \<^verbatim>\<open>Compare\<close> defines is
  shown to be a linear order, so that \<open><\<close> and \<open>\<le>\<close> on ballots mean \<^verbatim>\<open>Less\<close> and
  \<^verbatim>\<open>AtLeast\<close> in the rest of the development; the majorities of a group form a quorum system.
\<close>

section \<open>Ballots\<close>

datatype ballot = Ballot (Num: nat) (Node: NodeID)

definition Compare :: "ballot \<Rightarrow> ballot \<Rightarrow> int" where
  "Compare b other =
     (if Num b < Num other then -1
      else if Num b > Num other then 1
      else if Node b < Node other then -1
      else if Node b > Node other then 1
      else 0)"

definition Less :: "ballot \<Rightarrow> ballot \<Rightarrow> bool" where
  "Less b other \<longleftrightarrow> Compare b other < 0"

definition AtLeast :: "ballot \<Rightarrow> ballot \<Rightarrow> bool" where
  "AtLeast b other \<longleftrightarrow> Compare b other \<ge> 0"

definition zero_ballot :: ballot where
  "zero_ballot = Ballot 0 ''''"

definition IsZero :: "ballot \<Rightarrow> bool" where
  "IsZero b \<longleftrightarrow> Num b = 0 \<and> Node b = ''''"

instantiation ballot :: linorder
begin

definition less_ballot :: "ballot \<Rightarrow> ballot \<Rightarrow> bool" where
  "less_ballot b c \<longleftrightarrow> Less b c"

definition less_eq_ballot :: "ballot \<Rightarrow> ballot \<Rightarrow> bool" where
  "less_eq_ballot b c \<longleftrightarrow> AtLeast c b"

instance
proof
  fix x y z :: ballot
  show "(x < y) = (x \<le> y \<and> \<not> y \<le> x)"
    by (auto simp: less_ballot_def less_eq_ballot_def Less_def AtLeast_def Compare_def)
  show "x \<le> x"
    by (simp add: less_eq_ballot_def AtLeast_def Compare_def)
  show "x \<le> y \<Longrightarrow> y \<le> z \<Longrightarrow> x \<le> z"
    by (auto simp: less_eq_ballot_def AtLeast_def Compare_def split: if_splits)
  show "x \<le> y \<Longrightarrow> y \<le> x \<Longrightarrow> x = y"
    by (cases x; cases y) (auto simp: less_eq_ballot_def AtLeast_def Compare_def split: if_splits)
  show "x \<le> y \<or> y \<le> x"
    by (auto simp: less_eq_ballot_def AtLeast_def Compare_def)
qed

end

lemma Less_iff [simp]: "Less b c \<longleftrightarrow> b < c"
  by (simp add: less_ballot_def)

lemma AtLeast_iff [simp]: "AtLeast b c \<longleftrightarrow> c \<le> b"
  by (simp add: less_eq_ballot_def)

lemma less_ballot_iff:
  "b < c \<longleftrightarrow> Num b < Num c \<or> Num b = Num c \<and> Node b < Node c"
  unfolding less_ballot_def Less_def Compare_def by auto

lemma less_eq_ballot_iff:
  "b \<le> c \<longleftrightarrow> Num b < Num c \<or> Num b = Num c \<and> Node b \<le> Node c"
  unfolding less_eq_ballot_def AtLeast_def Compare_def by auto

lemma Ballot_less [simp]:
  "Ballot m x < Ballot n y \<longleftrightarrow> m < n \<or> m = n \<and> x < y"
  by (simp add: less_ballot_iff)

lemma zero_ballot_least [simp]: "zero_ballot \<le> b"
  by (cases b) (auto simp: zero_ballot_def less_eq_ballot_iff)

lemma IsZero_iff [simp]: "IsZero b \<longleftrightarrow> b = zero_ballot"
  by (cases b) (auto simp: IsZero_def zero_ballot_def)

text \<open>The number a candidate picks (\<^verbatim>\<open>Promised().Num + 1\<close>) puts its ballot above the promise.\<close>

lemma next_ballot_above: "b < Ballot (Num b + 1) n"
  by (cases b) simp

text \<open>
  Ballots are totally ordered and no two replicas ever hold the same one: comparing two
  ballots gives 0 exactly when both number and node agree, and swapping the arguments negates
  the result.
\<close>

theorem Compare_total_order:
  "(Compare b c = 0 \<longleftrightarrow> b = c) \<and> Compare b c = - Compare c b"
  by (cases b; cases c) (auto simp: Compare_def)

section \<open>Entries and messages\<close>

record entry =
  Slot :: slot
  EBallot :: ballot
  Command :: bytes

definition IsNoop :: "entry \<Rightarrow> bool" where
  "IsNoop e \<longleftrightarrow> length (Command e) = 0"

datatype MessageKind =
    KindPrepare | KindPromise | KindAccept | KindAccepted | KindCommit | KindCatchUp | KindPing
  | KindOther string

record message =
  Kind :: MessageKind
  From :: NodeID
  MBallot :: ballot
  OK :: bool
  MSlot :: slot
  MCommand :: bytes
  Entries :: "entry list"
  CommitIndex :: slot

text \<open>Go's composite literal \<^verbatim>\<open>Message{Kind: k, From: f}\<close>: every other field is its zero value.\<close>

definition new_message :: "MessageKind \<Rightarrow> NodeID \<Rightarrow> message" where
  "new_message k f =
     \<lparr>Kind = k, From = f, MBallot = zero_ballot, OK = False, MSlot = 0, MCommand = [],
      Entries = [], CommitIndex = 0\<rparr>"

lemma new_message_sel [simp]:
  "Kind (new_message k f) = k" "From (new_message k f) = f"
  "MBallot (new_message k f) = zero_ballot" "OK (new_message k f) = False"
  "MSlot (new_message k f) = 0" "MCommand (new_message k f) = []"
  "Entries (new_message k f) = []" "CommitIndex (new_message k f) = 0"
  by (simp_all add: new_message_def)

section \<open>Majorities\<close>

definition majority :: "nat \<Rightarrow> nat" where
  "majority groupSize = groupSize div 2 + 1"

text \<open>The sets of members that reach the majority of a group.\<close>

definition is_majority :: "NodeID list \<Rightarrow> NodeID set \<Rightarrow> bool" where
  "is_majority ps S \<longleftrightarrow> S \<subseteq> set ps \<and> majority (card (set ps)) \<le> card S"

lemma is_majority_meet:
  "is_majority ps S \<Longrightarrow> is_majority ps T \<Longrightarrow> \<exists>x. x \<in> S \<and> x \<in> T"
  unfolding is_majority_def majority_def
  by (rule majorities_meet[of "set ps"]) auto

interpretation maj: quorum_system "is_majority ps" for ps :: "NodeID list"
  by unfold_locales (rule is_majority_meet)

text \<open>
  \<^verbatim>\<open>majority\<close> is the smallest size for which two quorums always share a replica: any two
  sets of members that reach it intersect, and whenever a group has a member, one replica fewer
  than the majority can be matched by a disjoint set of the same or larger size.
\<close>

theorem majority_is_tight:
  "(\<forall>S T. is_majority ps S \<and> is_majority ps T \<longrightarrow> S \<inter> T \<noteq> {}) \<and>
   2 * (majority n - 1) \<le> n \<and> n < 2 * majority n"
proof -
  have "S \<inter> T \<noteq> {}" if "is_majority ps S" "is_majority ps T" for S T
    using maj.quorums_meet[OF that] by blast
  then show ?thesis by (auto simp: majority_def)
qed

theorem majority_is_tight_witness:
  "is_majority [''a'', ''b'', ''c''] {''a'', ''b''} \<and> {''a'', ''b''} \<inter> {''b'', ''c''} \<noteq> ({} :: NodeID set)"
proof -
  have q: "is_majority [''a'', ''b'', ''c''] {''a'', ''b''}" "is_majority [''a'', ''b'', ''c''] {''b'', ''c''}"
    by (simp_all add: is_majority_def majority_def)
  with majority_is_tight[of "[''a'', ''b'', ''c'']" 3] show ?thesis by blast
qed

end
