(* ===== verification/PaxosLog.thy ===== *)
theory PaxosLog
  imports Ballots
begin

text \<open>
  A replica's durable Paxos state, from \<^verbatim>\<open>src/internal/paxos/log.go\<close>: the accepted entries, the
  highest slot and the promised ballot, together with the two files that hold them.  The entry
  file is an append-only byte string of newline-terminated JSON lines, the state file holds the
  promised ballot.  JSON encoding and decoding are parameters (\<open>enc\<close>, \<open>dec\<close> for entries,
  \<open>encS\<close>, \<open>decS\<close> for the ballot); theorems name what they need of them.  Every operating
  system call that can fail has an explicit outcome argument.
\<close>

datatype log_error =
    ErrMkdir | ErrOpenLog | ErrScan | ErrReadState | ErrParseState | ErrPersist | ErrLogClosed

record plog =
  statePath :: string                    \<comment> \<open>empty for a log kept in memory\<close>
  entryOpen :: bool                      \<comment> \<open>\<^verbatim>\<open>entryF != nil\<close>\<close>
  entries :: "slot \<rightharpoonup> entry"
  maxSlot :: slot
  promised :: ballot
  entryFile :: string                    \<comment> \<open>content of the entry file\<close>
  stateFile :: "string option"           \<comment> \<open>content of the state file, if it exists\<close>

definition NewMemLog :: plog where
  "NewMemLog = \<lparr>statePath = '''', entryOpen = False, entries = Map.empty, maxSlot = 0,
     promised = zero_ballot, entryFile = '''', stateFile = None\<rparr>"

definition durable :: "plog \<Rightarrow> bool" where
  "durable l \<longleftrightarrow> statePath l \<noteq> ''''"

section \<open>Reading the entry file back\<close>

abbreviation newline :: char where
  "newline \<equiv> CHR 0x0A"

text \<open>
  \<^verbatim>\<open>bufio.ScanLines\<close>: the text between newlines, and a last unterminated line when it is not
  empty; one trailing carriage return is dropped.  A line that fills the scanner's 8 MiB buffer
  stops the scan with an error.
\<close>

fun scan_lines :: "string \<Rightarrow> string \<Rightarrow> string list" where
  "scan_lines acc [] = (if acc = [] then [] else [rev acc])"
| "scan_lines acc (c # cs) =
     (if c = newline then rev acc # scan_lines [] cs else scan_lines (c # acc) cs)"

definition drop_cr :: "string \<Rightarrow> string" where
  "drop_cr x = (if x \<noteq> [] \<and> last x = CHR 0x0D then butlast x else x)"

definition max_line :: nat where
  "max_line = 8 * 1024 * 1024"

text \<open>Storing an entry in memory, as \<^verbatim>\<open>replay\<close> and \<^verbatim>\<open>Accept\<close> both do.\<close>

definition store_entry :: "entry \<Rightarrow> plog \<Rightarrow> plog" where
  "store_entry e l = l\<lparr>entries := (entries l)(Slot e \<mapsto> e),
     maxSlot := (if Slot e > maxSlot l then Slot e else maxSlot l)\<rparr>"

fun replay :: "(string \<Rightarrow> entry option) \<Rightarrow> string list \<Rightarrow> plog \<Rightarrow> plog \<times> log_error option" where
  "replay dec [] l = (l, None)"
| "replay dec (x # xs) l =
     (if length x \<ge> max_line then (l, Some ErrScan)
      else if drop_cr x = [] then replay dec xs l
      else case dec (drop_cr x) of
             None \<Rightarrow> replay dec xs l
           | Some e \<Rightarrow> replay dec xs (store_entry e l))"

datatype file_read = Missing | ReadFails | Content string

fun loadState :: "(string \<Rightarrow> ballot option) \<Rightarrow> file_read \<Rightarrow> plog \<Rightarrow> plog \<times> log_error option" where
  "loadState decS Missing l = (l, None)"
| "loadState decS ReadFails l = (l, Some ErrReadState)"
| "loadState decS (Content raw) l =
     (case decS raw of
        None \<Rightarrow> (l, Some ErrParseState)
      | Some b \<Rightarrow> (l\<lparr>promised := b\<rparr>, None))"

text \<open>
  \<^verbatim>\<open>OpenLog\<close>.  The arguments after the directory and the replica are what the operating system
  answers: whether the directory can be made, the entry file's content (\<open>None\<close> when it cannot
  be opened), the state file, and whether the entry file opens for appending.
\<close>

definition OpenLog ::
  "(string \<Rightarrow> entry option) \<Rightarrow> (string \<Rightarrow> ballot option) \<Rightarrow> string \<Rightarrow> NodeID \<Rightarrow>
   bool \<Rightarrow> string option \<Rightarrow> file_read \<Rightarrow> bool \<Rightarrow> log_error + plog" where
  "OpenLog dec decS dir n mkdirOK entryRead stateRead appendOK =
     (if \<not> mkdirOK then Inl ErrMkdir
      else case entryRead of
        None \<Rightarrow> Inl ErrOpenLog
      | Some text \<Rightarrow>
          (let l0 = NewMemLog\<lparr>statePath := dir @ ''/'' @ n @ ''.state'',
                 stateFile := (case stateRead of Content raw \<Rightarrow> Some raw | _ \<Rightarrow> None),
                 entryFile := text\<rparr>
           in case replay dec (scan_lines [] text) l0 of
                (_, Some err) \<Rightarrow> Inl err
              | (l1, None) \<Rightarrow>
                  (case loadState decS stateRead l1 of
                     (_, Some err) \<Rightarrow> Inl err
                   | (l2, None) \<Rightarrow>
                       if \<not> appendOK then Inl ErrOpenLog else Inr (l2\<lparr>entryOpen := True\<rparr>))))"

section \<open>Operations\<close>

definition Promised :: "plog \<Rightarrow> ballot" where
  "Promised l = promised l"

text \<open>
  \<^verbatim>\<open>Promise\<close> writes a temporary file and renames it: either every call succeeds and the state
  file holds the new ballot, or one fails and nothing changed.
\<close>

definition Promise :: "(ballot \<Rightarrow> string) \<Rightarrow> bool \<Rightarrow> ballot \<Rightarrow> plog \<Rightarrow> plog \<times> log_error option" where
  "Promise encS ioOK b l =
     (if \<not> durable l then (l\<lparr>promised := b\<rparr>, None)
      else if \<not> ioOK then (l, Some ErrPersist)
      else (l\<lparr>stateFile := Some (encS b), promised := b\<rparr>, None))"

text \<open>
  \<^verbatim>\<open>Accept\<close> appends one line and syncs.  A failing write may leave a part of the line behind;
  a failing sync leaves the whole line.
\<close>

datatype append_io = AppendOK | WriteFails string | SyncFails

definition Accept :: "(entry \<Rightarrow> string) \<Rightarrow> append_io \<Rightarrow> entry \<Rightarrow> plog \<Rightarrow> plog \<times> log_error option" where
  "Accept enc io e l =
     (if \<not> durable l then (store_entry e l, None)
      else if \<not> entryOpen l then (l, Some ErrLogClosed)
      else case io of
        WriteFails part \<Rightarrow> (l\<lparr>entryFile := entryFile l @ part\<rparr>, Some ErrPersist)
      | SyncFails \<Rightarrow> (l\<lparr>entryFile := entryFile l @ enc e @ [newline]\<rparr>, Some ErrPersist)
      | AppendOK \<Rightarrow> (store_entry e (l\<lparr>entryFile := entryFile l @ enc e @ [newline]\<rparr>), None))"

definition Get :: "plog \<Rightarrow> slot \<Rightarrow> entry option" where
  "Get l s = entries l s"

definition MaxSlot :: "plog \<Rightarrow> slot" where
  "MaxSlot l = maxSlot l"

definition EntriesFrom :: "plog \<Rightarrow> slot \<Rightarrow> entry list" where
  "EntriesFrom l first = List.map_filter (entries l) [first..<Suc (maxSlot l)]"

definition Close :: "plog \<Rightarrow> plog" where
  "Close l = l\<lparr>entryOpen := False\<rparr>"

section \<open>Well-formed logs\<close>

text \<open>Entries are stored under their own slot, and \<^verbatim>\<open>maxSlot\<close> bounds them.\<close>

definition log_wf :: "plog \<Rightarrow> bool" where
  "log_wf l \<longleftrightarrow> (\<forall>s e. entries l s = Some e \<longrightarrow> Slot e = s \<and> s \<le> maxSlot l)"

lemma log_wfD: "log_wf l \<Longrightarrow> entries l s = Some e \<Longrightarrow> Slot e = s \<and> s \<le> maxSlot l"
  by (simp add: log_wf_def)

lemma log_wf_NewMemLog [simp, intro]: "log_wf NewMemLog"
  by (simp add: log_wf_def NewMemLog_def)

lemma log_wf_store [intro]:
  assumes "log_wf l"
  shows "log_wf (store_entry e l)"
proof -
  have "s \<le> max (Slot e) (maxSlot l)" if "entries l s = Some d" for s d
    using log_wfD[OF assms that] by auto
  then show ?thesis using assms by (auto simp: log_wf_def store_entry_def split: if_splits)
qed

lemma log_wf_files [simp]:
  "log_wf (l\<lparr>entryFile := f\<rparr>) = log_wf l" "log_wf (l\<lparr>stateFile := g\<rparr>) = log_wf l"
  "log_wf (l\<lparr>promised := b\<rparr>) = log_wf l" "log_wf (l\<lparr>entryOpen := c\<rparr>) = log_wf l"
  "log_wf (l\<lparr>statePath := p\<rparr>) = log_wf l"
  by (simp_all add: log_wf_def)

lemma store_entry_sel [simp, log_simps]:
  "entries (store_entry e l) = (entries l)(Slot e \<mapsto> e)"
  "promised (store_entry e l) = promised l"
  "statePath (store_entry e l) = statePath l"
  "entryOpen (store_entry e l) = entryOpen l"
  "entryFile (store_entry e l) = entryFile l"
  "stateFile (store_entry e l) = stateFile l"
  "maxSlot (store_entry e l) = max (Slot e) (maxSlot l)"
  by (simp_all add: store_entry_def max_def)

lemma Promise_log_wf: "log_wf l \<Longrightarrow> log_wf (fst (Promise encS io b l))"
  by (auto simp: Promise_def log_wf_def)

lemma Accept_log_wf: "log_wf l \<Longrightarrow> log_wf (fst (Accept enc io e l))"
  by (auto simp: Accept_def split: append_io.splits)

lemma replay_log_wf: "log_wf l \<Longrightarrow> log_wf (fst (replay dec xs l))"
proof (induction xs arbitrary: l)
  case (Cons x xs)
  then show ?case by (cases "dec (drop_cr x)") (auto intro: log_wf_store)
qed simp

lemma Accept_error_keeps:
  "snd (Accept enc io e l) \<noteq> None \<Longrightarrow>
   entries (fst (Accept enc io e l)) = entries l \<and> promised (fst (Accept enc io e l)) = promised l"
  by (auto simp: Accept_def split: append_io.splits)

lemma Accept_ok_entries [simp]:
  "snd (Accept enc io e l) = None \<Longrightarrow>
   entries (fst (Accept enc io e l)) = (entries l)(Slot e \<mapsto> e)"
  by (auto simp: Accept_def split: append_io.splits if_splits)

lemma Accept_promised [simp, log_simps]: "promised (fst (Accept enc io e l)) = promised l"
  by (auto simp: Accept_def split: append_io.splits)

lemma Promise_entries [simp, log_simps]:
  "entries (fst (Promise encS io b l)) = entries l" "maxSlot (fst (Promise encS io b l)) = maxSlot l"
  by (auto simp: Promise_def)

lemma Promise_promised:
  "promised (fst (Promise encS io b l)) = (if snd (Promise encS io b l) = None then b else promised l)"
  by (auto simp: Promise_def)

lemma EntriesFrom_set:
  assumes "log_wf l"
  shows "set (EntriesFrom l first) = {e. \<exists>s \<ge> first. entries l s = Some e}"
proof -
  have in_filter: "e \<in> set (List.map_filter f xs) \<longleftrightarrow> (\<exists>x \<in> set xs. f x = Some e)"
    for f xs and e :: entry
    by (induction xs) (auto simp: map_filter_simps split: option.splits)
  have "s < Suc (maxSlot l)" if "entries l s = Some e" for s e
    using log_wfD[OF assms that] by simp
  then show ?thesis
    unfolding EntriesFrom_def set_eq_iff in_filter mem_Collect_eq
    by (metis atLeastLessThan_iff set_upt)
qed

text \<open>
  \<^verbatim>\<open>EntriesFrom\<close> answers a promise or a catch-up request completely and in order: it returns
  exactly the accepted entries at or above the first slot, in strictly increasing slot order.
\<close>

theorem EntriesFrom_complete_ordered:
  assumes "log_wf l"
  shows "set (EntriesFrom l first) = {e. \<exists>s \<ge> first. entries l s = Some e} \<and>
         sorted_wrt (\<lambda>d e. Slot d < Slot e) (EntriesFrom l first)"
proof -
  have "sorted_wrt (\<lambda>d e. Slot d < Slot e) (List.map_filter (entries l) xs)"
    if "sorted_wrt (<) xs" for xs
    using that
  proof (induction xs)
    case (Cons x xs)
    have "Slot d = x \<and> x < Slot e"
      if "entries l x = Some d" "e \<in> set (List.map_filter (entries l) xs)" for d e
    proof -
      from that(2) obtain y where y: "y \<in> set xs" "entries l y = Some e"
        by (auto simp: map_filter_def)
      then show ?thesis using Cons.prems log_wfD[OF assms that(1)] log_wfD[OF assms y(2)] by simp
    qed
    then show ?case using Cons by (auto simp: map_filter_simps split: option.splits)
  qed (simp add: map_filter_simps)
  from this[of "[first..<Suc (maxSlot l)]"]
  have "sorted_wrt (\<lambda>d e. Slot d < Slot e) (EntriesFrom l first)"
    unfolding EntriesFrom_def by (simp del: upt_Suc)
  with EntriesFrom_set[OF assms] show ?thesis by blast
qed

theorem EntriesFrom_complete_ordered_witness:
  "set (EntriesFrom (store_entry \<lparr>Slot = 2, EBallot = Ballot 1 ''a'', Command = [7]\<rparr> NewMemLog) 1)
   = {e. \<exists>s \<ge> 1. entries (store_entry \<lparr>Slot = 2, EBallot = Ballot 1 ''a'', Command = [7]\<rparr> NewMemLog) s = Some e}"
  by (rule EntriesFrom_complete_ordered[THEN conjunct1]) (intro log_wf_store log_wf_NewMemLog)

section \<open>Surviving a restart\<close>

text \<open>A file that is empty or ends a line: the next append starts a line of its own.\<close>

definition clean :: "string \<Rightarrow> bool" where
  "clean f \<longleftrightarrow> f = [] \<or> last f = newline"

lemma scan_lines_no_newline:
  "newline \<notin> set x \<Longrightarrow> scan_lines acc (x @ newline # ys) = (rev acc @ x) # scan_lines [] ys"
  by (induction x arbitrary: acc) auto

lemma scan_lines_append:
  assumes "newline \<notin> set x"
  shows "clean f \<Longrightarrow> acc = [] \<or> f \<noteq> [] \<Longrightarrow>
    scan_lines acc (f @ x @ [newline]) = scan_lines acc f @ [x]"
proof (induction f arbitrary: acc)
  case Nil
  then show ?case using scan_lines_no_newline[OF assms, of "[]" "[]"] by simp
next
  case (Cons c f)
  then show ?case
    using scan_lines_no_newline[OF assms, of "[]" "[]"]
    by (cases "f = []") (auto simp: clean_def)
qed

lemma replay_append:
  "replay dec (xs @ ys) l =
     (case replay dec xs l of (l', None) \<Rightarrow> replay dec ys l' | r \<Rightarrow> r)"
  by (induction xs arbitrary: l) (auto split: option.splits)

text \<open>What the log relies on of the JSON codec, for the entries it writes.\<close>

definition entry_codec :: "(entry \<Rightarrow> string) \<Rightarrow> (string \<Rightarrow> entry option) \<Rightarrow> entry \<Rightarrow> bool" where
  "entry_codec enc dec e \<longleftrightarrow>
     dec (enc e) = Some e \<and> newline \<notin> set (enc e) \<and> drop_cr (enc e) = enc e \<and>
     enc e \<noteq> [] \<and> length (enc e) < max_line"

text \<open>
  The files agree with memory: replaying the entry file onto an empty log gives the entries in
  memory, and the state file, if there is one, decodes to the promise.
\<close>

definition files_agree ::
  "(string \<Rightarrow> entry option) \<Rightarrow> (string \<Rightarrow> ballot option) \<Rightarrow> plog \<Rightarrow> bool" where
  "files_agree dec decS l \<longleftrightarrow>
     clean (entryFile l) \<and>
     (\<forall>l0. entries l0 = Map.empty \<and> maxSlot l0 = 0 \<longrightarrow>
        replay dec (scan_lines [] (entryFile l)) l0
          = (l0\<lparr>entries := entries l, maxSlot := maxSlot l\<rparr>, None)) \<and>
     (case stateFile l of None \<Rightarrow> promised l = zero_ballot | Some raw \<Rightarrow> decS raw = Some (promised l))"

lemma files_agree_Accept:
  assumes "files_agree dec decS l" and "entry_codec enc dec e"
    and ok: "Accept enc io e l = (l', None)" and "durable l"
  shows "files_agree dec decS l'"
proof -
  from ok \<open>durable l\<close> have l': "l' = store_entry e (l\<lparr>entryFile := entryFile l @ enc e @ [newline]\<rparr>)"
    by (auto simp: Accept_def split: append_io.splits if_splits)
  have scan: "scan_lines [] (entryFile l @ enc e @ [newline]) = scan_lines [] (entryFile l) @ [enc e]"
    using assms(1,2) by (intro scan_lines_append) (auto simp: files_agree_def entry_codec_def)
  have "replay dec (scan_lines [] (entryFile l')) l0 = (l0\<lparr>entries := entries l', maxSlot := maxSlot l'\<rparr>, None)"
    if "entries l0 = Map.empty" "maxSlot l0 = 0" for l0
    using assms(1,2) that
    by (simp add: l' scan replay_append files_agree_def entry_codec_def store_entry_def)
  then show ?thesis using assms(1) by (auto simp: files_agree_def l' clean_def split: option.splits)
qed

lemma files_agree_Promise:
  assumes "files_agree dec decS l" and "decS (encS b) = Some b"
    and ok: "Promise encS io b l = (l', None)" and "durable l"
  shows "files_agree dec decS l'"
  using assms by (auto simp: files_agree_def Promise_def split: if_splits option.splits)

text \<open>A history of the calls a replica makes; every call that reports success is a step.\<close>

datatype log_call = CallAccept append_io entry | CallPromise bool ballot

fun run_call :: "(entry \<Rightarrow> string) \<Rightarrow> (ballot \<Rightarrow> string) \<Rightarrow> log_call \<Rightarrow> plog \<Rightarrow> plog \<times> log_error option" where
  "run_call enc encS (CallAccept io e) l = Accept enc io e l"
| "run_call enc encS (CallPromise io b) l = Promise encS io b l"

fun run_calls :: "(entry \<Rightarrow> string) \<Rightarrow> (ballot \<Rightarrow> string) \<Rightarrow> log_call list \<Rightarrow> plog \<Rightarrow> log_error + plog" where
  "run_calls enc encS [] l = Inr l"
| "run_calls enc encS (c # cs) l =
     (case run_call enc encS c l of
        (_, Some err) \<Rightarrow> Inl err
      | (l', None) \<Rightarrow> run_calls enc encS cs l')"

definition call_codec ::
  "(entry \<Rightarrow> string) \<Rightarrow> (string \<Rightarrow> entry option) \<Rightarrow> (ballot \<Rightarrow> string) \<Rightarrow> (string \<Rightarrow> ballot option) \<Rightarrow>
   log_call \<Rightarrow> bool" where
  "call_codec enc dec encS decS c =
     (case c of CallAccept io e \<Rightarrow> entry_codec enc dec e | CallPromise io b \<Rightarrow> decS (encS b) = Some b)"

lemma run_call_durable:
  "durable l \<Longrightarrow> run_call enc encS c l = (l', None) \<Longrightarrow> durable l'"
  by (cases c) (auto simp: durable_def Accept_def Promise_def split: append_io.splits if_splits)

lemma run_call_agree:
  assumes "files_agree dec decS l" "durable l" "call_codec enc dec encS decS c"
    "run_call enc encS c l = (l', None)"
  shows "files_agree dec decS l'"
  using assms
  by (cases c) (auto simp: call_codec_def intro: files_agree_Accept files_agree_Promise)

lemma run_calls_agree:
  "files_agree dec decS l \<Longrightarrow> durable l \<Longrightarrow> list_all (call_codec enc dec encS decS) cs \<Longrightarrow>
   run_calls enc encS cs l = Inr l' \<Longrightarrow> files_agree dec decS l'"
proof (induction cs arbitrary: l)
  case (Cons c cs)
  from Cons.prems obtain l1 where l1: "run_call enc encS c l = (l1, None)"
    by (auto split: prod.splits option.splits)
  show ?case
    using Cons.prems l1 run_call_agree[OF _ _ _ l1] run_call_durable[OF _ l1] by (intro Cons.IH[of l1]) auto
qed simp

definition stored :: "string option \<Rightarrow> file_read" where
  "stored f = (case f of None \<Rightarrow> Missing | Some raw \<Rightarrow> Content raw)"

lemma reopen_agrees:
  assumes "files_agree dec decS l"
  shows "\<exists>l'. OpenLog dec decS dir n True (Some (entryFile l)) (stored (stateFile l)) True = Inr l' \<and>
           entries l' = entries l \<and> maxSlot l' = maxSlot l \<and> promised l' = promised l"
  using assms
  by (auto simp: OpenLog_def Let_def files_agree_def stored_def NewMemLog_def split: option.splits)

text \<open>
  C9: a replica does not forget across a restart.  Start on empty files, make any sequence of
  promises and accepts that all report success, and reopen the log from what is on disk: the
  accepted entries, the highest slot and the promised ballot are those it had in memory.
\<close>

theorem reopen_restores:
  assumes start: "OpenLog dec decS dir n True (Some '''') Missing True = Inr l0"
    and codec: "list_all (call_codec enc dec encS decS) cs"
    and run: "run_calls enc encS cs l0 = Inr l"
  shows "\<exists>l'. OpenLog dec decS dir n True (Some (entryFile l)) (stored (stateFile l)) True = Inr l' \<and>
           entries l' = entries l \<and> maxSlot l' = maxSlot l \<and> promised l' = promised l"
proof -
  from start have l0: "l0 = NewMemLog\<lparr>statePath := dir @ ''/'' @ n @ ''.state'', entryOpen := True\<rparr>"
    by (auto simp: OpenLog_def NewMemLog_def)
  then have "files_agree dec decS l0" "durable l0"
    by (auto simp: files_agree_def clean_def durable_def NewMemLog_def)
  then have "files_agree dec decS l" using codec run run_calls_agree by blast
  then show ?thesis by (rule reopen_agrees)
qed

text \<open>A concrete codec for one entry and one ballot, to run the theorems on.\<close>

definition wit_entry :: entry where
  "wit_entry = \<lparr>Slot = 1, EBallot = Ballot 1 ''a'', Command = [42]\<rparr>"

definition wit_enc :: "entry \<Rightarrow> string" where
  "wit_enc e = ''{1}''"

definition wit_dec :: "string \<Rightarrow> entry option" where
  "wit_dec x = (if x = ''{1}'' then Some wit_entry else None)"

definition wit_encS :: "ballot \<Rightarrow> string" where
  "wit_encS b = ''[1]''"

definition wit_decS :: "string \<Rightarrow> ballot option" where
  "wit_decS x = (if x = ''[1]'' then Some (Ballot 1 ''a'') else None)"

lemmas wit_codec_defs = wit_entry_def wit_enc_def wit_dec_def wit_encS_def wit_decS_def

lemma wit_entry_codec: "entry_codec wit_enc wit_dec wit_entry"
  by (simp add: entry_codec_def wit_enc_def wit_dec_def drop_cr_def max_line_def)

theorem reopen_restores_witness:
  "\<exists>l l'. run_calls wit_enc wit_encS [CallPromise True (Ballot 1 ''a''), CallAccept AppendOK wit_entry]
            (NewMemLog\<lparr>statePath := ''d/a.state'', entryOpen := True\<rparr>) = Inr l \<and>
     OpenLog wit_dec wit_decS ''d'' ''a'' True (Some (entryFile l)) (stored (stateFile l)) True = Inr l' \<and>
     entries l' 1 = Some wit_entry \<and> promised l' = Ballot 1 ''a''"
proof -
  let ?cs = "[CallPromise True (Ballot 1 ''a''), CallAccept AppendOK wit_entry]"
  let ?l0 = "NewMemLog\<lparr>statePath := ''d/a.state'', entryOpen := True\<rparr>"
  have s: "OpenLog wit_dec wit_decS ''d'' ''a'' True (Some '''') Missing True = Inr ?l0"
    by (simp add: OpenLog_def NewMemLog_def)
  have c: "list_all (call_codec wit_enc wit_dec wit_encS wit_decS) ?cs"
    using wit_entry_codec by (simp add: call_codec_def wit_encS_def wit_decS_def)
  obtain l where l: "run_calls wit_enc wit_encS ?cs ?l0 = Inr l"
    "entries l 1 = Some wit_entry" "promised l = Ballot 1 ''a''"
    by (auto simp: Promise_def Accept_def durable_def NewMemLog_def wit_entry_def)
  from reopen_restores[OF s c l(1)] l show ?thesis by auto
qed

section \<open>A torn last line\<close>

text \<open>
  A crash in the middle of an append leaves part of a line.  Replaying drops it, as the comment in
  \<^verbatim>\<open>replay\<close> says it may: the entry was never acknowledged.
\<close>

lemma scan_lines_tail:
  "clean f \<Longrightarrow> acc = [] \<or> f \<noteq> [] \<Longrightarrow> newline \<notin> set part \<Longrightarrow> part \<noteq> [] \<Longrightarrow>
   scan_lines acc (f @ part) = scan_lines acc f @ [part]"
proof (induction f arbitrary: acc)
  case Nil
  have "newline \<notin> set xs \<Longrightarrow> acc \<noteq> [] \<or> xs \<noteq> [] \<Longrightarrow> scan_lines acc xs = [rev acc @ xs]" for acc xs
    by (induction xs arbitrary: acc) auto
  with Nil show ?case by simp
next
  case (Cons c f)
  then show ?case by (cases "f = []") (auto simp: clean_def)
qed

lemma torn_line_dropped:
  assumes "clean (entryFile l)" "newline \<notin> set part" "part \<noteq> []" "length part < max_line"
    and "dec (drop_cr part) = None"
  shows "replay dec (scan_lines [] (entryFile l @ part)) l0 = replay dec (scan_lines [] (entryFile l)) l0"
  using assms
  by (auto simp: scan_lines_tail replay_append split: prod.splits option.splits)

lemma replay_frame:
  "replay dec xs l = (l', r) \<Longrightarrow> statePath l' = statePath l \<and> entryFile l' = entryFile l"
  by (induction xs arbitrary: l) (auto split: option.splits if_splits)

lemma store_entry_entryFile [simp]:
  "store_entry e (l\<lparr>entryFile := g\<rparr>) = (store_entry e l)\<lparr>entryFile := g\<rparr>"
  by (simp add: store_entry_def)

lemma replay_entryFile:
  "replay dec xs (l\<lparr>entryFile := g\<rparr>) = (case replay dec xs l of (l', r) \<Rightarrow> (l'\<lparr>entryFile := g\<rparr>, r))"
  by (induction xs arbitrary: l) (auto split: option.splits)

lemma OpenLog_InrD:
  assumes "OpenLog dec decS dir n True (Some f) st True = Inr l"
  shows "durable l \<and> entryOpen l \<and> entryFile l = f \<and>
    (\<exists>l1. replay dec (scan_lines [] f)
       (NewMemLog\<lparr>statePath := dir @ ''/'' @ n @ ''.state'',
          stateFile := (case st of Content raw \<Rightarrow> Some raw | _ \<Rightarrow> None), entryFile := f\<rparr>) = (l1, None) \<and>
       entries l = entries l1)"
  using assms
  by (cases st)
    (auto simp: OpenLog_def Let_def durable_def dest: replay_frame split: prod.splits option.splits)

text \<open>
  C10: what the torn line does to its successor.  The line has no newline, so the next entry is
  appended to it and the two form one line that is not JSON.  Although \<^verbatim>\<open>Accept\<close> reports success
  for that entry, a replica that reopens the log does not have it: the entries it reads back are
  those the file held before the crash.
\<close>

theorem torn_tail_loses_next_entry:
  assumes "clean f" and part: "newline \<notin> set part" "part \<noteq> []"
    and e: "newline \<notin> set (enc e)" "length (part @ enc e) < max_line"
      "dec (drop_cr (part @ enc e)) = None"
    and l: "OpenLog dec decS dir n True (Some (f @ part)) st True = Inr l"
    and ok: "Accept enc AppendOK e l = (l1, None)"
    and again: "OpenLog dec decS dir n True (Some (entryFile l1)) st True = Inr l2"
    and before: "OpenLog dec decS dir n True (Some f) st True = Inr l3"
  shows "entries l1 (Slot e) = Some e \<and> entries l2 = entries l3"
proof -
  have l1: "entries l1 (Slot e) = Some e" "entryFile l1 = f @ (part @ enc e) @ [newline]"
    using ok OpenLog_InrD[OF l] by (auto simp: Accept_def)
  have scan: "scan_lines [] (entryFile l1) = scan_lines [] f @ [part @ enc e]"
    unfolding l1 using assms by (intro scan_lines_append) auto
  have skip: "replay dec [part @ enc e] l0 = (l0, None)" for l0 :: plog
    using e by auto
  have same: "replay dec (scan_lines [] (entryFile l1)) l0 = replay dec (scan_lines [] f) l0" for l0
    unfolding scan by (simp only: replay_append skip) (auto split: prod.splits option.splits)
  have "entries l2 = entries l3"
    using OpenLog_InrD[OF again] OpenLog_InrD[OF before] unfolding same replay_entryFile
    by (auto split: prod.splits)
  with l1 show ?thesis by simp
qed

theorem torn_tail_loses_next_entry_witness:
  "\<exists>l l1 l2. OpenLog wit_dec wit_decS ''d'' ''a'' True (Some ''{'') Missing True = Inr l \<and>
     Accept wit_enc AppendOK wit_entry l = (l1, None) \<and> entries l1 1 = Some wit_entry \<and>
     OpenLog wit_dec wit_decS ''d'' ''a'' True (Some (entryFile l1)) Missing True = Inr l2 \<and>
     entries l2 1 = None"
proof -
  let ?open = "\<lambda>f. OpenLog wit_dec wit_decS ''d'' ''a'' True (Some f) Missing True"
  let ?at = "\<lambda>f. NewMemLog\<lparr>statePath := ''d/a.state'', entryFile := f, entryOpen := True\<rparr>"
  let ?f1 = "''{{1}'' @ [newline]"
  have o: "?open ''{'' = Inr (?at ''{'')" "?open '''' = Inr (?at '''')" "?open ?f1 = Inr (?at ?f1)"
    by (simp_all add: OpenLog_def NewMemLog_def wit_dec_def drop_cr_def max_line_def)
  have a: "Accept wit_enc AppendOK wit_entry (?at ''{'') = (store_entry wit_entry (?at ?f1), None)"
    by (simp add: Accept_def durable_def wit_enc_def)
  have "entries (store_entry wit_entry (?at ?f1)) (Slot wit_entry) = Some wit_entry \<and>
        entries (?at ?f1) = entries (?at '''')"
    using torn_tail_loses_next_entry[of "''''" "''{''" wit_enc wit_entry wit_dec wit_decS "''d''" "''a''"
        Missing "?at ''{''" "store_entry wit_entry (?at ?f1)" "?at ?f1" "?at ''''"] o a
    by (simp add: clean_def wit_enc_def wit_dec_def drop_cr_def max_line_def)
  with o a show ?thesis by (auto simp: NewMemLog_def wit_entry_def)
qed

end
