(* ===== verification/PaxosNode.thy ===== *)
theory PaxosNode
  imports PaxosLog
begin

text \<open>
  One replica of a Paxos group, from \<^verbatim>\<open>src/internal/paxos/node.go\<close>.  A replica is a record; each
  stretch of the code that runs without waiting for the network is one function on it.  A round
  that broadcasts and waits (\<^verbatim>\<open>campaign\<close>, \<^verbatim>\<open>replicate\<close>, \<^verbatim>\<open>broadcastCommit\<close>, \<^verbatim>\<open>catchUp\<close>) is a
  function before the broadcast that yields the request, and one after it that takes the replies
  that came back in time; other messages may be handled in between.  What a step reads from its
  surroundings, the clock, the random draw of the election timer and the outcome of disk writes,
  is a record \<open>env\<close>.  The state machine is a parameter \<open>app\<close>, as \<^verbatim>\<open>StateMachine\<close> is an interface
  in the code.
\<close>

datatype Role = Follower | Candidate | Leader

record config =
  HeartbeatInterval :: int
  ElectionTimeout :: int
  RoundTimeout :: int

text \<open>Durations are in nanoseconds, as \<^verbatim>\<open>time.Duration\<close> counts them.\<close>

definition withDefaults :: "config \<Rightarrow> config" where
  "withDefaults c =
     \<lparr>HeartbeatInterval = (if HeartbeatInterval c \<le> 0 then 150000000 else HeartbeatInterval c),
      ElectionTimeout = (if ElectionTimeout c \<le> 0 then 1000000000 else ElectionTimeout c),
      RoundTimeout = (if RoundTimeout c \<le> 0 then 500000000 else RoundTimeout c)\<rparr>"

record env =
  now :: int
  rnd :: int                                 \<comment> \<open>the draw of \<^verbatim>\<open>rand.Int63n(base)\<close>\<close>
  jsonEntry :: "entry \<Rightarrow> string"
  jsonState :: "ballot \<Rightarrow> string"
  promiseIO :: bool                          \<comment> \<open>does writing the state file succeed\<close>
  acceptIO :: "slot \<Rightarrow> append_io"            \<comment> \<open>how appending the entry of a slot ends\<close>

record 's node =
  nid :: NodeID
  peers :: "NodeID list"
  cfg :: config
  sm :: 's
  nlog :: plog
  role :: Role
  nballot :: ballot
  leader :: NodeID
  electionAt :: int
  nextSlot :: slot
  lastQuorum :: int
  catchingUp :: bool
  committed :: "slot list"                   \<comment> \<open>the slots set to true in the map\<close>
  appliedIndex :: slot
  results :: "slot list"                     \<comment> \<open>the slots with a waiting proposer\<close>

datatype paxos_error = ErrNotLeader | ErrNoQuorum | ErrPersistEntry

section \<open>Construction and small accessors\<close>

definition resetElectionLocked :: "env \<Rightarrow> 's node \<Rightarrow> 's node" where
  "resetElectionLocked v n =
     (let base = ElectionTimeout (cfg n) in n\<lparr>electionAt := now v + (base + rnd v)\<rparr>)"

definition NewNode :: "env \<Rightarrow> NodeID \<Rightarrow> NodeID list \<Rightarrow> plog \<Rightarrow> 's \<Rightarrow> config \<Rightarrow> 's node" where
  "NewNode v n ps l s c =
     resetElectionLocked v
       \<lparr>nid = n, peers = ps, cfg = withDefaults c, sm = s, nlog = l, role = Follower,
        nballot = zero_ballot, leader = '''', electionAt = 0, nextSlot = 0, lastQuorum = 0,
        catchingUp = False, committed = [], appliedIndex = 0, results = []\<rparr>"

definition IsLeader :: "'s node \<Rightarrow> bool" where
  "IsLeader n \<longleftrightarrow> role n = Leader"

definition node_quorum :: "'s node \<Rightarrow> nat" where
  "node_quorum n = majority (length (peers n))"

text \<open>\<^verbatim>\<open>n.log.Promise(b)\<close> and \<^verbatim>\<open>n.log.Accept(e)\<close>, with the outcome the environment gives.\<close>

definition node_promise :: "env \<Rightarrow> ballot \<Rightarrow> 's node \<Rightarrow> 's node \<times> log_error option" where
  "node_promise v b n =
     (case Promise (jsonState v) (promiseIO v) b (nlog n) of (l, err) \<Rightarrow> (n\<lparr>nlog := l\<rparr>, err))"

definition node_accept :: "env \<Rightarrow> entry \<Rightarrow> 's node \<Rightarrow> 's node \<times> log_error option" where
  "node_accept v e n =
     (case Accept (jsonEntry v) (acceptIO v (Slot e)) e (nlog n) of (l, err) \<Rightarrow> (n\<lparr>nlog := l\<rparr>, err))"

definition stepDown :: "env \<Rightarrow> ballot \<Rightarrow> 's node \<Rightarrow> 's node" where
  "stepDown v seen n =
     (let n1 = resetElectionLocked v (n\<lparr>role := Follower\<rparr>)
      in if \<not> IsZero seen \<and> Less (Promised (nlog n1)) seen then fst (node_promise v seen n1) else n1)"

section \<open>Phase 1: election\<close>

definition campaign_begin :: "'s node \<Rightarrow> 's node option" where
  "campaign_begin n = (if role n = Leader then None else Some (n\<lparr>role := Candidate\<rparr>))"

definition ping_request :: "'s node \<Rightarrow> message" where
  "ping_request n = new_message KindPing (nid n)"

definition canReachQuorum :: "'s node \<Rightarrow> message list \<Rightarrow> bool" where
  "canReachQuorum n replies \<longleftrightarrow> node_quorum n \<le> 1 \<or> length replies + 1 \<ge> node_quorum n"

text \<open>From the answers to the probe to the \<^verbatim>\<open>PREPARE\<close> request, if there is to be one.\<close>

definition campaign_prepare :: "env \<Rightarrow> message list \<Rightarrow> 's node \<Rightarrow> 's node \<times> message option" where
  "campaign_prepare v pings n =
     (if \<not> canReachQuorum n pings then (stepDown v zero_ballot n, None)
      else if role n \<noteq> Candidate then (n, None)
      else
        (let next = Ballot (Num (Promised (nlog n)) + 1) (nid n)
         in case node_promise v next n of
              (n1, Some _) \<Rightarrow> (stepDown v zero_ballot n1, None)
            | (n1, None) \<Rightarrow>
                (n1, Some ((new_message KindPrepare (nid n))
                      \<lparr>MBallot := next, MSlot := appliedIndex n1 + 1\<rparr>))))"

text \<open>
  The entries a new leader adopts: for each slot at or above \<open>first\<close> the entry of the highest
  ballot, the earlier one when two have the same ballot.
\<close>

definition better :: "slot \<Rightarrow> entry \<Rightarrow> (slot \<rightharpoonup> entry) \<Rightarrow> (slot \<rightharpoonup> entry)" where
  "better first e best =
     (if Slot e < first then best
      else case best (Slot e) of
             None \<Rightarrow> best(Slot e \<mapsto> e)
           | Some cur \<Rightarrow> if Less (EBallot cur) (EBallot e) then best(Slot e \<mapsto> e) else best)"

definition best_entries :: "slot \<Rightarrow> entry list \<Rightarrow> (slot \<rightharpoonup> entry)" where
  "best_entries first gathered = fold (better first) gathered Map.empty"

definition top_slot :: "slot \<Rightarrow> entry list \<Rightarrow> slot" where
  "top_slot first gathered =
     fold (\<lambda>e m. if Slot e < first then m else if Slot e > m then Slot e else m) gathered 0"

text \<open>The re-proposals of the recovery pass, in the order the goroutine makes them.\<close>

definition recovery :: "slot \<Rightarrow> entry list \<Rightarrow> (slot \<times> bytes) list" where
  "recovery first gathered =
     map (\<lambda>s. (s, case best_entries first gathered s of Some e \<Rightarrow> Command e | None \<Rightarrow> []))
       [first..<Suc (top_slot first gathered)]"

definition becomeLeader ::
  "env \<Rightarrow> ballot \<Rightarrow> entry list \<Rightarrow> slot \<Rightarrow> 's node \<Rightarrow> 's node \<times> (slot \<times> bytes) list" where
  "becomeLeader v b gathered first n =
     (let next = top_slot first gathered + 1;
          n1 = resetElectionLocked v
                 (n\<lparr>role := Leader, leader := nid n, nballot := b, lastQuorum := now v\<rparr>)
      in (n1\<lparr>nextSlot := (if next < first then first else next)\<rparr>, recovery first gathered))"

definition count_ok :: "message list \<Rightarrow> nat" where
  "count_ok replies = length (filter OK replies)"

text \<open>From the promises to the outcome: leader with a recovery pass, or follower again.\<close>

definition campaign_finish ::
  "env \<Rightarrow> message \<Rightarrow> message list \<Rightarrow> 's node \<Rightarrow> 's node \<times> (slot \<times> bytes) list option" where
  "campaign_finish v req replies n =
     (let next = MBallot req; first = MSlot req;
          gathered = EntriesFrom (nlog n) first @ concat (map Entries (filter OK replies));
          highest = fold (\<lambda>r h. if Less h (MBallot r) then MBallot r else h)
                      (filter (\<lambda>r. \<not> OK r) replies) next
      in if 1 + count_ok replies < node_quorum n
         then (stepDown v zero_ballot
                 (if Less next highest then fst (node_promise v highest n) else n), None)
         else map_prod id Some (becomeLeader v next gathered first n))"

section \<open>Phase 2: replication\<close>

definition markCommitted :: "slot list \<Rightarrow> 's node \<Rightarrow> 's node" where
  "markCommitted slots n = n\<lparr>committed := slots @ committed n\<rparr>"

definition replicate_begin ::
  "env \<Rightarrow> slot \<Rightarrow> bytes \<Rightarrow> 's node \<Rightarrow> 's node \<times> (paxos_error + message)" where
  "replicate_begin v s cmd n =
     (if role n \<noteq> Leader then (n, Inl ErrNotLeader)
      else
        (let b = nballot n
         in case node_accept v \<lparr>Slot = s, EBallot = b, Command = cmd\<rparr> n of
              (n1, Some _) \<Rightarrow> (n1, Inl ErrPersistEntry)
            | (n1, None) \<Rightarrow>
                (n1, Inr ((new_message KindAccept (nid n))
                       \<lparr>MBallot := b, MSlot := s, MCommand := cmd\<rparr>))))"

text \<open>The scan of the replies: the votes so far, or the higher ballot of the first refusal.\<close>

fun tally :: "ballot \<Rightarrow> nat \<Rightarrow> message list \<Rightarrow> ballot + nat" where
  "tally b votes [] = Inr votes"
| "tally b votes (r # rs) =
     (if OK r then tally b (votes + 1) rs
      else if Less b (MBallot r) then Inl (MBallot r)
      else tally b votes rs)"

definition replicate_finish ::
  "env \<Rightarrow> message \<Rightarrow> message list \<Rightarrow> 's node \<Rightarrow> 's node \<times> paxos_error option" where
  "replicate_finish v req replies n =
     (case tally (MBallot req) 1 replies of
        Inl seen \<Rightarrow> (stepDown v seen n, Some ErrNotLeader)
      | Inr votes \<Rightarrow>
          if votes < node_quorum n then (n, Some ErrNoQuorum)
          else (markCommitted [MSlot req] n, None))"

text \<open>\<^verbatim>\<open>Propose\<close>: handing out a slot, and giving up on it when the round failed.\<close>

definition propose_begin :: "'s node \<Rightarrow> 's node \<times> (paxos_error + slot)" where
  "propose_begin n =
     (if role n \<noteq> Leader then (n, Inl ErrNotLeader)
      else (n\<lparr>nextSlot := nextSlot n + 1, results := nextSlot n # results n\<rparr>, Inr (nextSlot n)))"

definition propose_fail :: "env \<Rightarrow> slot \<Rightarrow> 's node \<Rightarrow> 's node" where
  "propose_fail v s n = stepDown v zero_ballot (n\<lparr>results := removeAll s (results n)\<rparr>)"

section \<open>Applying\<close>

lemma fold_max_ge: "a \<le> fold max cs (a::nat)"
proof (induction cs arbitrary: a)
  case (Cons c cs)
  from Cons.IH [of "max c a"] show ?case by simp
qed simp

lemma committed_bound: "s \<in> set cs \<Longrightarrow> s \<le> fold max cs (a::nat)"
proof (induction cs arbitrary: a)
  case (Cons c cs)
  show ?case
  proof (cases "s = c")
    case True
    then show ?thesis using fold_max_ge [of "max c a" cs] by simp
  next
    case False
    then show ?thesis using Cons by simp
  qed
qed simp

text \<open>
  One turn of the loop of \<^verbatim>\<open>drainApplicable\<close>: apply the next slot, if it is committed and stored
  here, and hand the result to the proposer waiting for it, if there is one (\<open>None\<close> is the nil a
  no-op gives).  Messages may be handled between two turns.
\<close>

definition apply_entry ::
  "(slot \<Rightarrow> bytes \<Rightarrow> 's \<Rightarrow> 's \<times> 'r) \<Rightarrow> slot \<Rightarrow> entry \<Rightarrow> 's \<Rightarrow> 's \<times> 'r option" where
  "apply_entry app s e st =
     (if IsNoop e then (st, None) else map_prod id Some (app s (Command e) st))"

definition apply_one ::
  "(slot \<Rightarrow> bytes \<Rightarrow> 's \<Rightarrow> 's \<times> 'r) \<Rightarrow> 's node \<Rightarrow> ('s node \<times> (slot \<times> 'r option) list) option" where
  "apply_one app n =
     (let next = appliedIndex n + 1
      in if next \<notin> set (committed n) then None
         else case Get (nlog n) next of
                None \<Rightarrow> None
              | Some e \<Rightarrow>
                  (let r = apply_entry app next e (sm n)
                   in Some (n\<lparr>sm := fst r, appliedIndex := next, results := removeAll next (results n)\<rparr>,
                            if next \<in> set (results n) then [(next, snd r)] else [])))"

lemma apply_one_SomeE:
  assumes "apply_one app n = Some (n', out)"
  obtains e where "Suc (appliedIndex n) \<in> set (committed n)"
    and "Get (nlog n) (Suc (appliedIndex n)) = Some e"
    and "n' = n\<lparr>sm := fst (apply_entry app (Suc (appliedIndex n)) e (sm n)),
                appliedIndex := Suc (appliedIndex n),
                results := removeAll (Suc (appliedIndex n)) (results n)\<rparr>"
    and "out = (if Suc (appliedIndex n) \<in> set (results n)
                then [(Suc (appliedIndex n), snd (apply_entry app (Suc (appliedIndex n)) e (sm n)))] else [])"
  using assms
  by (cases "Get (nlog n) (Suc (appliedIndex n))")
    (simp_all add: apply_one_def Let_def split: if_split_asm)

function drainApplicable ::
  "(slot \<Rightarrow> bytes \<Rightarrow> 's \<Rightarrow> 's \<times> 'r) \<Rightarrow> 's node \<Rightarrow> 's node \<times> (slot \<times> 'r option) list" where
  "drainApplicable app n =
     (case apply_one app n of
        None \<Rightarrow> (n, [])
      | Some (n', out) \<Rightarrow> map_prod id ((@) out) (drainApplicable app n'))"
  by pat_completeness auto
termination
proof (relation "measure (\<lambda>(app, n). Suc (fold max (committed n) 0) - appliedIndex n)", goal_cases)
  case (2 app n p n' out)
  then have step: "apply_one app n = Some (n', out)" by simp
  then have "appliedIndex n' = Suc (appliedIndex n)" "committed n' = committed n"
    by (auto elim!: apply_one_SomeE)
  moreover have "Suc (appliedIndex n) \<le> fold max (committed n) 0"
    using step by (rule apply_one_SomeE) (rule committed_bound)
  ultimately show ?case by simp
qed simp

declare drainApplicable.simps [simp del]

section \<open>Message handling\<close>

definition becomeFollower :: "env \<Rightarrow> NodeID \<Rightarrow> 's node \<Rightarrow> 's node" where
  "becomeFollower v from n = resetElectionLocked v (n\<lparr>role := Follower, leader := from\<rparr>)"

definition handlePrepare :: "env \<Rightarrow> message \<Rightarrow> 's node \<Rightarrow> 's node \<times> message" where
  "handlePrepare v msg n =
     (let reply = new_message KindPromise (nid n); prom = Promised (nlog n)
      in if Less (MBallot msg) prom then (n, reply\<lparr>MBallot := prom\<rparr>)
         else case node_promise v (MBallot msg) n of
                (n1, Some _) \<Rightarrow> (n1, reply\<lparr>MBallot := prom\<rparr>)
              | (n1, None) \<Rightarrow>
                  (let n2 = becomeFollower v (From msg) n1
                   in (n2, reply\<lparr>OK := True, MBallot := MBallot msg,
                              Entries := EntriesFrom (nlog n2) (MSlot msg)\<rparr>)))"

definition handleAccept :: "env \<Rightarrow> message \<Rightarrow> 's node \<Rightarrow> 's node \<times> message" where
  "handleAccept v msg n =
     (let reply = (new_message KindAccepted (nid n))\<lparr>MSlot := MSlot msg\<rparr>; prom = Promised (nlog n)
      in if Less (MBallot msg) prom then (n, reply\<lparr>MBallot := prom\<rparr>)
         else case (if Less prom (MBallot msg) then node_promise v (MBallot msg) n else (n, None)) of
                (n1, Some _) \<Rightarrow> (n1, reply\<lparr>MBallot := prom\<rparr>)
              | (n1, None) \<Rightarrow>
                  (case node_accept v \<lparr>Slot = MSlot msg, EBallot = MBallot msg, Command = MCommand msg\<rparr> n1 of
                     (n2, Some _) \<Rightarrow> (n2, reply\<lparr>MBallot := MBallot msg\<rparr>)
                   | (n2, None) \<Rightarrow>
                       (becomeFollower v (From msg) n2, reply\<lparr>OK := True, MBallot := MBallot msg\<rparr>)))"

text \<open>
  \<^verbatim>\<open>handleCommit\<close>.  The third component is the catch-up fetch it starts in the background: from
  whom, the first slot and the commit index.
\<close>

definition handleCommit ::
  "env \<Rightarrow> message \<Rightarrow> 's node \<Rightarrow> 's node \<times> message \<times> (NodeID \<times> slot \<times> slot) option" where
  "handleCommit v msg n =
     (let reply = new_message KindCommit (nid n); prom = Promised (nlog n)
      in if Less (MBallot msg) prom then (n, reply\<lparr>MBallot := prom\<rparr>, None)
         else
           (let n1 = becomeFollower v (From msg) n;
                applied = appliedIndex n1;
                fetch = (CommitIndex msg > applied \<and> \<not> catchingUp n1)
            in (if fetch then n1\<lparr>catchingUp := True\<rparr> else n1,
                reply\<lparr>OK := True, MBallot := MBallot msg\<rparr>,
                if fetch then Some (From msg, applied + 1, CommitIndex msg) else None)))"

definition handlePing :: "env \<Rightarrow> 's node \<Rightarrow> 's node \<times> message" where
  "handlePing v n =
     (let n1 = (if role n \<noteq> Leader then resetElectionLocked v n else n)
      in (n1, (new_message KindPing (nid n))\<lparr>OK := True, MBallot := Promised (nlog n1)\<rparr>))"

definition handleCatchUp :: "message \<Rightarrow> 's node \<Rightarrow> message" where
  "handleCatchUp msg n =
     (new_message KindCatchUp (nid n))\<lparr>OK := True, Entries := EntriesFrom (nlog n) (MSlot msg)\<rparr>"

definition Handle ::
  "env \<Rightarrow> message \<Rightarrow> 's node \<Rightarrow> 's node \<times> message \<times> (NodeID \<times> slot \<times> slot) option" where
  "Handle v msg n =
     (case Kind msg of
        KindPrepare \<Rightarrow> (case handlePrepare v msg n of (n', r) \<Rightarrow> (n', r, None))
      | KindAccept \<Rightarrow> (case handleAccept v msg n of (n', r) \<Rightarrow> (n', r, None))
      | KindCommit \<Rightarrow> handleCommit v msg n
      | KindCatchUp \<Rightarrow> (n, handleCatchUp msg n, None)
      | KindPing \<Rightarrow> (case handlePing v n of (n', r) \<Rightarrow> (n', r, None))
      | k \<Rightarrow> (n, new_message k (nid n), None))"

section \<open>Catching up and heartbeats\<close>

definition catchUp_request :: "slot \<Rightarrow> 's node \<Rightarrow> message" where
  "catchUp_request first n = (new_message KindCatchUp (nid n))\<lparr>MSlot := first\<rparr>"

text \<open>A later entry of the reply for the same slot wins, as in the map \<^verbatim>\<open>chosen\<close>.\<close>

definition chosen_map :: "entry list \<Rightarrow> (slot \<rightharpoonup> entry)" where
  "chosen_map es = fold (\<lambda>e m. m(Slot e \<mapsto> e)) es Map.empty"

text \<open>One slot of the loop: nothing to do when the entries agree, and otherwise the leader's is stored.\<close>

definition catchUp_slot :: "env \<Rightarrow> entry \<Rightarrow> slot \<Rightarrow> 's node \<Rightarrow> 's node \<times> log_error option" where
  "catchUp_slot v e s n =
     (case Get (nlog n) s of
        Some d \<Rightarrow> if EBallot d \<noteq> EBallot e \<or> Command d \<noteq> Command e then node_accept v e n else (n, None)
      | None \<Rightarrow> node_accept v e n)"

fun catchUp_loop ::
  "env \<Rightarrow> (slot \<rightharpoonup> entry) \<Rightarrow> slot list \<Rightarrow> 's node \<Rightarrow> 's node \<times> slot list" where
  "catchUp_loop v chosen [] n = (n, [])"
| "catchUp_loop v chosen (s # ss) n =
     (case chosen s of
        None \<Rightarrow> (n, [])
      | Some e \<Rightarrow>
          (case catchUp_slot v e s n of
             (n1, Some _) \<Rightarrow> (n1, [])
           | (n1, None) \<Rightarrow> map_prod id ((#) s) (catchUp_loop v chosen ss n1)))"

definition catchUp_finish ::
  "env \<Rightarrow> message option \<Rightarrow> slot \<Rightarrow> slot \<Rightarrow> 's node \<Rightarrow> 's node" where
  "catchUp_finish v reply first commitIndex n =
     (case reply of
        None \<Rightarrow> n\<lparr>catchingUp := False\<rparr>
      | Some r \<Rightarrow>
          if \<not> OK r then n\<lparr>catchingUp := False\<rparr>
          else (case catchUp_loop v (chosen_map (Entries r)) [first..<Suc commitIndex] n of
                  (n1, slots) \<Rightarrow>
                    (if slots \<noteq> [] then markCommitted slots n1 else n1)\<lparr>catchingUp := False\<rparr>))"

definition commit_request :: "'s node \<Rightarrow> message" where
  "commit_request n =
     (new_message KindCommit (nid n))\<lparr>MBallot := nballot n, CommitIndex := appliedIndex n\<rparr>"

definition broadcastCommit_finish :: "env \<Rightarrow> message \<Rightarrow> message list \<Rightarrow> 's node \<Rightarrow> 's node" where
  "broadcastCommit_finish v req replies n =
     (case tally (MBallot req) 1 replies of
        Inl seen \<Rightarrow> stepDown v seen n
      | Inr acks \<Rightarrow>
          if acks \<ge> node_quorum n then n\<lparr>lastQuorum := now v\<rparr>
          else if role n = Leader \<and> now v - lastQuorum n > ElectionTimeout (cfg n)
               then stepDown v zero_ballot n
          else n)"

text \<open>One tick of \<^verbatim>\<open>runTimers\<close>: what the replica sets out to do.\<close>

datatype tick = TickHeartbeat | TickCampaign | TickNothing

definition runTimers_tick :: "env \<Rightarrow> 's node \<Rightarrow> tick" where
  "runTimers_tick v n =
     (if role n = Leader then TickHeartbeat
      else if now v > electionAt n then TickCampaign
      else TickNothing)"

section \<open>What the steps leave alone\<close>

lemma resetElectionLocked_sel [simp]:
  "nid (resetElectionLocked v n) = nid n" "peers (resetElectionLocked v n) = peers n"
  "nlog (resetElectionLocked v n) = nlog n" "role (resetElectionLocked v n) = role n"
  "nballot (resetElectionLocked v n) = nballot n" "nextSlot (resetElectionLocked v n) = nextSlot n"
  "committed (resetElectionLocked v n) = committed n" "sm (resetElectionLocked v n) = sm n"
  "appliedIndex (resetElectionLocked v n) = appliedIndex n" "cfg (resetElectionLocked v n) = cfg n"
  "catchingUp (resetElectionLocked v n) = catchingUp n" "results (resetElectionLocked v n) = results n"
  "leader (resetElectionLocked v n) = leader n" "lastQuorum (resetElectionLocked v n) = lastQuorum n"
  by (simp_all add: resetElectionLocked_def Let_def)

lemma node_promiseE:
  assumes "node_promise v b n = (n', err)"
  obtains l where "n' = n\<lparr>nlog := l\<rparr>" "entries l = entries (nlog n)" "maxSlot l = maxSlot (nlog n)"
    "promised l = (if err = None then b else promised (nlog n))" "log_wf (nlog n) \<Longrightarrow> log_wf l"
proof -
  define l where "l = fst (Promise (jsonState v) (promiseIO v) b (nlog n))"
  have "n' = n\<lparr>nlog := l\<rparr>" "err = snd (Promise (jsonState v) (promiseIO v) b (nlog n))"
    using assms by (auto simp: node_promise_def l_def split: prod.splits)
  then show ?thesis
    using that [of l] by (simp add: l_def Promise_promised Promise_log_wf)
qed

lemma node_acceptE:
  assumes "node_accept v e n = (n', err)"
  obtains l where "n' = n\<lparr>nlog := l\<rparr>" "promised l = promised (nlog n)"
    "entries l = (if err = None then (entries (nlog n))(Slot e \<mapsto> e) else entries (nlog n))"
    "log_wf (nlog n) \<Longrightarrow> log_wf l"
proof -
  define l where "l = fst (Accept (jsonEntry v) (acceptIO v (Slot e)) e (nlog n))"
  have *: "n' = n\<lparr>nlog := l\<rparr>" "err = snd (Accept (jsonEntry v) (acceptIO v (Slot e)) e (nlog n))"
    using assms by (auto simp: node_accept_def l_def split: prod.splits)
  have "entries l = (if err = None then (entries (nlog n))(Slot e \<mapsto> e) else entries (nlog n))"
    using * Accept_error_keeps by (auto simp: l_def)
  with * show ?thesis
    using that [of l] by (simp add: l_def Accept_log_wf)
qed

lemma stepDown_sel [simp]:
  "nid (stepDown v b n) = nid n" "peers (stepDown v b n) = peers n"
  "role (stepDown v b n) = Follower"
  "nballot (stepDown v b n) = nballot n" "nextSlot (stepDown v b n) = nextSlot n"
  "committed (stepDown v b n) = committed n" "sm (stepDown v b n) = sm n"
  "appliedIndex (stepDown v b n) = appliedIndex n"
  "entries (nlog (stepDown v b n)) = entries (nlog n)"
  "log_wf (nlog n) \<Longrightarrow> log_wf (nlog (stepDown v b n))"
  by (cases "node_promise v b (resetElectionLocked v (n\<lparr>role := Follower\<rparr>))";
      auto simp: stepDown_def Let_def elim!: node_promiseE)+

lemma stepDown_promised: "promised (nlog n) \<le> promised (nlog (stepDown v b n))"
  by (cases "node_promise v b (resetElectionLocked v (n\<lparr>role := Follower\<rparr>))")
    (auto simp: stepDown_def Let_def Promised_def elim!: node_promiseE)

lemma stepDown_zero [simp]:
  "nlog (stepDown v zero_ballot n) = nlog n"
  by (simp add: stepDown_def Let_def IsZero_def zero_ballot_def)

lemma becomeFollower_sel [simp]:
  "nid (becomeFollower v f n) = nid n" "peers (becomeFollower v f n) = peers n"
  "nlog (becomeFollower v f n) = nlog n" "role (becomeFollower v f n) = Follower"
  "nballot (becomeFollower v f n) = nballot n" "nextSlot (becomeFollower v f n) = nextSlot n"
  "committed (becomeFollower v f n) = committed n" "sm (becomeFollower v f n) = sm n"
  "appliedIndex (becomeFollower v f n) = appliedIndex n"
  "catchingUp (becomeFollower v f n) = catchingUp n" "results (becomeFollower v f n) = results n"
  by (simp_all add: becomeFollower_def)

section \<open>The three rules, on one replica\<close>

lemma Handle_promise_rules:
  assumes "Handle v m n = (n', r, f)"
  shows "promised (nlog n) \<le> promised (nlog n')"
    and "Kind m \<in> {KindPrepare, KindAccept, KindCommit} \<Longrightarrow> MBallot m < promised (nlog n) \<Longrightarrow>
         n' = n \<and> \<not> OK r \<and> MBallot r = promised (nlog n) \<and> f = None"
    and "Kind m \<in> {KindPrepare, KindAccept} \<Longrightarrow> OK r \<Longrightarrow>
         promised (nlog n') = MBallot m \<and> promised (nlog n) \<le> MBallot m"
proof -
  note defs = Handle_def handlePrepare_def handleAccept_def handleCommit_def handlePing_def Let_def
    Promised_def
  show "promised (nlog n) \<le> promised (nlog n')"
    using assms
    by (auto simp: defs split: MessageKind.splits if_splits prod.splits option.splits
        elim!: node_promiseE node_acceptE)
  show "n' = n \<and> \<not> OK r \<and> MBallot r = promised (nlog n) \<and> f = None"
    if "Kind m \<in> {KindPrepare, KindAccept, KindCommit}" "MBallot m < promised (nlog n)"
    using assms that by (auto simp: defs)
  show "promised (nlog n') = MBallot m \<and> promised (nlog n) \<le> MBallot m"
    if "Kind m \<in> {KindPrepare, KindAccept}" "OK r"
    using assms that
    by (auto simp: defs split: if_splits prod.splits option.splits
        elim!: node_promiseE node_acceptE)
qed

text \<open>
  C7: rule 1.  No message ever lowers the promise of a replica.  A prepare, an accept or a
  heartbeat below the promise changes nothing and is refused with the promised ballot.  A
  replica that agrees to a prepare or an accept has, from then on, exactly that ballot promised.
\<close>

theorem Handle_rule1:
  assumes "Handle v m n = (n', r, f)"
  shows "promised (nlog n) \<le> promised (nlog n') \<and>
    (Kind m \<in> {KindPrepare, KindAccept, KindCommit} \<and> MBallot m < promised (nlog n) \<longrightarrow>
       n' = n \<and> \<not> OK r \<and> MBallot r = promised (nlog n) \<and> f = None) \<and>
    (Kind m \<in> {KindPrepare, KindAccept} \<and> OK r \<longrightarrow>
       promised (nlog n') = MBallot m \<and> promised (nlog n) \<le> MBallot m)"
  using Handle_promise_rules [OF assms] by blast

definition wit_env :: env where
  "wit_env = \<lparr>now = 0, rnd = 0, jsonEntry = (\<lambda>_. []), jsonState = (\<lambda>_. []), promiseIO = True,
              acceptIO = (\<lambda>_. AppendOK)\<rparr>"

definition wit_config :: config where
  "wit_config = \<lparr>HeartbeatInterval = 0, ElectionTimeout = 0, RoundTimeout = 0\<rparr>"

definition wit_node :: "nat node" where
  "wit_node = NewNode wit_env ''n1'' [''n1'', ''n2'', ''n3''] NewMemLog 0 wit_config"

definition wit_prepare :: message where
  "wit_prepare = (new_message KindPrepare ''n2'')\<lparr>MBallot := Ballot 4 ''n2'', MSlot := 1\<rparr>"

definition wit_accept :: message where
  "wit_accept = (new_message KindAccept ''n2'')\<lparr>MBallot := Ballot 4 ''n2'', MSlot := 1, MCommand := [7]\<rparr>"

lemmas wit_node_defs = wit_env_def wit_config_def wit_node_def wit_prepare_def wit_accept_def
  NewNode_def NewMemLog_def resetElectionLocked_def withDefaults_def

theorem Handle_rule1_witness:
  "promised (nlog (fst (Handle wit_env wit_prepare wit_node))) = Ballot 4 ''n2''"
proof -
  obtain n' r f where h: "Handle wit_env wit_prepare wit_node = (n', r, f)" by (metis prod_cases3)
  have "OK r"
    using h by (auto simp: Handle_def handlePrepare_def wit_node_defs Let_def Promised_def
        node_promise_def Promise_def durable_def Less_def Compare_def zero_ballot_def
        split: prod.splits if_splits)
  moreover have "Kind wit_prepare = KindPrepare" "MBallot wit_prepare = Ballot 4 ''n2''"
    by (simp_all add: wit_prepare_def)
  ultimately show ?thesis using Handle_rule1 [OF h] h by simp
qed

text \<open>
  Rule 2.  A promise carries back everything the replica has accepted at or above the slot
  asked for, and nothing else; giving it leaves the accepted entries as they were.
\<close>

theorem handlePrepare_rule2:
  assumes "log_wf (nlog n)" and "handlePrepare v m n = (n', r)" and "OK r"
  shows "set (Entries r) = {e. \<exists>s \<ge> MSlot m. entries (nlog n) s = Some e} \<and>
    entries (nlog n') = entries (nlog n)"
  using assms
  by (auto simp: handlePrepare_def Let_def Promised_def EntriesFrom_set
      split: if_splits prod.splits option.splits elim!: node_promiseE)

theorem handlePrepare_rule2_witness:
  "set (Entries (snd (handlePrepare wit_env wit_prepare (fst (handleAccept wit_env wit_accept wit_node)))))
   = {\<lparr>Slot = 1, EBallot = Ballot 4 ''n2'', Command = [7]\<rparr>}"
proof -
  define n where "n = fst (handleAccept wit_env wit_accept wit_node)"
  have e: "entries (nlog n) = [1 \<mapsto> \<lparr>Slot = 1, EBallot = Ballot 4 ''n2'', Command = [7]\<rparr>]"
    and p: "nlog n = (nlog n)\<lparr>statePath := []\<rparr>" "promised (nlog n) = Ballot 4 ''n2''"
    by (simp_all add: n_def handleAccept_def wit_node_defs Let_def Promised_def node_accept_def
        node_promise_def Promise_def Accept_def durable_def store_entry_def becomeFollower_def
        zero_ballot_def)
  have wf: "log_wf (nlog n)"
    by (simp add: n_def handleAccept_def wit_node_defs Let_def Promised_def node_accept_def log_wf_def
        node_promise_def Promise_def Accept_def durable_def store_entry_def becomeFollower_def
        zero_ballot_def)
  obtain n' r where h: "handlePrepare wit_env wit_prepare n = (n', r)" by fastforce
  have "durable (nlog n) = False" using p(1) by (metis durable_def plog.select_convs(1) plog.surjective plog.update_convs(1))
  then have ok: "OK r"
    using h p(2) by (auto simp: handlePrepare_def wit_prepare_def Let_def Promised_def node_promise_def
        Promise_def split: prod.splits if_splits)
  show ?thesis
    unfolding n_def [symmetric] using handlePrepare_rule2 [OF wf h ok] h
    by (auto simp: e wit_prepare_def split: if_splits)
qed

text \<open>
  An accept that is not refused stores the entry and only that; a failed one stores nothing.
\<close>

lemma handleAccept_entries:
  assumes "handleAccept v m n = (n', r)"
  shows "entries (nlog n') =
    (if OK r then (entries (nlog n))
        (MSlot m \<mapsto> \<lparr>Slot = MSlot m, EBallot = MBallot m, Command = MCommand m\<rparr>)
     else entries (nlog n))"
  using assms
  by (auto simp: handleAccept_def Let_def split: if_splits prod.splits option.splits
      elim!: node_promiseE node_acceptE)

section \<open>Adoption: what a new leader proposes\<close>

lemma best_entries_snoc: "best_entries first (es @ [e]) = better first e (best_entries first es)"
  by (simp add: best_entries_def)

lemma best_entries_None:
  "best_entries first es s = None \<longleftrightarrow> s < first \<or> (\<forall>e \<in> set es. Slot e \<noteq> s)"
proof (induction es rule: rev_induct)
  case (snoc e es)
  then show ?case
    by (auto simp: best_entries_snoc better_def split: option.splits if_splits)
qed (auto simp: best_entries_def)

lemma best_entries_Some:
  assumes "best_entries first es s = Some b"
  shows "b \<in> set es \<and> Slot b = s \<and> first \<le> s \<and> (\<forall>e \<in> set es. Slot e = s \<longrightarrow> EBallot e \<le> EBallot b)"
  using assms
proof (induction es arbitrary: b rule: rev_induct)
  case (snoc e es)
  show ?case
  proof (cases "Slot e = s \<and> first \<le> s")
    case False
    then have "best_entries first es s = Some b"
      using snoc.prems by (auto simp: best_entries_snoc better_def split: option.splits if_splits)
    then show ?thesis using snoc.IH [of b] False by auto
  next
    case True
    show ?thesis
    proof (cases "best_entries first es s")
      case None
      then show ?thesis
        using True snoc.prems best_entries_None [of first es s]
        by (auto simp: best_entries_snoc better_def)
    next
      case (Some c)
      then show ?thesis
        using True snoc.prems snoc.IH [OF Some]
        by (auto simp: best_entries_snoc better_def split: if_splits dest: order.strict_implies_order)
    qed
  qed
qed (simp add: best_entries_def)

lemma top_slot_snoc:
  "top_slot first (es @ [e]) =
     (if Slot e < first then top_slot first es else max (Slot e) (top_slot first es))"
  by (simp add: top_slot_def max_def)

lemma top_slot_ge: "e \<in> set es \<Longrightarrow> first \<le> Slot e \<Longrightarrow> Slot e \<le> top_slot first es"
  by (induction es rule: rev_induct) (auto simp: top_slot_snoc)

lemma top_slot_attained:
  "top_slot first es = 0 \<or> (\<exists>e \<in> set es. first \<le> Slot e \<and> Slot e = top_slot first es)"
  by (induction es rule: rev_induct) (auto simp: top_slot_snoc max_def, simp add: top_slot_def)

lemma recovery_iff:
  "(s, c) \<in> set (recovery first es) \<longleftrightarrow>
     first \<le> s \<and> s \<le> top_slot first es \<and>
     c = (case best_entries first es s of Some e \<Rightarrow> Command e | None \<Rightarrow> [])"
  by (auto simp: recovery_def simp del: upt_Suc)

text \<open>
  C8: Adoption.  A replica that becomes leader re-proposes, for every slot that any promise
  reported at or above the first open one, the command of an entry with the highest ballot
  reported for that slot; a slot nobody reported, below one that was, gets a no-op; each slot
  once, in order; and the slots it hands out afterwards lie above all of these.
\<close>

theorem becomeLeader_adopts:
  assumes "becomeLeader v b gathered first n = (n', todo)"
  shows "(\<forall>e \<in> set gathered. first \<le> Slot e \<longrightarrow>
            (\<exists>d \<in> set gathered. Slot d = Slot e \<and> EBallot e \<le> EBallot d \<and>
               (\<forall>x \<in> set gathered. Slot x = Slot e \<longrightarrow> EBallot x \<le> EBallot d) \<and>
               (Slot e, Command d) \<in> set todo)) \<and>
    (\<forall>(s, c) \<in> set todo. (\<forall>e \<in> set gathered. Slot e \<noteq> s) \<longrightarrow> c = []) \<and>
    map fst todo = [first..<Suc (top_slot first gathered)] \<and>
    (\<forall>(s, c) \<in> set todo. s < nextSlot n') \<and> first \<le> nextSlot n' \<and>
    role n' = Leader \<and> nballot n' = b \<and> nlog n' = nlog n"
proof -
  have n': "nextSlot n' = max (Suc (top_slot first gathered)) first" "role n' = Leader"
    "nballot n' = b" "nlog n' = nlog n" and todo: "todo = recovery first gathered"
    using assms by (auto simp: becomeLeader_def Let_def)
  have adopt: "\<exists>d \<in> set gathered. Slot d = Slot e \<and> EBallot e \<le> EBallot d \<and>
               (\<forall>x \<in> set gathered. Slot x = Slot e \<longrightarrow> EBallot x \<le> EBallot d) \<and>
               (Slot e, Command d) \<in> set todo"
    if e: "e \<in> set gathered" "first \<le> Slot e" for e
  proof -
    obtain d where d: "best_entries first gathered (Slot e) = Some d"
      using e best_entries_None [of first gathered "Slot e"] by fastforce
    then show ?thesis
      using best_entries_Some [OF d] e top_slot_ge [OF e] by (auto simp: todo recovery_iff)
  qed
  moreover have "c = []" if "(s, c) \<in> set todo" "\<forall>e \<in> set gathered. Slot e \<noteq> s" for s c
    using that best_entries_None [of first gathered s] by (auto simp: todo recovery_iff)
  moreover have "map fst todo = [first..<Suc (top_slot first gathered)]"
    by (simp add: todo recovery_def comp_def del: upt_Suc)
  moreover have "s < nextSlot n'" if "(s, c) \<in> set todo" for s c
    using that by (auto simp: todo recovery_iff n')
  ultimately show ?thesis using n' by auto
qed

theorem becomeLeader_adopts_witness:
  "(2, [9]) \<in> set (snd (becomeLeader wit_env (Ballot 5 ''n1'')
      [\<lparr>Slot = 2, EBallot = Ballot 1 ''n2'', Command = [8]\<rparr>,
       \<lparr>Slot = 2, EBallot = Ballot 3 ''n3'', Command = [9]\<rparr>] 1 wit_node))"
proof -
  let ?g = "[\<lparr>Slot = 2, EBallot = Ballot 1 ''n2'', Command = [8::byte]\<rparr>,
       \<lparr>Slot = 2, EBallot = Ballot 3 ''n3'', Command = [9]\<rparr>]"
  obtain n' todo where h: "becomeLeader wit_env (Ballot 5 ''n1'') ?g 1 wit_node = (n', todo)"
    by fastforce
  have "\<exists>d \<in> set ?g. Slot d = 2 \<and> (\<forall>x \<in> set ?g. Slot x = 2 \<longrightarrow> EBallot x \<le> EBallot d) \<and>
      (2, Command d) \<in> set todo"
    using becomeLeader_adopts [OF h] by simp
  then show ?thesis unfolding h by (auto simp: less_eq_ballot_iff)
qed

section \<open>Applying in slot order\<close>

lemma drainApplicable_None: "apply_one app n = None \<Longrightarrow> drainApplicable app n = (n, [])"
  by (subst drainApplicable.simps) simp

lemma drainApplicable_Some:
  "apply_one app n = Some (n1, out) \<Longrightarrow>
   drainApplicable app n = (fst (drainApplicable app n1), out @ snd (drainApplicable app n1))"
  by (subst drainApplicable.simps) (simp add: map_prod_def split: prod.splits)

text \<open>Applying the stored entries of a range of slots, one after the other.\<close>

definition apply_range ::
  "(slot \<Rightarrow> bytes \<Rightarrow> 's \<Rightarrow> 's \<times> 'r) \<Rightarrow> plog \<Rightarrow> slot \<Rightarrow> slot \<Rightarrow> 's \<Rightarrow> 's" where
  "apply_range app l lo hi st =
     fold (\<lambda>s. fst \<circ> apply_entry app s (the (Get l s))) [Suc lo..<Suc hi] st"

text \<open>
  Rule 3.  A drain returns, and applies exactly the slots after the applied index up to the
  first one that is not committed or not stored here: each once, in slot order, from the
  replica's own log, which it does not change.  A waiting proposer is answered exactly when its
  slot is applied.
\<close>

theorem drainApplicable_in_order:
  "let n' = fst (drainApplicable app n); out = snd (drainApplicable app n)
   in sm n' = apply_range app (nlog n) (appliedIndex n) (appliedIndex n') (sm n) \<and>
      appliedIndex n \<le> appliedIndex n' \<and>
      {appliedIndex n<..appliedIndex n'} \<subseteq> set (committed n) \<inter> dom (entries (nlog n)) \<and>
      Suc (appliedIndex n') \<notin> set (committed n) \<inter> dom (entries (nlog n)) \<and>
      nlog n' = nlog n \<and> committed n' = committed n \<and>
      map fst out = filter (\<lambda>s. s \<in> set (results n)) [Suc (appliedIndex n)..<Suc (appliedIndex n')]"
proof (induction app n rule: drainApplicable.induct)
  case (1 app n)
  show ?case
  proof (cases "apply_one app n")
    case None
    then show ?thesis
      by (auto simp: drainApplicable_None apply_range_def apply_one_def Let_def Get_def
          split: if_splits option.splits)
  next
    case (Some p)
    obtain n1 out where p: "p = (n1, out)" by (cases p)
    note step = Some [unfolded p]
    let ?k = "Suc (appliedIndex n)" and ?n' = "fst (drainApplicable app n1)"
    obtain e where e: "?k \<in> set (committed n)" "Get (nlog n) ?k = Some e"
      and n1: "n1 = n\<lparr>sm := fst (apply_entry app ?k e (sm n)), appliedIndex := ?k,
                  results := removeAll ?k (results n)\<rparr>"
      and out: "out = (if ?k \<in> set (results n) then [(?k, snd (apply_entry app ?k e (sm n)))] else [])"
      using step by (rule apply_one_SomeE)
    note IH = "1.IH" [OF step refl, unfolded Let_def]
    have le: "?k \<le> appliedIndex ?n'" using IH by (simp add: n1)
    then have up: "[?k..<Suc (appliedIndex ?n')] = ?k # [Suc ?k..<Suc (appliedIndex ?n')]"
      by (simp add: upt_conv_Cons del: upt_Suc)
    have "{appliedIndex n<..appliedIndex ?n'} = insert ?k {?k<..appliedIndex ?n'}"
      using le by auto
    moreover have "filter (\<lambda>s. s \<in> set (results n1)) [Suc ?k..<Suc (appliedIndex ?n')]
        = filter (\<lambda>s. s \<in> set (results n)) [Suc ?k..<Suc (appliedIndex ?n')]"
      by (rule filter_cong) (auto simp: n1 simp del: upt_Suc)
    moreover have "sm ?n' = apply_range app (nlog n) (appliedIndex n) (appliedIndex ?n') (sm n)"
      using IH e unfolding apply_range_def up by (simp add: n1 del: upt_Suc)
    moreover have "map fst (out @ snd (drainApplicable app n1))
        = filter (\<lambda>s. s \<in> set (results n)) [?k..<Suc (appliedIndex ?n')]"
      using IH calculation(2) unfolding up by (simp add: n1 out del: upt_Suc)
    moreover have "?k \<in> dom (entries (nlog n))" using e by (auto simp: Get_def)
    moreover have "{?k<..appliedIndex ?n'} \<subseteq> set (committed n) \<inter> dom (entries (nlog n))"
      "Suc (appliedIndex ?n') \<notin> set (committed n) \<inter> dom (entries (nlog n))"
      "nlog ?n' = nlog n" "committed ?n' = committed n"
      using IH by (simp_all add: n1)
    ultimately show ?thesis
      using e(1) le unfolding drainApplicable_Some [OF step] Let_def fst_conv snd_conv
      by (intro conjI) simp_all
  qed
qed

end
