(* ===== verification/PaxosCore.thy ===== *)
theory PaxosCore
  imports PaxosNode
begin

text \<open>
  The abstract protocol behind \<^verbatim>\<open>src/internal/paxos\<close>: promises, stored entries and votes of all
  replicas, the values leaders have planned for their slots, and the slots each replica knows to
  be decided.  \<open>core_step\<close> is what a replica may do to this state; \<open>core_inv\<close> holds in every
  state so reached, and with it no two values are ever chosen for one slot.  The executable model
  of the whole group is shown to refine it in \<^verbatim>\<open>PaxosSystem\<close>.
\<close>

record core =
  pr :: "NodeID \<Rightarrow> ballot"
  lg :: "NodeID \<Rightarrow> slot \<rightharpoonup> entry"
  vs :: "(NodeID \<times> ballot \<times> slot \<times> bytes) set"
  plan :: "(ballot \<times> slot \<times> bytes) set"
  known :: "(NodeID \<times> slot) set"

definition chosen :: "NodeID list \<Rightarrow> core \<Rightarrow> slot \<Rightarrow> ballot \<Rightarrow> bytes \<Rightarrow> bool" where
  "chosen ps c s b v \<longleftrightarrow> (\<exists>Q. is_majority ps Q \<and> (\<forall>a \<in> Q. (a, b, s, v) \<in> vs c))"

definition safe_at :: "NodeID list \<Rightarrow> core \<Rightarrow> ballot \<Rightarrow> slot \<Rightarrow> bytes \<Rightarrow> bool" where
  "safe_at ps c b s v \<longleftrightarrow>
     (\<forall>b' < b. \<exists>Q. is_majority ps Q \<and>
        (\<forall>a \<in> Q. b' < pr c a \<and> (\<forall>w. (a, b', s, w) \<in> vs c \<longrightarrow> w = v)))"

text \<open>An entry that carries the chosen value of its slot, chosen at or below its ballot.\<close>

definition settled_entry :: "NodeID list \<Rightarrow> core \<Rightarrow> slot \<Rightarrow> entry \<Rightarrow> bool" where
  "settled_entry ps c s e \<longleftrightarrow> (\<exists>b \<le> EBallot e. chosen ps c s b (Command e))"

inductive core_step :: "NodeID list \<Rightarrow> core \<Rightarrow> core \<Rightarrow> bool" for ps where
  Raise: "pr c a \<le> b \<Longrightarrow> core_step ps c (c\<lparr>pr := (pr c)(a := b)\<rparr>)"
| Plan: "(\<And>w. (b, s, w) \<in> plan c \<Longrightarrow> w = v) \<Longrightarrow> safe_at ps c b s v \<Longrightarrow>
    core_step ps c (c\<lparr>plan := insert (b, s, v) (plan c)\<rparr>)"
| Vote: "(b, s, v) \<in> plan c \<Longrightarrow> pr c a \<le> b \<Longrightarrow> (\<And>e. lg c a s = Some e \<Longrightarrow> EBallot e \<le> b) \<Longrightarrow>
    core_step ps c
      (c\<lparr>pr := (pr c)(a := b),
         lg := (lg c)(a := (lg c a)(s \<mapsto> \<lparr>Slot = s, EBallot = b, Command = v\<rparr>)),
         vs := insert (a, b, s, v) (vs c)\<rparr>)"
| Learn: "settled_entry ps c (Slot e) e \<Longrightarrow> (EBallot e, Slot e, Command e) \<in> plan c \<Longrightarrow>
    core_step ps c (c\<lparr>lg := (lg c)(a := (lg c a)(Slot e \<mapsto> e))\<rparr>)"
| Know: "lg c a s = Some e \<Longrightarrow> settled_entry ps c s e \<Longrightarrow>
    core_step ps c (c\<lparr>known := insert (a, s) (known c)\<rparr>)"

abbreviation core_steps :: "NodeID list \<Rightarrow> core \<Rightarrow> core \<Rightarrow> bool" where
  "core_steps ps \<equiv> (core_step ps)\<^sup>*\<^sup>*"

text \<open>
  The votes of a replica are backed by its log: for each there is an entry of that slot with at
  least its ballot, or one that carries the chosen value.
\<close>

definition votes_logged :: "NodeID list \<Rightarrow> core \<Rightarrow> bool" where
  "votes_logged ps c \<longleftrightarrow>
     (\<forall>a b s v. (a, b, s, v) \<in> vs c \<longrightarrow>
        (\<exists>e. lg c a s = Some e \<and> (b \<le> EBallot e \<or> settled_entry ps c s e)))"

definition core_inv :: "NodeID list \<Rightarrow> core \<Rightarrow> bool" where
  "core_inv ps c \<longleftrightarrow>
     (\<forall>a b s v. (a, b, s, v) \<in> vs c \<longrightarrow> (b, s, v) \<in> plan c \<and> b \<le> pr c a) \<and>
     (\<forall>b s v w. (b, s, v) \<in> plan c \<longrightarrow> (b, s, w) \<in> plan c \<longrightarrow> v = w) \<and>
     (\<forall>b s v. (b, s, v) \<in> plan c \<longrightarrow> safe_at ps c b s v) \<and>
     votes_logged ps c \<and>
     (\<forall>a s e. lg c a s = Some e \<longrightarrow> Slot e = s \<and> (EBallot e, s, Command e) \<in> plan c) \<and>
     (\<forall>a s. (a, s) \<in> known c \<longrightarrow> (\<exists>e. lg c a s = Some e \<and> settled_entry ps c s e))"

lemma core_invD:
  assumes "core_inv ps c"
  shows "(a, b, s, v) \<in> vs c \<Longrightarrow> (b, s, v) \<in> plan c"
    and "(a, b, s, v) \<in> vs c \<Longrightarrow> b \<le> pr c a"
    and "(b, s, v) \<in> plan c \<Longrightarrow> (b, s, w) \<in> plan c \<Longrightarrow> v = w"
    and "(b, s, v) \<in> plan c \<Longrightarrow> safe_at ps c b s v"
    and "(a, b, s, v) \<in> vs c \<Longrightarrow> \<exists>e. lg c a s = Some e \<and> (b \<le> EBallot e \<or> settled_entry ps c s e)"
    and "lg c a s = Some e \<Longrightarrow> Slot e = s \<and> (EBallot e, s, Command e) \<in> plan c"
    and "(a, s) \<in> known c \<Longrightarrow> \<exists>e. lg c a s = Some e \<and> settled_entry ps c s e"
  using assms unfolding core_inv_def votes_logged_def by meson+

section \<open>Agreement from the invariant\<close>

lemma chosen_voter: "chosen ps c s b v \<Longrightarrow> \<exists>a. (a, b, s, v) \<in> vs c"
  unfolding chosen_def using maj.quorum_nonempty by blast

lemma chosen_planned: "core_inv ps c \<Longrightarrow> chosen ps c s b v \<Longrightarrow> (b, s, v) \<in> plan c"
  using chosen_voter core_invD(1) by metis

text \<open>A value safe at a ballot is the one chosen at any lower ballot.\<close>

lemma safe_at_chosen:
  assumes "safe_at ps c b s v" and "chosen ps c s b' w" and "b' < b"
  shows "v = w"
proof -
  obtain Q where Q: "is_majority ps Q" "\<forall>a \<in> Q. \<forall>u. (a, b', s, u) \<in> vs c \<longrightarrow> u = v"
    using assms(1,3) unfolding safe_at_def by blast
  obtain R where R: "is_majority ps R" "\<forall>a \<in> R. (a, b', s, w) \<in> vs c"
    using assms(2) unfolding chosen_def by blast
  show ?thesis using maj.quorums_meet [OF Q(1) R(1)] Q(2) R(2) by blast
qed

lemma planned_chosen:
  assumes "core_inv ps c" and "(b, s, v) \<in> plan c" and "chosen ps c s b' w" and "b' \<le> b"
  shows "v = w"
proof (cases "b' = b")
  case True
  then show ?thesis using core_invD(3) [OF assms(1,2)] chosen_planned assms(1,3) by blast
next
  case False
  then show ?thesis
    using safe_at_chosen core_invD(4) [OF assms(1,2)] assms(3,4) by (metis order.not_eq_order_implies_strict)
qed

lemma chosen_agree:
  assumes "core_inv ps c" and "chosen ps c s b v" and "chosen ps c s b' w"
  shows "v = w"
  using planned_chosen [OF assms(1)] chosen_planned [OF assms(1)] assms(2,3) by (metis linear)

lemma settled_agree:
  "core_inv ps c \<Longrightarrow> settled_entry ps c s e \<Longrightarrow> settled_entry ps c s d \<Longrightarrow> Command e = Command d"
  unfolding settled_entry_def using chosen_agree by blast

lemma safe_at_antimono: "safe_at ps c b s v \<Longrightarrow> b' \<le> b \<Longrightarrow> safe_at ps c b' s v"
  unfolding safe_at_def by (meson less_le_trans)

section \<open>Steps preserve the invariant\<close>

lemma step_plan_mono: "core_step ps c c' \<Longrightarrow> plan c \<subseteq> plan c'"
  by (induction rule: core_step.induct) auto

lemma step_vs_mono: "core_step ps c c' \<Longrightarrow> vs c \<subseteq> vs c'"
  by (induction rule: core_step.induct) auto

lemma step_pr_mono: "core_step ps c c' \<Longrightarrow> pr c a \<le> pr c' a"
  by (induction rule: core_step.induct) auto

lemma step_known_mono: "core_step ps c c' \<Longrightarrow> known c \<subseteq> known c'"
  by (induction rule: core_step.induct) auto

text \<open>A new vote is never below the promise its caster had.\<close>

lemma step_new_vote:
  "core_step ps c c' \<Longrightarrow> (a, b, s, v) \<in> vs c' \<Longrightarrow> (a, b, s, v) \<in> vs c \<or> pr c a \<le> b"
  by (induction rule: core_step.induct) auto

lemma step_chosen: "core_step ps c c' \<Longrightarrow> chosen ps c s b v \<Longrightarrow> chosen ps c' s b v"
  unfolding chosen_def using step_vs_mono by blast

lemma step_settled: "core_step ps c c' \<Longrightarrow> settled_entry ps c s e \<Longrightarrow> settled_entry ps c' s e"
  unfolding settled_entry_def using step_chosen by blast

lemma step_safe_at:
  assumes "core_step ps c c'" and "safe_at ps c b s v"
  shows "safe_at ps c' b s v"
  unfolding safe_at_def
proof (intro allI impI)
  fix b' assume "b' < b"
  then obtain Q where Q: "is_majority ps Q"
    "\<forall>a \<in> Q. b' < pr c a \<and> (\<forall>w. (a, b', s, w) \<in> vs c \<longrightarrow> w = v)"
    using assms(2) unfolding safe_at_def by blast
  have "b' < pr c' a \<and> (\<forall>w. (a, b', s, w) \<in> vs c' \<longrightarrow> w = v)" if "a \<in> Q" for a
    using Q(2) that step_pr_mono [OF assms(1), of a] step_new_vote [OF assms(1), of a b' s]
    by (meson leD less_le_trans)
  with Q(1) show "\<exists>Q. is_majority ps Q \<and>
      (\<forall>a \<in> Q. b' < pr c' a \<and> (\<forall>w. (a, b', s, w) \<in> vs c' \<longrightarrow> w = v))"
    by blast
qed

text \<open>Storing a planned value over an entry of no higher ballot keeps a settled slot settled.\<close>

lemma overwrite_settled:
  assumes "core_inv ps c" and "settled_entry ps c s d" and "EBallot d \<le> b" and "(b, s, v) \<in> plan c"
  shows "settled_entry ps c s \<lparr>Slot = s, EBallot = b, Command = v\<rparr>"
proof -
  obtain b' where b': "b' \<le> EBallot d" "chosen ps c s b' (Command d)"
    using assms(2) unfolding settled_entry_def by blast
  then have "v = Command d" using planned_chosen [OF assms(1,4) b'(2)] assms(3) by simp
  then show ?thesis
    using b' assms(3) unfolding settled_entry_def by (metis entry.select_convs(2,3) order.trans)
qed

lemma step_votes_planned:
  assumes "core_step ps c c'" and "core_inv ps c" and "(a, b, s, v) \<in> vs c'"
  shows "(b, s, v) \<in> plan c' \<and> b \<le> pr c' a"
  using assms(1)
proof cases
  case (Raise a1 b1)
  then show ?thesis
    using assms(3) core_invD(1,2) [OF assms(2), of a b s v] by (auto intro: order.trans)
next
  case (Vote b1 s1 v1 a1)
  then show ?thesis
    using assms(3) core_invD(1,2) [OF assms(2), of a b s v] by (auto intro: order.trans)
qed (use assms(3) core_invD(1,2) [OF assms(2), of a b s v] in auto)

lemma step_plan_functional:
  assumes "core_step ps c c'" and "core_inv ps c" and "(b, s, v) \<in> plan c'" and "(b, s, w) \<in> plan c'"
  shows "v = w"
  using assms(1) by cases (use assms(3,4) core_invD(3) [OF assms(2)] in auto)

lemma step_plan_safe:
  assumes "core_step ps c c'" and "core_inv ps c" and "(b, s, v) \<in> plan c'"
  shows "safe_at ps c' b s v"
proof (rule step_safe_at [OF assms(1)])
  show "safe_at ps c b s v"
    using assms(1) by cases (use assms(3) core_invD(4) [OF assms(2)] in auto)
qed

lemma step_votes_logged:
  assumes "core_step ps c c'" and "core_inv ps c" and v: "(a, b, s, v) \<in> vs c'"
  shows "\<exists>e. lg c' a s = Some e \<and> (b \<le> EBallot e \<or> settled_entry ps c' s e)"
proof -
  note D = core_invD(5) [OF assms(2), of a b s v] and stable = step_settled [OF assms(1)]
  show ?thesis
    using assms(1)
  proof cases
    case (Vote b1 s1 v1 a1)
    then show ?thesis using v D core_invD(2) [OF assms(2), of a b s v] stable by fastforce
  next
    case (Learn e a1)
    then have "settled_entry ps c' (Slot e) e" using stable by blast
    then show ?thesis using v D stable Learn by fastforce
  qed (use v D stable in fastforce)+
qed

lemma step_log_planned:
  assumes "core_step ps c c'" and "core_inv ps c" and "lg c' a s = Some e"
  shows "Slot e = s \<and> (EBallot e, s, Command e) \<in> plan c'"
  using assms(1) by cases (use assms(3) core_invD(6) [OF assms(2)] in \<open>auto split: if_splits\<close>)

lemma step_known_settled:
  assumes "core_step ps c c'" and inv: "core_inv ps c" and k: "(a, s) \<in> known c'"
  shows "\<exists>e. lg c' a s = Some e \<and> settled_entry ps c' s e"
proof -
  note D = core_invD(7) [OF inv, of a s] and stable = step_settled [OF assms(1)]
  show ?thesis
    using assms(1)
  proof cases
    case (Vote b1 s1 v1 a1)
    then obtain d where d: "lg c a s = Some d" "settled_entry ps c s d" using k D by auto
    show ?thesis
    proof (cases "a = a1 \<and> s = s1")
      case True
      then have "settled_entry ps c s \<lparr>Slot = s, EBallot = b1, Command = v1\<rparr>"
        using overwrite_settled [OF inv d(2)] Vote d(1) by blast
      then show ?thesis using True Vote stable by auto
    next
      case False
      then show ?thesis using d Vote stable by auto
    qed
  next
    case (Learn e a1)
    then have "settled_entry ps c' (Slot e) e" using stable by blast
    then show ?thesis using k D stable Learn by fastforce
  next
    case (Know a1 s1 e)
    then show ?thesis using k D stable by auto
  qed (use k D stable in fastforce)+
qed

lemma core_step_inv: "core_step ps c c' \<Longrightarrow> core_inv ps c \<Longrightarrow> core_inv ps c'"
  unfolding core_inv_def [of ps c'] votes_logged_def [of ps c']
  by (intro conjI allI impI)
    (meson step_votes_planned step_plan_functional step_plan_safe step_votes_logged
      step_log_planned step_known_settled)+

text \<open>The same facts for any number of steps.\<close>

lemma core_steps_inv: "core_steps ps c c' \<Longrightarrow> core_inv ps c \<Longrightarrow> core_inv ps c'"
  by (induction rule: rtranclp_induct) (auto intro: core_step_inv)

lemma steps_mono:
  assumes "core_steps ps c c'"
  shows "plan c \<subseteq> plan c' \<and> vs c \<subseteq> vs c' \<and> pr c a \<le> pr c' a \<and> known c \<subseteq> known c'"
  using assms
proof (induction rule: rtranclp_induct)
  case (step c1 c2)
  then show ?case
    using step_plan_mono [OF step.hyps(2)] step_vs_mono [OF step.hyps(2)]
      step_known_mono [OF step.hyps(2)] step_pr_mono [OF step.hyps(2), of a]
    by (meson order.trans)
qed simp

lemma steps_settled: "core_steps ps c c' \<Longrightarrow> settled_entry ps c s e \<Longrightarrow> settled_entry ps c' s e"
  by (induction rule: rtranclp_induct) (auto intro: step_settled)

lemma steps_chosen: "core_steps ps c c' \<Longrightarrow> chosen ps c s b v \<Longrightarrow> chosen ps c' s b v"
  by (induction rule: rtranclp_induct) (auto intro: step_chosen)

lemma steps_safe_at: "core_steps ps c c' \<Longrightarrow> safe_at ps c b s v \<Longrightarrow> safe_at ps c' b s v"
  by (induction rule: rtranclp_induct) (auto intro: step_safe_at)

lemma steps_new_vote:
  assumes "core_steps ps c c'" and "(a, b, s, v) \<in> vs c'"
  shows "(a, b, s, v) \<in> vs c \<or> pr c a \<le> b"
  using assms
proof (induction rule: rtranclp_induct)
  case (step c1 c2)
  then show ?case
    using step_new_vote [OF step.hyps(2)] steps_mono [OF step.hyps(1), of a] by (meson order.trans)
qed simp

section \<open>What a majority of promises makes safe\<close>

text \<open>
  The report of a replica that promised \<open>b\<close>: entries of its log that back every vote it has cast
  below \<open>b\<close> from the slot \<open>first\<close> on.
\<close>

definition backs :: "NodeID list \<Rightarrow> core \<Rightarrow> ballot \<Rightarrow> slot \<Rightarrow> NodeID \<Rightarrow> entry set \<Rightarrow> bool" where
  "backs ps c b first a es \<longleftrightarrow>
     b \<le> pr c a \<and> (\<forall>e \<in> es. (EBallot e, Slot e, Command e) \<in> plan c) \<and>
     (\<forall>s \<ge> first. \<forall>b' < b. \<forall>w. (a, b', s, w) \<in> vs c \<longrightarrow>
        (\<exists>e \<in> es. Slot e = s \<and> (b' \<le> EBallot e \<or> settled_entry ps c s e)))"

lemma backs_pr: "backs ps c b first a es \<Longrightarrow> b' < b \<Longrightarrow> b' < pr c a"
  unfolding backs_def by (blast intro: less_le_trans)

lemma backs_vote:
  assumes "backs ps c b first a es" and "first \<le> s" and "b' < b" and "(a, b', s, w) \<in> vs c"
  shows "\<exists>e \<in> es. Slot e = s \<and> (b' \<le> EBallot e \<or> settled_entry ps c s e)"
  using assms unfolding backs_def by blast

lemma steps_backs:
  assumes "core_steps ps c c'" and "backs ps c b first a es"
  shows "backs ps c' b first a es"
proof -
  have "(a, b', s, w) \<in> vs c" if "(a, b', s, w) \<in> vs c'" "b' < b" for b' s w
    using steps_new_vote [OF assms(1) that(1)] backs_pr [OF assms(2) that(2)] by (meson leD)
  moreover have "b \<le> pr c a" using assms(2) unfolding backs_def by blast
  then have "b \<le> pr c' a" using steps_mono [OF assms(1), of a] by (meson order.trans)
  ultimately show ?thesis
    using assms(2) steps_mono [OF assms(1)] steps_settled [OF assms(1)] unfolding backs_def by blast
qed

lemma log_backs:
  assumes "core_inv ps c" and "b \<le> pr c a" and "es = {e. \<exists>s \<ge> first. lg c a s = Some e}"
  shows "backs ps c b first a es"
  unfolding backs_def
proof (intro conjI ballI allI impI)
  show "b \<le> pr c a" by fact
next
  fix e assume "e \<in> es"
  then show "(EBallot e, Slot e, Command e) \<in> plan c" using core_invD(6) [OF assms(1)] assms(3) by auto
next
  fix s b' w assume "first \<le> s" "(a, b', s, w) \<in> vs c"
  then show "\<exists>e \<in> es. Slot e = s \<and> (b' \<le> EBallot e \<or> settled_entry ps c s e)"
    using core_invD(5) [OF assms(1), of a b' s w] core_invD(6) [OF assms(1), of a s] assms(3) by blast
qed

text \<open>A slot that no report mentions is free: any value is safe there.\<close>

lemma unreported_safe:
  assumes "is_majority ps Q" and "\<forall>a \<in> Q. \<exists>es \<subseteq> E. backs ps c b first a es"
    and "first \<le> s" and "\<forall>e \<in> E. Slot e \<noteq> s"
  shows "safe_at ps c b s v"
  unfolding safe_at_def
proof (intro allI impI exI conjI ballI)
  fix b' a assume "b' < b" "a \<in> Q"
  then obtain es where es: "es \<subseteq> E" "backs ps c b first a es" using assms(2) by blast
  show "b' < pr c a" by (rule backs_pr [OF es(2) \<open>b' < b\<close>])
  fix w assume "(a, b', s, w) \<in> vs c"
  then show "w = v"
    using es(1) assms(4) backs_vote [OF es(2) assms(3) \<open>b' < b\<close>] by blast
qed (simp add: assms(1))

text \<open>The reported entry with the highest ballot is safe to propose again.\<close>

lemma reported_safe:
  assumes inv: "core_inv ps c" and Q: "is_majority ps Q" "\<forall>a \<in> Q. \<exists>es \<subseteq> E. backs ps c b first a es"
    and "first \<le> s" and d: "(EBallot d, s, Command d) \<in> plan c"
    and top: "\<forall>e \<in> E. Slot e = s \<longrightarrow> EBallot e \<le> EBallot d"
  shows "safe_at ps c b s (Command d)"
proof (cases "b \<le> EBallot d")
  case True
  then show ?thesis using core_invD(4) [OF inv d] safe_at_antimono by blast
next
  case False
  have voted: "w = Command d" if "b' < b" "EBallot d \<le> b'" "a \<in> Q" "(a, b', s, w) \<in> vs c" for b' a w
  proof -
    obtain es where es: "es \<subseteq> E" "backs ps c b first a es" using Q(2) \<open>a \<in> Q\<close> by blast
    obtain e where e: "e \<in> es" "Slot e = s" "b' \<le> EBallot e \<or> settled_entry ps c s e"
      using backs_vote [OF es(2) \<open>first \<le> s\<close> \<open>b' < b\<close> \<open>(a, b', s, w) \<in> vs c\<close>] by blast
    have ed: "EBallot e \<le> EBallot d" using top e es(1) by blast
    have w: "(b', s, w) \<in> plan c" using core_invD(1) [OF inv that(4)] .
    show ?thesis
    proof (cases "b' \<le> EBallot e")
      case True
      then have "b' = EBallot d" using ed that(2) by simp
      then show ?thesis using core_invD(3) [OF inv w, of "Command d"] d by simp
    next
      case False
      then obtain b1 where b1: "b1 \<le> EBallot e" "chosen ps c s b1 (Command e)"
        using e(3) unfolding settled_entry_def by blast
      have "b1 \<le> EBallot d" using b1(1) ed by (rule order.trans)
      moreover from this have "b1 \<le> b'" using that(2) by (rule order.trans)
      ultimately show ?thesis
        using planned_chosen [OF inv w b1(2)] planned_chosen [OF inv d b1(2)] by simp
    qed
  qed
  show ?thesis
    unfolding safe_at_def
  proof (intro allI impI)
    fix b' assume "b' < b"
    show "\<exists>Q. is_majority ps Q \<and> (\<forall>a \<in> Q. b' < pr c a \<and> (\<forall>w. (a, b', s, w) \<in> vs c \<longrightarrow> w = Command d))"
    proof (cases "EBallot d \<le> b'")
      case True
      have "b' < pr c a" if "a \<in> Q" for a
        using Q(2) that backs_pr [OF _ \<open>b' < b\<close>] by blast
      then show ?thesis using Q(1) voted [OF \<open>b' < b\<close> True] by blast
    next
      case False
      then show ?thesis using core_invD(4) [OF inv d] unfolding safe_at_def by (meson not_le)
    qed
  qed
qed

end
