(* ===== verification/PaxosSystem.thy ===== *)
theory PaxosSystem
  imports PaxosCore
begin

text \<open>
  A whole Paxos group, as an executable transition function over the replicas of
  \<^verbatim>\<open>PaxosNode\<close>.  A broadcast of \<^verbatim>\<open>src/internal/paxos/node.go\<close> opens a call: its request is on the
  wire to every other member, each delivery runs \<^verbatim>\<open>Handle\<close> and leaves an answer, and at some point
  the round ends with the answers that made it in time, in the order they came.  Requests may
  be delivered in any order, late (after the round ended) or never, so this covers delay, loss,
  partitions and crashes.  A proposal or a recovery pass that has still to call \<^verbatim>\<open>replicate\<close> is a
  job.  A restart builds a new replica on the log kept from before.

  The fields after \<open>fresh\<close> record history: the votes cast, the values leaders planned for slots,
  the ballots that won an election, the slots replicas ever marked committed, the commands
  applied and the commands submitted.  No step reads them.
\<close>

datatype jobkind = Recovery | Proposal

record job =
  worker :: NodeID
  jkind :: jobkind
  jballot :: ballot                \<comment> \<open>history: the ballot the worker led under when it took the job\<close>
  todo :: "(slot \<times> bytes) list"

datatype round =
    RPing | RPrepare | RAccept jobkind "(slot \<times> bytes) list" | RCommit | RCatchUp NodeID slot slot

record call =
  caller :: NodeID
  round :: round
  request :: message

record 's psys =
  rnode :: "NodeID \<Rightarrow> 's node"
  wire :: "nat \<times> NodeID \<rightharpoonup> message"
  calls :: "nat \<rightharpoonup> call"
  answers :: "nat \<times> NodeID \<rightharpoonup> message"
  jobs :: "nat \<rightharpoonup> job"
  fresh :: nat
  votes :: "(NodeID \<times> ballot \<times> slot \<times> bytes) set"
  planned :: "(ballot \<times> slot \<times> bytes) set"
  elected :: "ballot set"
  knows :: "(NodeID \<times> slot) set"
  applied :: "(NodeID \<times> slot \<times> bytes) set"
  submitted :: "bytes set"

section \<open>The updates steps are made of\<close>

definition upd_node ::
  "NodeID \<Rightarrow> 's node \<Rightarrow> (NodeID \<times> ballot \<times> slot \<times> bytes) set \<Rightarrow> (ballot \<times> slot \<times> bytes) set
   \<Rightarrow> (NodeID \<times> slot) set \<Rightarrow> 's psys \<Rightarrow> 's psys" where
  "upd_node p n vts pls kns \<sigma> =
     \<sigma>\<lparr>rnode := (rnode \<sigma>)(p := n), votes := votes \<sigma> \<union> vts, planned := planned \<sigma> \<union> pls,
       knows := knows \<sigma> \<union> kns\<rparr>"

text \<open>\<^verbatim>\<open>broadcast\<close> and, with one addressee, the \<^verbatim>\<open>Send\<close> of \<^verbatim>\<open>catchUp\<close>.\<close>

definition open_call :: "NodeID \<Rightarrow> round \<Rightarrow> message \<Rightarrow> NodeID set \<Rightarrow> 's psys \<Rightarrow> 's psys" where
  "open_call p r m tos \<sigma> =
     \<sigma>\<lparr>calls := (calls \<sigma>)(fresh \<sigma> \<mapsto> \<lparr>caller = p, round = r, request = m\<rparr>),
       wire := (\<lambda>(i, a). if i = fresh \<sigma> then (if a \<in> tos then Some m else None) else wire \<sigma> (i, a)),
       fresh := fresh \<sigma> + 1\<rparr>"

definition others :: "NodeID list \<Rightarrow> NodeID \<Rightarrow> NodeID set" where
  "others ps p = set ps - {p}"

definition drop_call :: "nat \<Rightarrow> 's psys \<Rightarrow> 's psys" where
  "drop_call i \<sigma> = \<sigma>\<lparr>calls := (calls \<sigma>)(i := None)\<rparr>"

definition put_answer :: "nat \<Rightarrow> NodeID \<Rightarrow> message \<Rightarrow> 's psys \<Rightarrow> 's psys" where
  "put_answer i a r \<sigma> =
     \<sigma>\<lparr>wire := (wire \<sigma>)((i, a) := None), answers := (answers \<sigma>)((i, a) \<mapsto> r)\<rparr>"

definition add_job :: "job \<Rightarrow> 's psys \<Rightarrow> 's psys" where
  "add_job J \<sigma> = \<sigma>\<lparr>jobs := (jobs \<sigma>)(fresh \<sigma> \<mapsto> J), fresh := fresh \<sigma> + 1\<rparr>"

definition drop_job :: "nat \<Rightarrow> 's psys \<Rightarrow> 's psys" where
  "drop_job j \<sigma> = \<sigma>\<lparr>jobs := (jobs \<sigma>)(j := None)\<rparr>"

definition elect :: "ballot \<Rightarrow> 's psys \<Rightarrow> 's psys" where
  "elect b \<sigma> = \<sigma>\<lparr>elected := insert b (elected \<sigma>)\<rparr>"

definition submit :: "bytes \<Rightarrow> 's psys \<Rightarrow> 's psys" where
  "submit cmd \<sigma> = \<sigma>\<lparr>submitted := insert cmd (submitted \<sigma>)\<rparr>"

definition note_applied :: "NodeID \<Rightarrow> slot \<Rightarrow> bytes \<Rightarrow> 's psys \<Rightarrow> 's psys" where
  "note_applied p s cmd \<sigma> = \<sigma>\<lparr>applied := insert (p, s, cmd) (applied \<sigma>)\<rparr>"

lemmas sys_updates = upd_node_def open_call_def drop_call_def put_answer_def add_job_def
  drop_job_def elect_def submit_def note_applied_def

text \<open>The slots a replica has marked committed.\<close>

definition marked :: "NodeID \<Rightarrow> 's node \<Rightarrow> (NodeID \<times> slot) set" where
  "marked p n = Pair p ` set (committed n)"

section \<open>Steps\<close>

datatype event =
    EProbe NodeID
  | EDeliver nat NodeID
  | EFinish nat "NodeID list"
  | EPropose NodeID bytes
  | EReplicate nat
  | EHeartbeat NodeID
  | EApply NodeID
  | ERestart NodeID

definition exec_probe :: "NodeID list \<Rightarrow> NodeID \<Rightarrow> 's psys \<Rightarrow> 's psys option" where
  "exec_probe ps p \<sigma> =
     (if p \<notin> set ps then None
      else case campaign_begin (rnode \<sigma> p) of
             None \<Rightarrow> None
           | Some n \<Rightarrow> Some (open_call p RPing (ping_request n) (others ps p) (upd_node p n {} {} {} \<sigma>)))"

definition exec_deliver :: "env \<Rightarrow> nat \<Rightarrow> NodeID \<Rightarrow> 's psys \<Rightarrow> 's psys option" where
  "exec_deliver v i a \<sigma> =
     (case wire \<sigma> (i, a) of
        None \<Rightarrow> None
      | Some m \<Rightarrow>
          (case Handle v m (rnode \<sigma> a) of
             (n, r, fetch) \<Rightarrow>
               (let vts = (if Kind m = KindAccept \<and> OK r
                           then {(a, MBallot m, MSlot m, MCommand m)} else {});
                    \<sigma>1 = put_answer i a r (upd_node a n vts {} {} \<sigma>)
                in Some (case fetch of
                           None \<Rightarrow> \<sigma>1
                         | Some (from, first, ci) \<Rightarrow>
                             open_call a (RCatchUp from first ci) (catchUp_request first n) {from} \<sigma>1))))"

definition finish_prepare :: "env \<Rightarrow> call \<Rightarrow> message list \<Rightarrow> 's psys \<Rightarrow> 's psys" where
  "finish_prepare v C replies \<sigma> =
     (let p = caller C; b = MBallot (request C)
      in case campaign_finish v (request C) replies (rnode \<sigma> p) of
           (n, None) \<Rightarrow> upd_node p n {} {} {} \<sigma>
         | (n, Some work) \<Rightarrow>
             add_job \<lparr>worker = p, jkind = Recovery, jballot = b, todo = work\<rparr>
               (upd_node p n {} ((\<lambda>(s, cmd). (b, s, cmd)) ` set work) {} (elect b \<sigma>)))"

definition finish_accept ::
  "env \<Rightarrow> jobkind \<Rightarrow> (slot \<times> bytes) list \<Rightarrow> call \<Rightarrow> message list \<Rightarrow> 's psys \<Rightarrow> 's psys" where
  "finish_accept v k rest C replies \<sigma> =
     (let p = caller C; s = MSlot (request C)
      in case replicate_finish v (request C) replies (rnode \<sigma> p) of
           (n, None) \<Rightarrow>
             (let \<sigma>1 = upd_node p n {} {} (marked p n) \<sigma>
              in if rest = [] then \<sigma>1
                 else add_job \<lparr>worker = p, jkind = k, jballot = MBallot (request C), todo = rest\<rparr> \<sigma>1)
         | (n, Some _) \<Rightarrow>
             upd_node p (if k = Proposal then propose_fail v s n else n) {} {} {} \<sigma>)"

definition finish_ping :: "NodeID list \<Rightarrow> env \<Rightarrow> call \<Rightarrow> message list \<Rightarrow> 's psys \<Rightarrow> 's psys" where
  "finish_ping ps v C replies \<sigma> =
     (let p = caller C
      in case campaign_prepare v replies (rnode \<sigma> p) of
           (n, None) \<Rightarrow> upd_node p n {} {} {} \<sigma>
         | (n, Some m) \<Rightarrow> open_call p RPrepare m (others ps p) (upd_node p n {} {} {} \<sigma>))"

definition finish_catchUp ::
  "env \<Rightarrow> slot \<Rightarrow> slot \<Rightarrow> call \<Rightarrow> message list \<Rightarrow> 's psys \<Rightarrow> 's psys" where
  "finish_catchUp v first ci C replies \<sigma> =
     (let p = caller C;
          n = catchUp_finish v (case replies of [] \<Rightarrow> None | r # _ \<Rightarrow> Some r) first ci (rnode \<sigma> p)
      in upd_node p n {} {} (marked p n) \<sigma>)"

definition exec_finish :: "NodeID list \<Rightarrow> env \<Rightarrow> nat \<Rightarrow> NodeID list \<Rightarrow> 's psys \<Rightarrow> 's psys option" where
  "exec_finish ps v i rs \<sigma> =
     (case calls \<sigma> i of
        None \<Rightarrow> None
      | Some C \<Rightarrow>
          if \<not> distinct rs \<or> list_ex (\<lambda>a. answers \<sigma> (i, a) = None) rs then None
          else
            (let replies = map (\<lambda>a. the (answers \<sigma> (i, a))) rs; \<sigma>1 = drop_call i \<sigma>
             in Some (case round C of
                        RPing \<Rightarrow> finish_ping ps v C replies \<sigma>1
                      | RPrepare \<Rightarrow> finish_prepare v C replies \<sigma>1
                      | RAccept k rest \<Rightarrow> finish_accept v k rest C replies \<sigma>1
                      | RCommit \<Rightarrow>
                          upd_node (caller C)
                            (broadcastCommit_finish v (request C) replies (rnode \<sigma>1 (caller C))) {} {} {} \<sigma>1
                      | RCatchUp from first ci \<Rightarrow> finish_catchUp v first ci C replies \<sigma>1)))"

definition exec_propose :: "NodeID list \<Rightarrow> NodeID \<Rightarrow> bytes \<Rightarrow> 's psys \<Rightarrow> 's psys option" where
  "exec_propose ps p cmd \<sigma> =
     (if p \<notin> set ps then None
      else case propose_begin (rnode \<sigma> p) of
             (n, Inl _) \<Rightarrow> None
           | (n, Inr s) \<Rightarrow>
               (let b = nballot n
                in Some (add_job \<lparr>worker = p, jkind = Proposal, jballot = b, todo = [(s, cmd)]\<rparr>
                          (upd_node p n {} {(b, s, cmd)} {} (submit cmd \<sigma>)))))"

definition exec_replicate :: "NodeID list \<Rightarrow> env \<Rightarrow> nat \<Rightarrow> 's psys \<Rightarrow> 's psys option" where
  "exec_replicate ps v j \<sigma> =
     (case jobs \<sigma> j of
        None \<Rightarrow> None
      | Some J \<Rightarrow>
          (let p = worker J; \<sigma>1 = drop_job j \<sigma>
           in case todo J of
                [] \<Rightarrow> Some \<sigma>1
              | (s, cmd) # rest \<Rightarrow>
                  Some (case replicate_begin v s cmd (rnode \<sigma>1 p) of
                          (n, Inl _) \<Rightarrow>
                            upd_node p (if jkind J = Proposal then propose_fail v s n else n) {} {} {} \<sigma>1
                        | (n, Inr m) \<Rightarrow>
                            open_call p (RAccept (jkind J) rest) m (others ps p)
                              (upd_node p n {(p, MBallot m, s, cmd)} {} {} \<sigma>1))))"

definition exec_heartbeat :: "NodeID list \<Rightarrow> NodeID \<Rightarrow> 's psys \<Rightarrow> 's psys option" where
  "exec_heartbeat ps p \<sigma> =
     (if p \<notin> set ps \<or> role (rnode \<sigma> p) \<noteq> Leader then None
      else Some (open_call p RCommit (commit_request (rnode \<sigma> p)) (others ps p) \<sigma>))"

definition exec_apply ::
  "(slot \<Rightarrow> bytes \<Rightarrow> 's \<Rightarrow> 's \<times> 'r) \<Rightarrow> NodeID list \<Rightarrow> NodeID \<Rightarrow> 's psys \<Rightarrow> 's psys option" where
  "exec_apply app ps p \<sigma> =
     (if p \<notin> set ps then None
      else case apply_one app (rnode \<sigma> p) of
             None \<Rightarrow> None
           | Some (n, out) \<Rightarrow>
               (let s = appliedIndex n
                in Some (note_applied p s (Command (the (Get (nlog n) s))) (upd_node p n {} {} {} \<sigma>))))"

definition exec_restart :: "'s \<Rightarrow> NodeID list \<Rightarrow> env \<Rightarrow> NodeID \<Rightarrow> 's psys \<Rightarrow> 's psys option" where
  "exec_restart sm0 ps v p \<sigma> =
     (if p \<notin> set ps then None
      else
        (let n = rnode \<sigma> p
         in Some ((upd_node p (NewNode v p ps (nlog n) sm0 (cfg n)) {} {} {} \<sigma>)
               \<lparr>calls := (\<lambda>i. case calls \<sigma> i of None \<Rightarrow> None
                              | Some C \<Rightarrow> if caller C = p then None else Some C),
                jobs := (\<lambda>j. case jobs \<sigma> j of None \<Rightarrow> None
                             | Some J \<Rightarrow> if worker J = p then None else Some J)\<rparr>)))"

fun exec ::
  "(slot \<Rightarrow> bytes \<Rightarrow> 's \<Rightarrow> 's \<times> 'r) \<Rightarrow> 's \<Rightarrow> NodeID list \<Rightarrow> env \<Rightarrow> event \<Rightarrow> 's psys \<Rightarrow> 's psys option" where
  "exec app sm0 ps v (EProbe p) \<sigma> = exec_probe ps p \<sigma>"
| "exec app sm0 ps v (EDeliver i a) \<sigma> = exec_deliver v i a \<sigma>"
| "exec app sm0 ps v (EFinish i rs) \<sigma> = exec_finish ps v i rs \<sigma>"
| "exec app sm0 ps v (EPropose p cmd) \<sigma> = exec_propose ps p cmd \<sigma>"
| "exec app sm0 ps v (EReplicate j) \<sigma> = exec_replicate ps v j \<sigma>"
| "exec app sm0 ps v (EHeartbeat p) \<sigma> = exec_heartbeat ps p \<sigma>"
| "exec app sm0 ps v (EApply p) \<sigma> = exec_apply app ps p \<sigma>"
| "exec app sm0 ps v (ERestart p) \<sigma> = exec_restart sm0 ps v p \<sigma>"

definition init_sys :: "'s \<Rightarrow> NodeID list \<Rightarrow> (NodeID \<Rightarrow> env) \<Rightarrow> config \<Rightarrow> 's psys" where
  "init_sys sm0 ps v c =
     \<lparr>rnode = (\<lambda>p. NewNode (v p) p ps NewMemLog sm0 c), wire = Map.empty, calls = Map.empty,
      answers = Map.empty, jobs = Map.empty, fresh = 0, votes = {}, planned = {}, elected = {},
      knows = {}, applied = {}, submitted = {}\<rparr>"

text \<open>Running a list of events, each with what the environment does during it.\<close>

fun run ::
  "(slot \<Rightarrow> bytes \<Rightarrow> 's \<Rightarrow> 's \<times> 'r) \<Rightarrow> 's \<Rightarrow> NodeID list \<Rightarrow> (env \<times> event) list \<Rightarrow> 's psys \<Rightarrow> 's psys option" where
  "run app sm0 ps [] \<sigma> = Some \<sigma>"
| "run app sm0 ps ((v, ev) # evs) \<sigma> =
     (case exec app sm0 ps v ev \<sigma> of None \<Rightarrow> None | Some \<sigma>' \<Rightarrow> run app sm0 ps evs \<sigma>')"

end
