(* ===== verification/PaxosSafety.thy ===== *)
theory PaxosSafety
  imports PaxosSystem
begin

text \<open>
  Safety of a Paxos group.  The executable model of \<^verbatim>\<open>PaxosSystem\<close> refines the abstract protocol of
  \<^verbatim>\<open>PaxosCore\<close> along runs that keep the discipline below; on those runs no two replicas ever apply
  different commands in one slot.  The discipline is what the protocol asks of a leader and what
  \<^verbatim>\<open>src/internal/paxos/node.go\<close> does not enforce; \<^verbatim>\<open>PaxosRuns\<close> shows runs without it that diverge.
\<close>

section \<open>Discipline\<close>

text \<open>No entry of a higher ballot is stored for the slot.\<close>

definition no_higher :: "'s node \<Rightarrow> slot \<Rightarrow> ballot \<Rightarrow> bool" where
  "no_higher n s b \<longleftrightarrow> (case Get (nlog n) s of None \<Rightarrow> True | Some e \<Rightarrow> EBallot e \<le> b)"

text \<open>
  What an accept round, a phase-2 delivery and the end of an election must meet:
  \<^item> a job is run under the ballot it was made for, by a leader that has promised nothing else
    since, and does not overwrite an entry of a higher ballot;
  \<^item> nor does a delivered accept that the replica does not refuse;
  \<^item> a lost election does not lower the candidate's promise.
\<close>

fun disciplined :: "env \<Rightarrow> event \<Rightarrow> 's psys \<Rightarrow> bool" where
  "disciplined v (EReplicate j) \<sigma> =
     (case jobs \<sigma> j of
        None \<Rightarrow> True
      | Some J \<Rightarrow>
          (let n = rnode \<sigma> (worker J)
           in case todo J of
                [] \<Rightarrow> True
              | (s, cmd) # _ \<Rightarrow>
                  role n = Leader \<longrightarrow>
                  nballot n = jballot J \<and> promised (nlog n) = nballot n \<and> no_higher n s (nballot n)))"
| "disciplined v (EDeliver i a) \<sigma> =
     (case wire \<sigma> (i, a) of
        None \<Rightarrow> True
      | Some m \<Rightarrow> Kind m = KindAccept \<longrightarrow> promised (nlog (rnode \<sigma> a)) \<le> MBallot m \<longrightarrow>
                  no_higher (rnode \<sigma> a) (MSlot m) (MBallot m))"
| "disciplined v (EFinish i rs) \<sigma> =
     (case calls \<sigma> i of
        None \<Rightarrow> True
      | Some C \<Rightarrow>
          round C = RPrepare \<longrightarrow>
          (let n = rnode \<sigma> (caller C)
           in promised (nlog n) \<le>
              promised (nlog (fst (campaign_finish v (request C) (map (\<lambda>a. the (answers \<sigma> (i, a))) rs) n)))))"
| "disciplined v ev \<sigma> = True"

inductive reachable ::
  "(slot \<Rightarrow> bytes \<Rightarrow> 's \<Rightarrow> 's \<times> 'r) \<Rightarrow> 's \<Rightarrow> NodeID list \<Rightarrow> 's psys \<Rightarrow> bool"
  for app sm0 ps where
  start: "reachable app sm0 ps (init_sys sm0 ps v c)"
| step: "reachable app sm0 ps \<sigma> \<Longrightarrow> disciplined v ev \<sigma> \<Longrightarrow> exec app sm0 ps v ev \<sigma> = Some \<sigma>' \<Longrightarrow>
    reachable app sm0 ps \<sigma>'"

section \<open>The abstraction\<close>

definition abs_core :: "'s psys \<Rightarrow> core" where
  "abs_core \<sigma> =
     \<lparr>pr = (\<lambda>a. promised (nlog (rnode \<sigma> a))), lg = (\<lambda>a. entries (nlog (rnode \<sigma> a))),
      vs = votes \<sigma>, plan = planned \<sigma>, known = knows \<sigma>\<rparr>"

lemma abs_core_sel [simp]:
  "pr (abs_core \<sigma>) a = promised (nlog (rnode \<sigma> a))" "lg (abs_core \<sigma>) a = entries (nlog (rnode \<sigma> a))"
  "vs (abs_core \<sigma>) = votes \<sigma>" "plan (abs_core \<sigma>) = planned \<sigma>" "known (abs_core \<sigma>) = knows \<sigma>"
  by (simp_all add: abs_core_def)

lemma abs_core_others [simp]:
  "abs_core (open_call p r m tos \<sigma>) = abs_core \<sigma>" "abs_core (drop_call i \<sigma>) = abs_core \<sigma>"
  "abs_core (put_answer i a x \<sigma>) = abs_core \<sigma>" "abs_core (add_job J \<sigma>) = abs_core \<sigma>"
  "abs_core (drop_job j \<sigma>) = abs_core \<sigma>" "abs_core (elect b \<sigma>) = abs_core \<sigma>"
  "abs_core (submit cmd \<sigma>) = abs_core \<sigma>" "abs_core (note_applied p s cmd \<sigma>) = abs_core \<sigma>"
  by (simp_all add: abs_core_def sys_updates)

lemma abs_core_upd:
  "abs_core (upd_node p n vts pls kns \<sigma>) =
     \<lparr>pr = (pr (abs_core \<sigma>))(p := promised (nlog n)), lg = (lg (abs_core \<sigma>))(p := entries (nlog n)),
      vs = votes \<sigma> \<union> vts, plan = planned \<sigma> \<union> pls, known = knows \<sigma> \<union> kns\<rparr>"
  by (auto simp: abs_core_def upd_node_def fun_eq_iff)

section \<open>The invariant\<close>

text \<open>What every part of the state says about the abstract protocol state \<open>c\<close>.\<close>

definition msg_ok :: "core \<Rightarrow> message \<Rightarrow> bool" where
  "msg_ok c m \<longleftrightarrow>
     (Kind m = KindAccept \<longrightarrow> (MBallot m, MSlot m, MCommand m) \<in> plan c) \<and>
     (Kind m = KindCommit \<longrightarrow> (\<forall>s. 0 < s \<and> s \<le> CommitIndex m \<longrightarrow> (From m, s) \<in> known c))"

definition todo_ok :: "core \<Rightarrow> ballot \<Rightarrow> (slot \<times> bytes) list \<Rightarrow> bool" where
  "todo_ok c b work \<longleftrightarrow> (\<forall>(s, cmd) \<in> set work. (b, s, cmd) \<in> plan c)"

definition call_ok :: "NodeID list \<Rightarrow> core \<Rightarrow> call \<Rightarrow> bool" where
  "call_ok ps c C \<longleftrightarrow>
     caller C \<in> set ps \<and>
     (case round C of
        RPing \<Rightarrow> True
      | RPrepare \<Rightarrow>
          Kind (request C) = KindPrepare \<and> Node (MBallot (request C)) = caller C \<and>
          MBallot (request C) \<le> pr c (caller C)
      | RAccept k rest \<Rightarrow>
          Kind (request C) = KindAccept \<and>
          (caller C, MBallot (request C), MSlot (request C), MCommand (request C)) \<in> vs c \<and>
          todo_ok c (MBallot (request C)) rest
      | RCommit \<Rightarrow> True
      | RCatchUp from first ci \<Rightarrow>
          Kind (request C) = KindCatchUp \<and> MSlot (request C) = first \<and>
          (\<forall>s. first \<le> s \<and> s \<le> ci \<longrightarrow> (from, s) \<in> known c))"

definition answer_ok :: "NodeID list \<Rightarrow> core \<Rightarrow> call \<Rightarrow> NodeID \<Rightarrow> message \<Rightarrow> bool" where
  "answer_ok ps c C a r \<longleftrightarrow>
     a \<in> set ps \<and> a \<noteq> caller C \<and>
     (case round C of
        RPrepare \<Rightarrow>
          OK r \<longrightarrow> backs ps c (MBallot (request C)) (MSlot (request C)) a (set (Entries r))
      | RAccept k rest \<Rightarrow>
          OK r \<longrightarrow> (a, MBallot (request C), MSlot (request C), MCommand (request C)) \<in> vs c
      | RCatchUp from first ci \<Rightarrow>
          OK r \<longrightarrow> (\<forall>e \<in> set (Entries r). (EBallot e, Slot e, Command e) \<in> plan c \<and>
                     (Slot e \<le> ci \<longrightarrow> settled_entry ps c (Slot e) e))
      | _ \<Rightarrow> True)"

definition wire_ok :: "NodeID list \<Rightarrow> call \<Rightarrow> NodeID \<Rightarrow> message \<Rightarrow> bool" where
  "wire_ok ps C a m \<longleftrightarrow>
     m = request C \<and> a \<noteq> caller C \<and>
     (case round C of RCatchUp from first ci \<Rightarrow> a = from | _ \<Rightarrow> True)"

definition leader_ok :: "NodeID list \<Rightarrow> core \<Rightarrow> ballot set \<Rightarrow> 's node \<Rightarrow> bool" where
  "leader_ok ps c el n \<longleftrightarrow>
     nballot n \<in> el \<and> Node (nballot n) = nid n \<and>
     (\<forall>s w. (nballot n, s, w) \<in> plan c \<longrightarrow> s < nextSlot n) \<and>
     (\<forall>s \<ge> nextSlot n. \<forall>w. safe_at ps c (nballot n) s w)"

definition node_ok ::
  "(slot \<Rightarrow> bytes \<Rightarrow> 's \<Rightarrow> 's \<times> 'r) \<Rightarrow> 's \<Rightarrow> NodeID list \<Rightarrow> core \<Rightarrow> ballot set \<Rightarrow> NodeID \<Rightarrow> 's node \<Rightarrow> bool" where
  "node_ok app sm0 ps c el p n \<longleftrightarrow>
     nid n = p \<and> peers n = ps \<and> log_wf (nlog n) \<and>
     (\<forall>s \<in> set (committed n). (p, s) \<in> known c) \<and>
     (\<forall>s. 0 < s \<and> s \<le> appliedIndex n \<longrightarrow> (p, s) \<in> known c) \<and>
     sm n = apply_range app (nlog n) 0 (appliedIndex n) sm0 \<and>
     (role n = Leader \<longrightarrow> leader_ok ps c el n)"

definition calls_ok :: "NodeID list \<Rightarrow> 's psys \<Rightarrow> bool" where
  "calls_ok ps \<sigma> \<longleftrightarrow>
     (\<forall>i C. calls \<sigma> i = Some C \<longrightarrow> i < fresh \<sigma> \<and> call_ok ps (abs_core \<sigma>) C \<and>
        (\<forall>a m. wire \<sigma> (i, a) = Some m \<longrightarrow> wire_ok ps C a m) \<and>
        (\<forall>a r. answers \<sigma> (i, a) = Some r \<longrightarrow> answer_ok ps (abs_core \<sigma>) C a r))"

text \<open>The ballot of an election that is under way.\<close>

definition campaign_ballot :: "'s psys \<Rightarrow> nat \<Rightarrow> ballot \<Rightarrow> bool" where
  "campaign_ballot \<sigma> i b \<longleftrightarrow>
     (case calls \<sigma> i of None \<Rightarrow> False | Some C \<Rightarrow> round C = RPrepare \<and> MBallot (request C) = b)"

definition ballots_ok :: "NodeID list \<Rightarrow> 's psys \<Rightarrow> bool" where
  "ballots_ok ps \<sigma> \<longleftrightarrow>
     (\<forall>i b. campaign_ballot \<sigma> i b \<longrightarrow> b \<notin> elected \<sigma> \<and> (\<forall>j. campaign_ballot \<sigma> j b \<longrightarrow> i = j)) \<and>
     (\<forall>b \<in> elected \<sigma>. b \<le> promised (nlog (rnode \<sigma> (Node b)))) \<and>
     (\<forall>b s w. (b, s, w) \<in> planned \<sigma> \<longrightarrow> b \<in> elected \<sigma>)"

definition net_ok :: "NodeID list \<Rightarrow> 's psys \<Rightarrow> bool" where
  "net_ok ps \<sigma> \<longleftrightarrow>
     (\<forall>i a m. wire \<sigma> (i, a) = Some m \<longrightarrow>
        i < fresh \<sigma> \<and> a \<in> set ps \<and> From m \<in> set ps \<and> a \<noteq> From m \<and> msg_ok (abs_core \<sigma>) m) \<and>
     (\<forall>i a r. answers \<sigma> (i, a) = Some r \<longrightarrow> i < fresh \<sigma>) \<and>
     (\<forall>j J. jobs \<sigma> j = Some J \<longrightarrow> worker J \<in> set ps \<and> todo_ok (abs_core \<sigma>) (jballot J) (todo J))"

definition history_ok :: "NodeID list \<Rightarrow> 's psys \<Rightarrow> bool" where
  "history_ok ps \<sigma> \<longleftrightarrow>
     (\<forall>p s w. (p, s, w) \<in> applied \<sigma> \<longrightarrow> (\<exists>b. chosen ps (abs_core \<sigma>) s b w)) \<and>
     (\<forall>b s w. (b, s, w) \<in> planned \<sigma> \<longrightarrow> w = [] \<or> w \<in> submitted \<sigma>)"

definition sys_inv ::
  "(slot \<Rightarrow> bytes \<Rightarrow> 's \<Rightarrow> 's \<times> 'r) \<Rightarrow> 's \<Rightarrow> NodeID list \<Rightarrow> 's psys \<Rightarrow> bool" where
  "sys_inv app sm0 ps \<sigma> \<longleftrightarrow>
     core_inv ps (abs_core \<sigma>) \<and>
     (\<forall>p \<in> set ps. node_ok app sm0 ps (abs_core \<sigma>) (elected \<sigma>) p (rnode \<sigma> p)) \<and>
     calls_ok ps \<sigma> \<and> ballots_ok ps \<sigma> \<and> net_ok ps \<sigma> \<and> history_ok ps \<sigma>"

section \<open>Stability under protocol steps\<close>

lemma msg_ok_stable: "core_steps ps c c' \<Longrightarrow> msg_ok c m \<Longrightarrow> msg_ok c' m"
  using steps_mono [of ps c c'] unfolding msg_ok_def by blast

lemma todo_ok_stable: "core_steps ps c c' \<Longrightarrow> todo_ok c b work \<Longrightarrow> todo_ok c' b work"
  using steps_mono [of ps c c'] unfolding todo_ok_def by blast

lemma call_ok_stable: "core_steps ps c c' \<Longrightarrow> call_ok ps c C \<Longrightarrow> call_ok ps c' C"
  using steps_mono [of ps c c' "caller C"] todo_ok_stable [of ps c c']
  by (auto simp: call_ok_def split: round.splits intro: order.trans)

lemma answer_ok_stable:
  assumes "core_steps ps c c'" and "answer_ok ps c C a r"
  shows "answer_ok ps c' C a r"
proof -
  have "plan c \<subseteq> plan c'" "vs c \<subseteq> vs c'" using steps_mono [OF assms(1)] by blast+
  then show ?thesis
    using assms(2) steps_backs [OF assms(1)] steps_settled [OF assms(1)]
    by (cases "round C") (auto simp: answer_ok_def)
qed

lemma node_ok_stable:
  assumes steps: "core_steps ps c c'" and "node_ok app sm0 ps c el p n" and "el \<subseteq> el'"
    and "\<And>s w. role n = Leader \<Longrightarrow> (nballot n, s, w) \<in> plan c' \<Longrightarrow> (nballot n, s, w) \<in> plan c"
  shows "node_ok app sm0 ps c' el' p n"
proof -
  have "leader_ok ps c' el' n" if "role n = Leader"
    using that assms(2-4) steps_safe_at [OF steps] unfolding leader_ok_def node_ok_def by blast
  then show ?thesis using assms(2) steps_mono [OF steps] unfolding node_ok_def by blast
qed

section \<open>The updates keep the invariant\<close>

lemma sys_invD:
  assumes "sys_inv app sm0 ps \<sigma>"
  shows "core_inv ps (abs_core \<sigma>)"
    and "p \<in> set ps \<Longrightarrow> node_ok app sm0 ps (abs_core \<sigma>) (elected \<sigma>) p (rnode \<sigma> p)"
    and "calls_ok ps \<sigma>" and "ballots_ok ps \<sigma>" and "net_ok ps \<sigma>" and "history_ok ps \<sigma>"
  using assms by (simp_all add: sys_inv_def)

lemma upd_node_sel [simp]:
  "rnode (upd_node p n vts pls kns \<sigma>) = (rnode \<sigma>)(p := n)"
  "wire (upd_node p n vts pls kns \<sigma>) = wire \<sigma>" "calls (upd_node p n vts pls kns \<sigma>) = calls \<sigma>"
  "answers (upd_node p n vts pls kns \<sigma>) = answers \<sigma>" "jobs (upd_node p n vts pls kns \<sigma>) = jobs \<sigma>"
  "fresh (upd_node p n vts pls kns \<sigma>) = fresh \<sigma>" "elected (upd_node p n vts pls kns \<sigma>) = elected \<sigma>"
  "planned (upd_node p n vts pls kns \<sigma>) = planned \<sigma> \<union> pls"
  "votes (upd_node p n vts pls kns \<sigma>) = votes \<sigma> \<union> vts" "knows (upd_node p n vts pls kns \<sigma>) = knows \<sigma> \<union> kns"
  "applied (upd_node p n vts pls kns \<sigma>) = applied \<sigma>"
  "submitted (upd_node p n vts pls kns \<sigma>) = submitted \<sigma>"
  by (simp_all add: upd_node_def)

lemma open_call_sel [simp]:
  "rnode (open_call p r m tos \<sigma>) = rnode \<sigma>" "wire (open_call p r m tos \<sigma>) = (\<lambda>(i, a). if i = fresh \<sigma> then (if a \<in> tos then Some m else None) else wire \<sigma> (i, a))"
  "calls (open_call p r m tos \<sigma>) = (calls \<sigma>)(fresh \<sigma> \<mapsto> \<lparr>caller = p, round = r, request = m\<rparr>)" "answers (open_call p r m tos \<sigma>) = answers \<sigma>"
  "jobs (open_call p r m tos \<sigma>) = jobs \<sigma>" "fresh (open_call p r m tos \<sigma>) = Suc (fresh \<sigma>)"
  "elected (open_call p r m tos \<sigma>) = elected \<sigma>" "planned (open_call p r m tos \<sigma>) = planned \<sigma>"
  "applied (open_call p r m tos \<sigma>) = applied \<sigma>" "submitted (open_call p r m tos \<sigma>) = submitted \<sigma>"
  by (simp_all add: open_call_def)

lemma put_answer_sel [simp]:
  "rnode (put_answer i a x \<sigma>) = rnode \<sigma>" "wire (put_answer i a x \<sigma>) = (wire \<sigma>)((i, a) := None)"
  "calls (put_answer i a x \<sigma>) = calls \<sigma>" "answers (put_answer i a x \<sigma>) = (answers \<sigma>)((i, a) \<mapsto> x)"
  "jobs (put_answer i a x \<sigma>) = jobs \<sigma>" "fresh (put_answer i a x \<sigma>) = fresh \<sigma>"
  "elected (put_answer i a x \<sigma>) = elected \<sigma>" "planned (put_answer i a x \<sigma>) = planned \<sigma>"
  "applied (put_answer i a x \<sigma>) = applied \<sigma>" "submitted (put_answer i a x \<sigma>) = submitted \<sigma>"
  by (simp_all add: put_answer_def)

lemma add_job_sel [simp]:
  "rnode (add_job J \<sigma>) = rnode \<sigma>" "wire (add_job J \<sigma>) = wire \<sigma>"
  "calls (add_job J \<sigma>) = calls \<sigma>" "answers (add_job J \<sigma>) = answers \<sigma>"
  "jobs (add_job J \<sigma>) = (jobs \<sigma>)(fresh \<sigma> \<mapsto> J)" "fresh (add_job J \<sigma>) = Suc (fresh \<sigma>)"
  "elected (add_job J \<sigma>) = elected \<sigma>" "planned (add_job J \<sigma>) = planned \<sigma>"
  "applied (add_job J \<sigma>) = applied \<sigma>" "submitted (add_job J \<sigma>) = submitted \<sigma>"
  by (simp_all add: add_job_def)

lemma drop_call_sel [simp]:
  "rnode (drop_call i \<sigma>) = rnode \<sigma>" "wire (drop_call i \<sigma>) = wire \<sigma>"
  "calls (drop_call i \<sigma>) = (calls \<sigma>)(i := None)" "answers (drop_call i \<sigma>) = answers \<sigma>"
  "jobs (drop_call i \<sigma>) = jobs \<sigma>" "fresh (drop_call i \<sigma>) = fresh \<sigma>"
  "elected (drop_call i \<sigma>) = elected \<sigma>" "planned (drop_call i \<sigma>) = planned \<sigma>"
  "applied (drop_call i \<sigma>) = applied \<sigma>" "submitted (drop_call i \<sigma>) = submitted \<sigma>"
  by (simp_all add: drop_call_def)

lemma drop_job_sel [simp]:
  "rnode (drop_job i \<sigma>) = rnode \<sigma>" "wire (drop_job i \<sigma>) = wire \<sigma>"
  "calls (drop_job i \<sigma>) = calls \<sigma>" "answers (drop_job i \<sigma>) = answers \<sigma>"
  "jobs (drop_job i \<sigma>) = (jobs \<sigma>)(i := None)" "fresh (drop_job i \<sigma>) = fresh \<sigma>"
  "elected (drop_job i \<sigma>) = elected \<sigma>" "planned (drop_job i \<sigma>) = planned \<sigma>"
  "applied (drop_job i \<sigma>) = applied \<sigma>" "submitted (drop_job i \<sigma>) = submitted \<sigma>"
  by (simp_all add: drop_job_def)

lemma elect_sel [simp]:
  "rnode (elect b \<sigma>) = rnode \<sigma>" "wire (elect b \<sigma>) = wire \<sigma>"
  "calls (elect b \<sigma>) = calls \<sigma>" "answers (elect b \<sigma>) = answers \<sigma>"
  "jobs (elect b \<sigma>) = jobs \<sigma>" "fresh (elect b \<sigma>) = fresh \<sigma>"
  "elected (elect b \<sigma>) = insert b (elected \<sigma>)" "planned (elect b \<sigma>) = planned \<sigma>"
  "applied (elect b \<sigma>) = applied \<sigma>" "submitted (elect b \<sigma>) = submitted \<sigma>"
  by (simp_all add: elect_def)

lemma submit_sel [simp]:
  "rnode (submit cmd \<sigma>) = rnode \<sigma>" "wire (submit cmd \<sigma>) = wire \<sigma>"
  "calls (submit cmd \<sigma>) = calls \<sigma>" "answers (submit cmd \<sigma>) = answers \<sigma>"
  "jobs (submit cmd \<sigma>) = jobs \<sigma>" "fresh (submit cmd \<sigma>) = fresh \<sigma>"
  "elected (submit cmd \<sigma>) = elected \<sigma>" "planned (submit cmd \<sigma>) = planned \<sigma>"
  "applied (submit cmd \<sigma>) = applied \<sigma>" "submitted (submit cmd \<sigma>) = insert cmd (submitted \<sigma>)"
  by (simp_all add: submit_def)

lemma note_applied_sel [simp]:
  "rnode (note_applied p s cmd \<sigma>) = rnode \<sigma>" "wire (note_applied p s cmd \<sigma>) = wire \<sigma>"
  "calls (note_applied p s cmd \<sigma>) = calls \<sigma>" "answers (note_applied p s cmd \<sigma>) = answers \<sigma>"
  "jobs (note_applied p s cmd \<sigma>) = jobs \<sigma>" "fresh (note_applied p s cmd \<sigma>) = fresh \<sigma>"
  "elected (note_applied p s cmd \<sigma>) = elected \<sigma>" "planned (note_applied p s cmd \<sigma>) = planned \<sigma>"
  "applied (note_applied p s cmd \<sigma>) = insert (p, s, cmd) (applied \<sigma>)" "submitted (note_applied p s cmd \<sigma>) = submitted \<sigma>"
  by (simp_all add: note_applied_def)

lemma campaign_ballot_simps [simp]:
  "campaign_ballot (upd_node p n vts pls kns \<sigma>) i b = campaign_ballot \<sigma> i b"
  "campaign_ballot (open_call p r m tos \<sigma>) i b =
     (if i = fresh \<sigma> then r = RPrepare \<and> MBallot m = b else campaign_ballot \<sigma> i b)"
  "campaign_ballot (put_answer j a x \<sigma>) i b = campaign_ballot \<sigma> i b"
  "campaign_ballot (add_job J \<sigma>) i b = campaign_ballot \<sigma> i b"
  "campaign_ballot (elect e \<sigma>) i b = campaign_ballot \<sigma> i b"
  "campaign_ballot (submit cmd \<sigma>) i b = campaign_ballot \<sigma> i b"
  "campaign_ballot (note_applied p s cmd \<sigma>) i b = campaign_ballot \<sigma> i b"
  "campaign_ballot (drop_call j \<sigma>) i b = (i \<noteq> j \<and> campaign_ballot \<sigma> i b)"
  by (simp_all add: campaign_ballot_def)

lemma inv_upd_node:
  assumes inv: "sys_inv app sm0 ps \<sigma>"
    and steps: "core_steps ps (abs_core \<sigma>) (abs_core (upd_node p n vts pls kns \<sigma>))"
    and n: "node_ok app sm0 ps (abs_core (upd_node p n vts pls kns \<sigma>)) (elected \<sigma>) p n"
    and pls: "\<And>b s w. (b, s, w) \<in> pls \<Longrightarrow> Node b = p \<and> b \<in> elected \<sigma> \<and> (w = [] \<or> w \<in> submitted \<sigma>)"
  shows "sys_inv app sm0 ps (upd_node p n vts pls kns \<sigma>)"
proof -
  let ?\<sigma>' = "upd_node p n vts pls kns \<sigma>"
  note D = sys_invD [OF inv]
  have "core_inv ps (abs_core ?\<sigma>')" by (rule core_steps_inv [OF steps D(1)])
  moreover have "node_ok app sm0 ps (abs_core ?\<sigma>') (elected ?\<sigma>') q (rnode ?\<sigma>' q)" if "q \<in> set ps" for q
  proof (cases "q = p")
    case False
    have "Node (nballot (rnode \<sigma> q)) = q" if "role (rnode \<sigma> q) = Leader"
      using D(2) [OF \<open>q \<in> set ps\<close>] that by (simp add: node_ok_def leader_ok_def)
    then have "(nballot (rnode \<sigma> q), s, w) \<notin> pls" if "role (rnode \<sigma> q) = Leader" for s w
      using pls that False by metis
    then have "node_ok app sm0 ps (abs_core ?\<sigma>') (elected \<sigma>) q (rnode \<sigma> q)"
      by (intro node_ok_stable [OF steps D(2) [OF that] order.refl]) auto
    then show ?thesis using False by simp
  qed (use n in simp)
  moreover have "calls_ok ps ?\<sigma>'"
    using D(3) call_ok_stable [OF steps] answer_ok_stable [OF steps] by (auto simp: calls_ok_def)
  moreover have "b \<le> promised (nlog (rnode ?\<sigma>' (Node b)))" if "b \<in> elected \<sigma>" for b
  proof -
    have "b \<le> pr (abs_core \<sigma>) (Node b)" using D(4) that by (simp add: ballots_ok_def)
    then show ?thesis
      using steps_mono [OF steps, of "Node b"] by (metis abs_core_sel(1) order.trans)
  qed
  then have "ballots_ok ps ?\<sigma>'"
    using D(4) pls unfolding ballots_ok_def upd_node_sel campaign_ballot_simps by blast
  moreover have "net_ok ps ?\<sigma>'"
    using D(5) msg_ok_stable [OF steps] todo_ok_stable [OF steps] by (auto simp: net_ok_def)
  moreover have "history_ok ps ?\<sigma>'"
    using D(6) steps_chosen [OF steps] pls unfolding history_ok_def upd_node_sel by blast
  ultimately show ?thesis by (simp add: sys_inv_def)
qed

lemma inv_forget:
  assumes inv: "sys_inv app sm0 ps \<sigma>" and "cs \<subseteq>\<^sub>m calls \<sigma>" and "js \<subseteq>\<^sub>m jobs \<sigma>"
  shows "sys_inv app sm0 ps (\<sigma>\<lparr>calls := cs, jobs := js\<rparr>)"
proof -
  let ?\<sigma>' = "\<sigma>\<lparr>calls := cs, jobs := js\<rparr>"
  note D = sys_invD [OF inv]
  have c: "calls \<sigma> i = Some C" if "cs i = Some C" for i C
    using assms(2) that by (metis domI map_le_def)
  have j: "jobs \<sigma> i = Some J" if "js i = Some J" for i J
    using assms(3) that by (metis domI map_le_def)
  have [simp]: "abs_core ?\<sigma>' = abs_core \<sigma>" by (simp add: abs_core_def)
  have cb: "campaign_ballot \<sigma> i b" if "campaign_ballot ?\<sigma>' i b" for i b
    using that c by (auto simp: campaign_ballot_def split: option.splits)
  have "calls_ok ps ?\<sigma>'" using D(3) c unfolding calls_ok_def by simp blast
  moreover have "net_ok ps ?\<sigma>'" using D(5) j unfolding net_ok_def by simp blast
  moreover have "ballots_ok ps ?\<sigma>'" using D(4) cb by (simp add: ballots_ok_def) blast
  moreover have "history_ok ps ?\<sigma>'" using D(6) by (simp add: history_ok_def)
  ultimately show ?thesis using D(1,2) by (simp add: sys_inv_def)
qed

lemma inv_drop_call: "sys_inv app sm0 ps \<sigma> \<Longrightarrow> sys_inv app sm0 ps (drop_call i \<sigma>)"
  using inv_forget [of app sm0 ps \<sigma> "(calls \<sigma>)(i := None)" "jobs \<sigma>"]
  by (simp add: drop_call_def map_le_def)

lemma inv_drop_job: "sys_inv app sm0 ps \<sigma> \<Longrightarrow> sys_inv app sm0 ps (drop_job j \<sigma>)"
  using inv_forget [of app sm0 ps \<sigma> "calls \<sigma>" "(jobs \<sigma>)(j := None)"]
  by (simp add: drop_job_def map_le_def)

lemma inv_open_call:
  assumes inv: "sys_inv app sm0 ps \<sigma>"
    and C: "call_ok ps (abs_core \<sigma>) \<lparr>caller = p, round = r, request = m\<rparr>"
    and m: "msg_ok (abs_core \<sigma>) m" "From m = p" "tos \<subseteq> set ps - {p}"
    and catch: "\<And>f x y. r = RCatchUp f x y \<Longrightarrow> tos \<subseteq> {f}"
    and prep: "r = RPrepare \<Longrightarrow> MBallot m \<notin> elected \<sigma> \<and> (\<forall>j. \<not> campaign_ballot \<sigma> j (MBallot m))"
  shows "sys_inv app sm0 ps (open_call p r m tos \<sigma>)"
proof -
  let ?\<sigma>' = "open_call p r m tos \<sigma>" and ?C = "\<lparr>caller = p, round = r, request = m\<rparr>"
  note D = sys_invD [OF inv]
  have wire: "wire_ok ps ?C a m" if "a \<in> tos" for a
    using that m(3) catch by (auto simp: wire_ok_def split: round.splits)
  have ans: "answers \<sigma> (fresh \<sigma>, a) = None" for a
    using D(5) unfolding net_ok_def by (metis less_irrefl not_Some_eq)
  have "i < Suc (fresh \<sigma>)" if "calls \<sigma> i = Some C'" for i C'
    using D(3) that unfolding calls_ok_def by (metis less_SucI)
  then have "calls_ok ps ?\<sigma>'"
    using D(3) C wire ans unfolding calls_ok_def by (auto split: if_splits)
  moreover have "ballots_ok ps ?\<sigma>'"
    using D(4) prep unfolding ballots_ok_def by auto
  moreover have "caller ?C \<in> set ps" using C by (simp add: call_ok_def)
  then have "net_ok ps ?\<sigma>'"
    using D(5) m by (auto simp: net_ok_def less_Suc_eq)
  moreover have "history_ok ps ?\<sigma>'" using D(6) by (simp add: history_ok_def)
  ultimately show ?thesis using D(1,2) by (simp add: sys_inv_def)
qed

lemma inv_put_answer:
  assumes inv: "sys_inv app sm0 ps \<sigma>" and "i < fresh \<sigma>"
    and "\<And>C. calls \<sigma> i = Some C \<Longrightarrow> answer_ok ps (abs_core \<sigma>) C a r"
  shows "sys_inv app sm0 ps (put_answer i a r \<sigma>)"
proof -
  note D = sys_invD [OF inv]
  have "calls_ok ps (put_answer i a r \<sigma>)"
    using D(3) assms(3) by (simp add: calls_ok_def)
  moreover have "ballots_ok ps (put_answer i a r \<sigma>)"
    using D(4) unfolding ballots_ok_def by simp
  moreover have "net_ok ps (put_answer i a r \<sigma>)"
    using D(5) assms(2) by (simp add: net_ok_def) blast
  moreover have "history_ok ps (put_answer i a r \<sigma>)" using D(6) by (simp add: history_ok_def)
  ultimately show ?thesis using D(1,2) by (simp add: sys_inv_def)
qed

lemma inv_add_job:
  assumes inv: "sys_inv app sm0 ps \<sigma>" and "worker J \<in> set ps" "todo_ok (abs_core \<sigma>) (jballot J) (todo J)"
  shows "sys_inv app sm0 ps (add_job J \<sigma>)"
proof -
  note D = sys_invD [OF inv]
  have "calls_ok ps (add_job J \<sigma>)"
    using D(3) by (simp add: calls_ok_def less_Suc_eq)
  moreover have "ballots_ok ps (add_job J \<sigma>)"
    using D(4) unfolding ballots_ok_def by simp
  moreover have "net_ok ps (add_job J \<sigma>)"
    using D(5) assms(2,3) by (simp add: net_ok_def less_Suc_eq)
  moreover have "history_ok ps (add_job J \<sigma>)" using D(6) by (simp add: history_ok_def)
  ultimately show ?thesis using D(1,2) by (simp add: sys_inv_def)
qed

lemma inv_elect:
  assumes inv: "sys_inv app sm0 ps \<sigma>" and "b \<le> promised (nlog (rnode \<sigma> (Node b)))"
    and "\<And>j. \<not> campaign_ballot \<sigma> j b"
  shows "sys_inv app sm0 ps (elect b \<sigma>)"
proof -
  note D = sys_invD [OF inv]
  have "node_ok app sm0 ps (abs_core \<sigma>) (insert b (elected \<sigma>)) p (rnode \<sigma> p)" if "p \<in> set ps" for p
    by (rule node_ok_stable [OF _ D(2) [OF that]]) auto
  moreover have "ballots_ok ps (elect b \<sigma>)"
    using D(4) assms(2,3) unfolding ballots_ok_def by auto
  moreover have "calls_ok ps (elect b \<sigma>)" "net_ok ps (elect b \<sigma>)" "history_ok ps (elect b \<sigma>)"
    using D(3,5,6) by (simp_all add: calls_ok_def net_ok_def history_ok_def)
  ultimately show ?thesis using D(1) by (simp add: sys_inv_def)
qed

lemma inv_submit: "sys_inv app sm0 ps \<sigma> \<Longrightarrow> sys_inv app sm0 ps (submit cmd \<sigma>)"
  unfolding sys_inv_def calls_ok_def net_ok_def history_ok_def ballots_ok_def by simp blast

lemma inv_note_applied:
  assumes "sys_inv app sm0 ps \<sigma>" and "chosen ps (abs_core \<sigma>) s b cmd"
  shows "sys_inv app sm0 ps (note_applied p s cmd \<sigma>)"
proof -
  have "history_ok ps (note_applied p s cmd \<sigma>)"
    using sys_invD(6) [OF assms(1)] assms(2) by (auto simp: history_ok_def)
  then show ?thesis
    using sys_invD(1-5) [OF assms(1)]
    by (simp add: sys_inv_def calls_ok_def net_ok_def ballots_ok_def)
qed

end
