(* ===== verification/PaxosAgreement.thy ===== *)
theory PaxosAgreement
  imports PaxosSafety
begin

text \<open>
  Every disciplined step of the group is a sequence of steps of the abstract protocol and keeps
  the invariant (one lemma per kind of step); agreement, state-machine safety and validity of
  the applied commands follow for every reachable state.
\<close>

section \<open>Steps of one replica as protocol steps\<close>

lemma raise_steps:
  assumes "entries (nlog n) = entries (nlog (rnode \<sigma> p))"
    and "promised (nlog (rnode \<sigma> p)) \<le> promised (nlog n)"
  shows "core_steps ps (abs_core \<sigma>) (abs_core (upd_node p n {} {} {} \<sigma>))"
proof -
  have "abs_core (upd_node p n {} {} {} \<sigma>)
      = (abs_core \<sigma>)\<lparr>pr := (pr (abs_core \<sigma>))(p := promised (nlog n))\<rparr>"
    using assms(1) by (simp add: abs_core_upd) (simp add: abs_core_def fun_upd_idem)
  then show ?thesis using core_step.Raise [of "abs_core \<sigma>" p] assms(2) by auto
qed

lemma vote_steps:
  assumes "(b, s, w) \<in> planned \<sigma>" and "promised (nlog (rnode \<sigma> p)) \<le> b"
    and "no_higher (rnode \<sigma> p) s b" and "promised (nlog n) = b"
    and "entries (nlog n) = (entries (nlog (rnode \<sigma> p)))(s \<mapsto> \<lparr>Slot = s, EBallot = b, Command = w\<rparr>)"
  shows "core_steps ps (abs_core \<sigma>) (abs_core (upd_node p n {(p, b, s, w)} {} {} \<sigma>))"
proof -
  let ?c = "abs_core \<sigma>"
  have "core_step ps ?c (?c\<lparr>pr := (pr ?c)(p := b),
      lg := (lg ?c)(p := (lg ?c p)(s \<mapsto> \<lparr>Slot = s, EBallot = b, Command = w\<rparr>)),
      vs := insert (p, b, s, w) (vs ?c)\<rparr>)"
    using assms(1-3) by (intro core_step.Vote) (simp_all add: no_higher_def Get_def)
  moreover have "abs_core (upd_node p n {(p, b, s, w)} {} {} \<sigma>) = ?c\<lparr>pr := (pr ?c)(p := b),
      lg := (lg ?c)(p := (lg ?c p)(s \<mapsto> \<lparr>Slot = s, EBallot = b, Command = w\<rparr>)),
      vs := insert (p, b, s, w) (vs ?c)\<rparr>"
    using assms(4,5) by (simp add: abs_core_upd)
  ultimately show ?thesis by simp
qed

lemma plan_steps:
  assumes "\<And>s w. (b, s, w) \<notin> plan c" and "distinct (map fst work)"
    and "\<And>s w. (s, w) \<in> set work \<Longrightarrow> safe_at ps c b s w"
  shows "core_steps ps c (c\<lparr>plan := plan c \<union> (\<lambda>(s, w). (b, s, w)) ` set work\<rparr>)"
  using assms(2,3)
proof (induction work rule: rev_induct)
  case (snoc x work)
  obtain s w where x: "x = (s, w)" by (cases x)
  let ?c1 = "c\<lparr>plan := plan c \<union> (\<lambda>(s, w). (b, s, w)) ` set work\<rparr>"
  have steps: "core_steps ps c ?c1" using snoc by simp
  have "safe_at ps ?c1 b s w" using steps_safe_at [OF steps] snoc.prems(2) x by auto
  moreover have "u = w" if "(b, s, u) \<in> plan ?c1" for u
    using that snoc.prems(1) assms(1) x by force
  ultimately have "core_step ps ?c1 (?c1\<lparr>plan := insert (b, s, w) (plan ?c1)\<rparr>)"
    by (intro core_step.Plan)
  then show ?case using steps by (simp add: x)
qed simp

lemma apply_range_cong:
  assumes "\<And>s. 0 < s \<Longrightarrow> s \<le> k \<Longrightarrow> Command (the (Get l s)) = Command (the (Get l' s))"
  shows "apply_range app l 0 k st = apply_range app l' 0 k st"
  unfolding apply_range_def
  by (rule fold_cong) (auto simp: assms apply_entry_def IsNoop_def fun_eq_iff simp del: upt_Suc)

text \<open>A step that only marks known slots committed and changes the log keeps the replica sound.\<close>

lemma node_ok_keep:
  assumes inv: "sys_inv app sm0 ps \<sigma>" and "p \<in> set ps"
    and steps: "core_steps ps (abs_core \<sigma>) (abs_core (upd_node p n vts pls kns \<sigma>))"
    and same: "nid n = nid (rnode \<sigma> p)" "peers n = peers (rnode \<sigma> p)" "sm n = sm (rnode \<sigma> p)"
      "appliedIndex n = appliedIndex (rnode \<sigma> p)" "log_wf (nlog n)"
    and com: "\<And>s. s \<in> set (committed n) \<Longrightarrow> s \<in> set (committed (rnode \<sigma> p)) \<or> (p, s) \<in> kns"
    and lead: "role n = Leader \<Longrightarrow>
      role (rnode \<sigma> p) = Leader \<and> nballot n = nballot (rnode \<sigma> p) \<and> nextSlot (rnode \<sigma> p) \<le> nextSlot n \<and>
      (\<forall>s w. (nballot n, s, w) \<in> pls \<longrightarrow> s < nextSlot n)"
  shows "node_ok app sm0 ps (abs_core (upd_node p n vts pls kns \<sigma>)) (elected \<sigma>) p n"
proof -
  let ?c = "abs_core \<sigma>" and ?c' = "abs_core (upd_node p n vts pls kns \<sigma>)" and ?o = "rnode \<sigma> p"
  note D = sys_invD [OF inv]
  note old = D(2) [OF \<open>p \<in> set ps\<close>, unfolded node_ok_def]
  have inv': "core_inv ps ?c'" by (rule core_steps_inv [OF steps D(1)])
  have "Command (the (Get (nlog n) s)) = Command (the (Get (nlog ?o) s))" if "0 < s" "s \<le> appliedIndex ?o" for s
  proof -
    have k: "(p, s) \<in> known ?c" using old that by blast
    then obtain d where d: "lg ?c p s = Some d" "settled_entry ps ?c s d"
      using core_invD(7) [OF D(1)] by blast
    have "(p, s) \<in> known ?c'" using k steps_mono [OF steps] by blast
    then obtain e where e: "lg ?c' p s = Some e" "settled_entry ps ?c' s e"
      using core_invD(7) [OF inv'] by blast
    show ?thesis
      using settled_agree [OF inv' e(2) steps_settled [OF steps d(2)]] d(1) e(1) by (simp add: Get_def)
  qed
  then have "apply_range app (nlog n) 0 (appliedIndex ?o) sm0 = apply_range app (nlog ?o) 0 (appliedIndex ?o) sm0"
    by (rule apply_range_cong)
  moreover have "leader_ok ps ?c' (elected \<sigma>) n" if "role n = Leader"
  proof -
    have l: "leader_ok ps ?c (elected \<sigma>) ?o" using old lead that by blast
    then show ?thesis
      using lead [OF that] same(1) steps_safe_at [OF steps]
      unfolding leader_ok_def by (fastforce intro: order.strict_trans2)
  qed
  moreover have "known ?c \<union> kns = known ?c'" by (simp add: abs_core_upd)
  ultimately show ?thesis
    using old same com unfolding node_ok_def by (metis UnCI)
qed

lemma inv_upd_keep:
  assumes inv: "sys_inv app sm0 ps \<sigma>" and "p \<in> set ps"
    and steps: "core_steps ps (abs_core \<sigma>) (abs_core (upd_node p n vts {} kns \<sigma>))"
    and same: "nid n = nid (rnode \<sigma> p)" "peers n = peers (rnode \<sigma> p)" "sm n = sm (rnode \<sigma> p)"
      "appliedIndex n = appliedIndex (rnode \<sigma> p)" "log_wf (nlog n)"
    and com: "\<And>s. s \<in> set (committed n) \<Longrightarrow> s \<in> set (committed (rnode \<sigma> p)) \<or> (p, s) \<in> kns"
    and lead: "role n = Leader \<Longrightarrow>
      role (rnode \<sigma> p) = Leader \<and> nballot n = nballot (rnode \<sigma> p) \<and> nextSlot n = nextSlot (rnode \<sigma> p)"
  shows "sys_inv app sm0 ps (upd_node p n vts {} kns \<sigma>)"
  using node_ok_keep [OF inv assms(2) steps same com] lead
  by (intro inv_upd_node [OF inv steps]) auto

text \<open>
  The common case: fields the protocol does not look at change, the promise may rise, and a
  replica does not come to lead.
\<close>

definition quiet :: "'s node \<Rightarrow> 's node \<Rightarrow> bool" where
  "quiet n0 n \<longleftrightarrow>
     nid n = nid n0 \<and> peers n = peers n0 \<and> sm n = sm n0 \<and> appliedIndex n = appliedIndex n0 \<and>
     committed n = committed n0 \<and> (log_wf (nlog n0) \<longrightarrow> log_wf (nlog n)) \<and>
     entries (nlog n) = entries (nlog n0) \<and> promised (nlog n0) \<le> promised (nlog n) \<and>
     (role n = Leader \<longrightarrow> role n0 = Leader \<and> nballot n = nballot n0 \<and> nextSlot n = nextSlot n0)"

lemma quiet_refl [simp]: "quiet n n"
  by (simp add: quiet_def)

lemma quiet_trans [trans]: "quiet m n \<Longrightarrow> quiet n k \<Longrightarrow> quiet m k"
  unfolding quiet_def by (auto intro: order.trans)

lemma inv_quiet:
  assumes inv: "sys_inv app sm0 ps \<sigma>" and "p \<in> set ps" and q: "quiet (rnode \<sigma> p) n"
  shows "sys_inv app sm0 ps (upd_node p n {} {} {} \<sigma>)"
proof (rule inv_upd_keep [OF inv assms(2) raise_steps])
  show "log_wf (nlog n)" using q sys_invD(2) [OF inv assms(2)] by (simp add: quiet_def node_ok_def)
qed (use q in \<open>simp_all add: quiet_def\<close>)

lemma quiet_stepDown [simp]: "quiet n (stepDown v b n)"
  by (simp add: quiet_def stepDown_promised)

lemma quiet_propose_fail [simp]: "quiet n (propose_fail v s n)"
  by (simp add: quiet_def propose_fail_def)

lemma quiet_promise:
  assumes "node_promise v b n = (n', err)" and "promised (nlog n) \<le> b"
  shows "quiet n n'"
  using assms by (elim node_promiseE) (simp add: quiet_def)

lemma quiet_accept_fails: "node_accept v e n = (n', Some err) \<Longrightarrow> quiet n n'"
  by (erule node_acceptE) (simp add: quiet_def)

lemma quiet_resetElection [simp]: "quiet n (resetElectionLocked v n)"
  by (simp add: quiet_def)

lemma quiet_becomeFollower [simp]: "quiet n (becomeFollower v f n)"
  by (simp add: quiet_def)

section \<open>Deliveries\<close>

lemma Handle_keeps:
  assumes "Handle v m n = (n', r, f)"
  shows "nid n' = nid n" "peers n' = peers n" "sm n' = sm n" "appliedIndex n' = appliedIndex n"
    "committed n' = committed n" "log_wf (nlog n) \<Longrightarrow> log_wf (nlog n')"
    "role n' = Leader \<Longrightarrow> role n = Leader" "nballot n' = nballot n" "nextSlot n' = nextSlot n"
  using assms
  by (auto simp: Handle_def handlePrepare_def handleAccept_def handleCommit_def handlePing_def Let_def
      split: MessageKind.splits if_splits prod.splits option.splits elim!: node_promiseE node_acceptE)

lemma Handle_entries:
  assumes "Handle v m n = (n', r, f)"
  shows "entries (nlog n') =
    (if Kind m = KindAccept \<and> OK r then (entries (nlog n))
        (MSlot m \<mapsto> \<lparr>Slot = MSlot m, EBallot = MBallot m, Command = MCommand m\<rparr>)
     else entries (nlog n))"
proof (cases "Kind m = KindAccept")
  case True
  then show ?thesis
    using assms handleAccept_entries [of v m n n' r] by (auto simp: Handle_def split: prod.splits)
next
  case False
  then show ?thesis
    using assms
    by (auto simp: Handle_def handlePrepare_def handleCommit_def handlePing_def Let_def
        split: MessageKind.splits if_splits prod.splits option.splits elim!: node_promiseE)
qed

lemma Handle_fetch:
  assumes "Handle v m n = (n', r, Some (from, first, ci))"
  shows "Kind m = KindCommit \<and> from = From m \<and> first = Suc (appliedIndex n) \<and> ci = CommitIndex m"
  using assms
  by (auto simp: Handle_def handleCommit_def Let_def split: MessageKind.splits if_splits prod.splits)

lemma Handle_promise_reply:
  assumes "Handle v m n = (n', r, f)" and "Kind m = KindPrepare" and "OK r" and "log_wf (nlog n)"
  shows "promised (nlog n') = MBallot m \<and> set (Entries r) = {e. \<exists>s \<ge> MSlot m. entries (nlog n') s = Some e}"
  using assms
  by (auto simp: Handle_def handlePrepare_def Let_def EntriesFrom_set
      split: if_splits prod.splits option.splits elim!: node_promiseE)

lemma Handle_catchUp_reply:
  assumes "Handle v m n = (n', r, f)" and "Kind m = KindCatchUp" and "log_wf (nlog n)"
  shows "n' = n \<and> set (Entries r) = {e. \<exists>s \<ge> MSlot m. entries (nlog n) s = Some e}"
  using assms by (auto simp: Handle_def handleCatchUp_def EntriesFrom_set)

text \<open>A delivery is a vote when an accept is agreed to, and otherwise at most raises the promise.\<close>

lemma deliver_steps:
  assumes inv: "sys_inv app sm0 ps \<sigma>" and w: "wire \<sigma> (i, a) = Some m"
    and h: "Handle v m (rnode \<sigma> a) = (n, r, f)" and d: "disciplined v (EDeliver i a) \<sigma>"
    and vts: "vts = (if Kind m = KindAccept \<and> OK r then {(a, MBallot m, MSlot m, MCommand m)} else {})"
  shows "core_steps ps (abs_core \<sigma>) (abs_core (upd_node a n vts {} {} \<sigma>))"
proof (cases "Kind m = KindAccept \<and> OK r")
  case True
  then have "promised (nlog n) = MBallot m" "promised (nlog (rnode \<sigma> a)) \<le> MBallot m"
    using Handle_promise_rules(3) [OF h] by auto
  moreover have "(MBallot m, MSlot m, MCommand m) \<in> planned \<sigma>"
    using sys_invD(5) [OF inv] w True by (auto simp: net_ok_def msg_ok_def)
  moreover have "no_higher (rnode \<sigma> a) (MSlot m) (MBallot m)"
    using d w True calculation(2) by simp
  ultimately show ?thesis
    using Handle_entries [OF h] True vts vote_steps [of "MBallot m" "MSlot m" "MCommand m" \<sigma> a n ps] by simp
next
  case False
  then have vts0: "vts = {}" using vts by (simp only: if_False)
  show ?thesis
    unfolding vts0
    by (rule raise_steps) (use Handle_entries [OF h] Handle_promise_rules(1) [OF h] False in auto)
qed

lemma deliver_answer:
  assumes inv: "sys_inv app sm0 ps \<sigma>" and inv': "core_inv ps (abs_core (upd_node a n vts {} {} \<sigma>))"
    and w: "wire \<sigma> (i, a) = Some m" and h: "Handle v m (rnode \<sigma> a) = (n, r, f)"
    and vts: "vts = (if Kind m = KindAccept \<and> OK r then {(a, MBallot m, MSlot m, MCommand m)} else {})"
    and C: "calls \<sigma> i = Some C"
  shows "answer_ok ps (abs_core (upd_node a n vts {} {} \<sigma>)) C a r"
proof -
  let ?c = "abs_core (upd_node a n vts {} {} \<sigma>)"
  note D = sys_invD [OF inv]
  have a: "a \<in> set ps" using D(5) w by (auto simp: net_ok_def)
  have wo: "wire_ok ps C a m" and co: "call_ok ps (abs_core \<sigma>) C"
    using D(3) C w unfolding calls_ok_def by blast+
  have wf: "log_wf (nlog (rnode \<sigma> a))" using D(2) [OF a] by (simp add: node_ok_def)
  have m: "m = request C" and ne: "a \<noteq> caller C" using wo by (simp_all add: wire_ok_def)
  show ?thesis
  proof (cases "round C")
    case RPrepare
    then have k: "Kind m = KindPrepare" using co m by (simp add: call_ok_def)
    have "backs ps ?c (MBallot m) (MSlot m) a (set (Entries r))" if "OK r"
      using Handle_promise_reply [OF h k that wf]
      by (intro log_backs [OF inv']) (auto simp: abs_core_upd)
    then show ?thesis using RPrepare a ne m by (simp add: answer_ok_def)
  next
    case (RAccept k rest)
    then have "Kind m = KindAccept" using co m by (simp add: call_ok_def)
    then show ?thesis using RAccept a ne m vts by (simp add: answer_ok_def)
  next
    case (RCatchUp src first ci)
    then have k: "Kind m = KindCatchUp" "MSlot m = first" "a = src"
      and kn: "\<And>s. first \<le> s \<Longrightarrow> s \<le> ci \<Longrightarrow> (src, s) \<in> known (abs_core \<sigma>)"
      using co wo m by (simp_all add: call_ok_def wire_ok_def)
    have n: "n = rnode \<sigma> a" and es: "set (Entries r) = {e. \<exists>s \<ge> first. entries (nlog n) s = Some e}"
      using Handle_catchUp_reply [OF h k(1) wf] k(2) by simp_all
    have "(EBallot e, Slot e, Command e) \<in> plan ?c \<and> (Slot e \<le> ci \<longrightarrow> settled_entry ps ?c (Slot e) e)"
      if mem: "e \<in> set (Entries r)" for e
    proof -
      obtain s where s: "first \<le> s" "lg ?c a s = Some e"
        using mem es by (auto simp: abs_core_upd)
      have "Slot e = s" "(EBallot e, s, Command e) \<in> plan ?c" using core_invD(6) [OF inv' s(2)] by auto
      moreover have "settled_entry ps ?c s e" if "s \<le> ci"
        using kn [OF s(1) that] core_invD(7) [OF inv', of a s] s(2) k(3) by (auto simp: abs_core_upd)
      ultimately show ?thesis by simp
    qed
    then show ?thesis using RCatchUp a ne by (simp add: answer_ok_def)
  qed (use a ne in \<open>simp_all add: answer_ok_def\<close>)
qed

lemma inv_deliver:
  assumes inv: "sys_inv app sm0 ps \<sigma>" and d: "disciplined v (EDeliver i a) \<sigma>"
    and e: "exec_deliver v i a \<sigma> = Some \<sigma>'"
  shows "sys_inv app sm0 ps \<sigma>'"
proof -
  obtain m n r f where w: "wire \<sigma> (i, a) = Some m" and h: "Handle v m (rnode \<sigma> a) = (n, r, f)"
    using e by (auto simp: exec_deliver_def split: option.splits prod.splits)
  define vts where "vts = (if Kind m = KindAccept \<and> OK r then {(a, MBallot m, MSlot m, MCommand m)} else {})"
  define \<sigma>0 where "\<sigma>0 = upd_node a n vts {} {} \<sigma>"
  have net: "a \<in> set ps" "From m \<in> set ps" "a \<noteq> From m" "i < fresh \<sigma>" "msg_ok (abs_core \<sigma>) m"
    using sys_invD(5) [OF inv] w by (auto simp: net_ok_def)
  have old: "node_ok app sm0 ps (abs_core \<sigma>) (elected \<sigma>) a (rnode \<sigma> a)" by (rule sys_invD(2) [OF inv net(1)])
  note steps = deliver_steps [OF inv w h d vts_def, folded \<sigma>0_def]
  have inv0: "sys_inv app sm0 ps \<sigma>0"
    unfolding \<sigma>0_def
    by (rule inv_upd_keep [OF inv net(1) steps [unfolded \<sigma>0_def]])
      (use Handle_keeps [OF h] old in \<open>auto simp: node_ok_def\<close>)
  define \<sigma>1 where "\<sigma>1 = put_answer i a r \<sigma>0"
  have inv1: "sys_inv app sm0 ps \<sigma>1"
    unfolding \<sigma>1_def
    by (rule inv_put_answer [OF inv0])
      (use deliver_answer [OF inv _ w h vts_def] sys_invD(1) [OF inv0] net(4) in \<open>simp_all add: \<sigma>0_def\<close>)
  show ?thesis
  proof (cases f)
    case None
    then show ?thesis
      using e w h inv1 by (simp add: exec_deliver_def Let_def \<sigma>1_def \<sigma>0_def vts_def split: if_splits)
  next
    case (Some x)
    obtain src first ci where f: "f = Some (src, first, ci)" using Some by (cases x) auto
    have k: "Kind m = KindCommit" "src = From m" "first = Suc (appliedIndex (rnode \<sigma> a))" "ci = CommitIndex m"
      using Handle_fetch [OF h [unfolded f]] by simp_all
    have "\<sigma>' = open_call a (RCatchUp src first ci) (catchUp_request first n) {src} \<sigma>1"
      using e w h f by (simp add: exec_deliver_def Let_def \<sigma>1_def \<sigma>0_def vts_def split: if_splits)
    moreover have "sys_inv app sm0 ps (open_call a (RCatchUp src first ci) (catchUp_request first n) {src} \<sigma>1)"
      using net k old Handle_keeps(1) [OF h]
      by (intro inv_open_call [OF inv1])
        (auto simp: call_ok_def msg_ok_def catchUp_request_def \<sigma>1_def \<sigma>0_def node_ok_def abs_core_upd)
    ultimately show ?thesis by simp
  qed
qed

section \<open>Elections\<close>

lemma inv_probe:
  assumes inv: "sys_inv app sm0 ps \<sigma>" and e: "exec_probe ps p \<sigma> = Some \<sigma>'"
  shows "sys_inv app sm0 ps \<sigma>'"
proof -
  obtain n where p: "p \<in> set ps" and b: "campaign_begin (rnode \<sigma> p) = Some n"
    and \<sigma>': "\<sigma>' = open_call p RPing (ping_request n) (others ps p) (upd_node p n {} {} {} \<sigma>)"
    using e by (auto simp: exec_probe_def split: if_splits option.splits)
  have n: "quiet (rnode \<sigma> p) n" "nid n = p"
    using b sys_invD(2) [OF inv p] by (auto simp: campaign_begin_def quiet_def node_ok_def split: if_splits)
  show ?thesis
    unfolding \<sigma>'
    by (rule inv_open_call [OF inv_quiet [OF inv p n(1)]])
      (use p n(2) in \<open>auto simp: call_ok_def msg_ok_def ping_request_def others_def\<close>)
qed

lemma campaign_prepareE:
  assumes "campaign_prepare v pings n = (n', m)"
  obtains "m = None" and "quiet n n'"
  | "quiet n n'" and "promised (nlog n') = Ballot (Num (promised (nlog n)) + 1) (nid n)"
    and "m = Some ((new_message KindPrepare (nid n))
           \<lparr>MBallot := promised (nlog n'), MSlot := appliedIndex n' + 1\<rparr>)"
proof (cases "canReachQuorum n pings \<and> role n = Candidate")
  case False
  then show ?thesis using that(1) assms by (auto simp: campaign_prepare_def split: if_splits)
next
  case True
  obtain n1 err where pr: "node_promise v (Ballot (Num (promised (nlog n)) + 1) (nid n)) n = (n1, err)"
    by fastforce
  have q: "quiet n n1"
    using quiet_promise [OF pr] next_ballot_above [of "promised (nlog n)"] by (simp add: order.strict_implies_order)
  show ?thesis
  proof (cases err)
    case None
    then have "promised (nlog n1) = Ballot (Num (promised (nlog n)) + 1) (nid n)"
      using pr by (elim node_promiseE) simp
    then show ?thesis
      using that(2) assms True None pr q by (auto simp: campaign_prepare_def Promised_def Let_def)
  next
    case (Some x)
    then show ?thesis
      using that(1) assms True pr quiet_trans [OF q quiet_stepDown]
      by (auto simp: campaign_prepare_def Promised_def Let_def)
  qed
qed

lemma campaign_ballot_le:
  assumes "sys_inv app sm0 ps \<sigma>" and "campaign_ballot \<sigma> i b"
  shows "b \<le> promised (nlog (rnode \<sigma> (Node b)))"
proof -
  obtain C where C: "calls \<sigma> i = Some C" "round C = RPrepare" "MBallot (request C) = b"
    using assms(2) by (auto simp: campaign_ballot_def split: option.splits)
  then have "call_ok ps (abs_core \<sigma>) C"
    using sys_invD(3) [OF assms(1)] unfolding calls_ok_def by blast
  then show ?thesis using C by (auto simp: call_ok_def)
qed

lemma inv_finish_ping:
  assumes inv: "sys_inv app sm0 ps \<sigma>" and p: "caller C \<in> set ps"
  shows "sys_inv app sm0 ps (finish_ping ps v C replies \<sigma>)"
proof -
  let ?p = "caller C"
  obtain n m where h: "campaign_prepare v replies (rnode \<sigma> ?p) = (n, m)" by fastforce
  show ?thesis
    using h
  proof (cases rule: campaign_prepareE)
    case 1
    then show ?thesis using inv_quiet [OF inv p] h by (simp add: finish_ping_def Let_def)
  next
    case 2
    let ?b = "promised (nlog n)" and ?\<sigma> = "upd_node ?p n {} {} {} \<sigma>"
    have id: "nid (rnode \<sigma> ?p) = ?p" using sys_invD(2) [OF inv p] by (simp add: node_ok_def)
    have above: "promised (nlog (rnode \<sigma> ?p)) < ?b" "Node ?b = ?p"
      using 2(2) next_ballot_above [of "promised (nlog (rnode \<sigma> ?p))"] id by simp_all
    have "?b \<notin> elected \<sigma>"
      using sys_invD(4) [OF inv] above unfolding ballots_ok_def by (metis leD)
    moreover have "\<not> campaign_ballot \<sigma> j ?b" for j
      using campaign_ballot_le [OF inv] above by (metis leD)
    ultimately have "sys_inv app sm0 ps (open_call ?p RPrepare (the m) (others ps ?p) ?\<sigma>)"
      using p 2(3) id above(2)
      by (intro inv_open_call [OF inv_quiet [OF inv p 2(1)]])
        (auto simp: call_ok_def msg_ok_def others_def)
    then show ?thesis using h 2(3) by (simp add: finish_ping_def Let_def)
  qed
qed

text \<open>A majority of promises, the candidate's own included.\<close>

lemma answers_majority:
  assumes "p \<in> set ps" and "set rs \<subseteq> set ps - {p}" and "distinct rs" and "distinct ps"
    and "majority (length ps) \<le> 1 + length (filter P rs)"
  shows "is_majority ps (insert p (set (filter P rs)))"
proof -
  have "p \<notin> set (filter P rs)" using assms(2) by auto
  then have "card (insert p (set (filter P rs))) = 1 + length (filter P rs)"
    using distinct_card [OF distinct_filter [OF assms(3)], of P] by simp
  then show ?thesis
    using assms distinct_card [OF assms(4)] by (auto simp: is_majority_def)
qed

lemma count_ok_map: "count_ok (map f rs) = length (filter (\<lambda>a. OK (f a)) rs)"
  by (simp add: count_ok_def filter_map comp_def)

lemma campaign_finish_won:
  assumes "campaign_finish v req replies n = (n', Some work)"
  defines "g \<equiv> EntriesFrom (nlog n) (MSlot req) @ concat (map Entries (filter OK replies))"
  shows "node_quorum n \<le> 1 + count_ok replies" "work = recovery (MSlot req) g" "role n' = Leader"
    "nballot n' = MBallot req" "nextSlot n' = max (Suc (top_slot (MSlot req) g)) (MSlot req)"
    "nid n' = nid n" "peers n' = peers n" "sm n' = sm n" "appliedIndex n' = appliedIndex n"
    "committed n' = committed n" "nlog n' = nlog n"
  using assms(1)
  by (auto simp: campaign_finish_def Let_def becomeLeader_def g_def split: if_splits prod.splits)

lemma campaign_finish_lost:
  assumes "campaign_finish v req replies n = (n', None)"
    and "promised (nlog n) \<le> promised (nlog n')"
  shows "quiet n n'"
proof -
  obtain n1 where "n' = stepDown v zero_ballot n1" and "n1 = n \<or> (\<exists>b. n1 = fst (node_promise v b n))"
    using assms(1) by (auto simp: campaign_finish_def Let_def becomeLeader_def split: if_splits prod.splits)
  moreover have "quiet n n'" if b: "n1 = fst (node_promise v b n)" for b
  proof -
    obtain err where "node_promise v b n = (n1, err)" using b by (cases "node_promise v b n") simp
    then show ?thesis
      using assms(2) \<open>n' = stepDown v zero_ballot n1\<close> by (elim node_promiseE) (simp add: quiet_def)
  qed
  ultimately show ?thesis by auto
qed

text \<open>What the winner of an election has gathered makes its recovery pass and all later slots safe.\<close>

lemma election_safe:
  assumes inv: "core_inv ps c" and Q: "is_majority ps Q" "\<forall>a \<in> Q. \<exists>es \<subseteq> set g. backs ps c b first a es"
    and g: "\<And>e. e \<in> set g \<Longrightarrow> (EBallot e, Slot e, Command e) \<in> plan c"
  shows "(s, w) \<in> set (recovery first g) \<Longrightarrow>
      safe_at ps c b s w \<and> (w = [] \<or> (\<exists>b'. (b', s, w) \<in> plan c))"
    and "first \<le> s \<Longrightarrow> top_slot first g < s \<Longrightarrow> safe_at ps c b s w"
proof -
  show "safe_at ps c b s w \<and> (w = [] \<or> (\<exists>b'. (b', s, w) \<in> plan c))"
    if r: "(s, w) \<in> set (recovery first g)"
  proof (cases "best_entries first g s")
    case None
    have "first \<le> s" "w = []" using r None by (auto simp: recovery_iff)
    then have "\<forall>e \<in> set g. Slot e \<noteq> s" using None best_entries_None [of first g s] by simp
    then show ?thesis using unreported_safe [OF Q \<open>first \<le> s\<close>] \<open>w = []\<close> by simp
  next
    case (Some d)
    then have d: "d \<in> set g" "Slot d = s" "first \<le> s" "\<forall>e \<in> set g. Slot e = s \<longrightarrow> EBallot e \<le> EBallot d"
      using best_entries_Some by blast+
    have w: "w = Command d" using r Some by (simp add: recovery_iff)
    have p: "(EBallot d, s, Command d) \<in> plan c" using g [OF d(1)] d(2) by simp
    show ?thesis using reported_safe [OF inv Q d(3) p d(4)] p w by blast
  qed
  show "safe_at ps c b s w" if "first \<le> s" "top_slot first g < s"
    by (rule unreported_safe [OF Q \<open>first \<le> s\<close>]) (use that top_slot_ge [of _ g first] in fastforce)
qed

lemma election_backs:
  assumes inv: "sys_inv app sm0 ps \<sigma>" and C: "call_ok ps (abs_core \<sigma>) C" "round C = RPrepare"
    and ans: "\<And>a. a \<in> set rs \<Longrightarrow> answer_ok ps (abs_core \<sigma>) C a (f a)" and "distinct rs" "distinct ps"
    and won: "campaign_finish v (request C) (map f rs) (rnode \<sigma> (caller C)) = (n, Some work)"
  defines "g \<equiv> EntriesFrom (nlog (rnode \<sigma> (caller C))) (MSlot (request C))
      @ concat (map Entries (filter OK (map f rs)))"
  shows "\<exists>Q. is_majority ps Q \<and>
    (\<forall>a \<in> Q. \<exists>es \<subseteq> set g. backs ps (abs_core \<sigma>) (MBallot (request C)) (MSlot (request C)) a es)"
    and "e \<in> set g \<Longrightarrow> (EBallot e, Slot e, Command e) \<in> planned \<sigma>"
proof -
  let ?c = "abs_core \<sigma>" and ?p = "caller C" and ?b = "MBallot (request C)" and ?first = "MSlot (request C)"
  have p: "?p \<in> set ps" "?b \<le> pr ?c ?p" using C by (simp_all add: call_ok_def)
  have old: "log_wf (nlog (rnode \<sigma> ?p))" "peers (rnode \<sigma> ?p) = ps"
    using sys_invD(2) [OF inv p(1)] by (simp_all add: node_ok_def)
  have rs: "set rs \<subseteq> set ps - {?p}" using ans by (auto simp: answer_ok_def)
  have own: "backs ps ?c ?b ?first ?p (set (EntriesFrom (nlog (rnode \<sigma> ?p)) ?first))"
    by (rule log_backs [OF sys_invD(1) [OF inv] p(2)]) (simp add: EntriesFrom_set [OF old(1)])
  have reply: "backs ps ?c ?b ?first a (set (Entries (f a)))" if "a \<in> set rs" "OK (f a)" for a
    using ans [OF that(1)] that(2) C(2) by (simp add: answer_ok_def)
  have "is_majority ps (insert ?p (set (filter (\<lambda>a. OK (f a)) rs)))"
    using campaign_finish_won(1) [OF won] old(2)
    by (intro answers_majority [OF p(1) rs assms(5,6)]) (simp add: node_quorum_def count_ok_map)
  moreover have "\<exists>es \<subseteq> set g. backs ps ?c ?b ?first a es" if "a \<in> insert ?p (set (filter (\<lambda>a. OK (f a)) rs))" for a
  proof (cases "a = ?p")
    case True
    then show ?thesis using own by (auto simp: g_def intro!: exI [of _ "set (EntriesFrom (nlog (rnode \<sigma> ?p)) ?first)"])
  next
    case False
    then have "a \<in> set rs" "OK (f a)" using that by auto
    then show ?thesis using reply by (auto simp: g_def intro!: exI [of _ "set (Entries (f a))"])
  qed
  ultimately show "\<exists>Q. is_majority ps Q \<and> (\<forall>a \<in> Q. \<exists>es \<subseteq> set g. backs ps ?c ?b ?first a es)" by blast
  show "(EBallot e, Slot e, Command e) \<in> planned \<sigma>" if "e \<in> set g"
    using that own reply unfolding backs_def g_def by auto
qed

text \<open>The winner as a sound leader: its plan is new, safe, and below the slots it will hand out.\<close>

lemma election_leader_ok:
  assumes steps: "core_steps ps c c'" and plan: "plan c' = plan c \<union> (\<lambda>(s, w). (b, s, w)) ` set work"
    and unplanned: "\<And>s w. (b, s, w) \<notin> plan c" and work: "work = recovery first g"
    and safe: "\<And>s w. first \<le> s \<Longrightarrow> top_slot first g < s \<Longrightarrow> safe_at ps c b s w"
    and n: "nballot n = b" "nextSlot n = max (Suc (top_slot first g)) first" "Node b = nid n" "b \<in> el"
  shows "leader_ok ps c' el n"
  unfolding leader_ok_def
proof (intro conjI allI impI)
  fix s w assume "(nballot n, s, w) \<in> plan c'"
  then have "(s, w) \<in> set work" using unplanned plan n(1) by auto
  then show "s < nextSlot n" using n(2) work by (auto simp: recovery_iff)
next
  fix s w assume "nextSlot n \<le> s"
  then show "safe_at ps c' (nballot n) s w" using steps_safe_at [OF steps] safe n(1,2) by simp
qed (use n in simp_all)

lemma inv_election_won:
  assumes inv: "sys_inv app sm0 ps \<sigma>" and C: "call_ok ps (abs_core \<sigma>) C" "round C = RPrepare"
    and fresh: "MBallot (request C) \<notin> elected \<sigma>" "\<And>j. \<not> campaign_ballot \<sigma> j (MBallot (request C))"
    and ans: "\<And>a. a \<in> set rs \<Longrightarrow> answer_ok ps (abs_core \<sigma>) C a (f a)" and "distinct rs" "distinct ps"
    and h: "campaign_finish v (request C) (map f rs) (rnode \<sigma> (caller C)) = (n, Some work)"
  shows "sys_inv app sm0 ps
    (upd_node (caller C) n {} ((\<lambda>(s, w). (MBallot (request C), s, w)) ` set work) {} (elect (MBallot (request C)) \<sigma>))"
proof -
  let ?p = "caller C" and ?b = "MBallot (request C)" and ?first = "MSlot (request C)"
  let ?pls = "(\<lambda>(s, w). (?b, s, w)) ` set work" and ?\<sigma>1 = "elect ?b \<sigma>"
  let ?c' = "abs_core (upd_node ?p n {} ?pls {} ?\<sigma>1)"
  have p: "?p \<in> set ps" "Node ?b = ?p" "?b \<le> promised (nlog (rnode \<sigma> ?p))"
    using C by (simp_all add: call_ok_def)
  note D = sys_invD [OF inv] and won = campaign_finish_won [OF h]
  note old = D(2) [OF p(1), unfolded node_ok_def]
  define g where "g = EntriesFrom (nlog (rnode \<sigma> ?p)) ?first @ concat (map Entries (filter OK (map f rs)))"
  obtain Q where Q: "is_majority ps Q" "\<forall>a \<in> Q. \<exists>es \<subseteq> set g. backs ps (abs_core \<sigma>) ?b ?first a es"
    using election_backs(1) [OF inv C ans assms(7,8) h] unfolding g_def by blast
  have gp: "(EBallot e, Slot e, Command e) \<in> plan (abs_core \<sigma>)" if "e \<in> set g" for e
    using election_backs(2) [OF inv C ans assms(7,8) h] that unfolding g_def by simp
  note safe = election_safe [OF D(1) Q gp]
  have work: "work = recovery ?first g" using won(2) g_def by simp
  have unplanned: "(?b, s, w) \<notin> planned \<sigma>" for s w
    using D(4) fresh(1) unfolding ballots_ok_def by blast
  have "distinct (map fst work)" by (simp add: work recovery_def comp_def del: upt_Suc)
  then have "core_steps ps (abs_core \<sigma>) ((abs_core \<sigma>)\<lparr>plan := plan (abs_core \<sigma>) \<union> ?pls\<rparr>)"
    using plan_steps [of ?b "abs_core \<sigma>" work ps] unplanned safe(1) work by simp
  moreover have "?c' = (abs_core \<sigma>)\<lparr>plan := plan (abs_core \<sigma>) \<union> ?pls\<rparr>"
    using won(11) by (simp add: abs_core_upd fun_upd_idem) (simp add: abs_core_def elect_def)
  ultimately have steps: "core_steps ps (abs_core ?\<sigma>1) ?c'" by simp
  have inv1: "sys_inv app sm0 ps ?\<sigma>1" using inv_elect [OF inv] p fresh(2) by simp
  have "leader_ok ps ?c' (elected ?\<sigma>1) n"
    by (rule election_leader_ok [OF steps _ _ work])
      (use unplanned safe(2) won(4-6) p(2) old in \<open>auto simp: abs_core_upd g_def\<close>)
  then have "node_ok app sm0 ps ?c' (elected ?\<sigma>1) ?p n"
    using old won by (simp add: node_ok_def abs_core_upd) (simp add: elect_def)
  moreover have "w = [] \<or> w \<in> submitted \<sigma>" if "(s, w) \<in> set work" for s w
    using safe(1) [of s w] that work D(6) unfolding history_ok_def abs_core_sel by blast
  ultimately show ?thesis
    using p(2) by (intro inv_upd_node [OF inv1 steps]) auto
qed

lemma inv_finish_prepare:
  assumes inv: "sys_inv app sm0 ps \<sigma>" and C: "call_ok ps (abs_core \<sigma>) C" "round C = RPrepare"
    and fresh: "MBallot (request C) \<notin> elected \<sigma>" "\<And>j. \<not> campaign_ballot \<sigma> j (MBallot (request C))"
    and ans: "\<And>a. a \<in> set rs \<Longrightarrow> answer_ok ps (abs_core \<sigma>) C a (f a)" and "distinct rs" "distinct ps"
    and mono: "promised (nlog (rnode \<sigma> (caller C))) \<le>
      promised (nlog (fst (campaign_finish v (request C) (map f rs) (rnode \<sigma> (caller C)))))"
  shows "sys_inv app sm0 ps (finish_prepare v C (map f rs) \<sigma>)"
proof -
  have p: "caller C \<in> set ps" using C by (simp add: call_ok_def)
  obtain n res where h: "campaign_finish v (request C) (map f rs) (rnode \<sigma> (caller C)) = (n, res)" by fastforce
  show ?thesis
  proof (cases res)
    case None
    then have "quiet (rnode \<sigma> (caller C)) n" using campaign_finish_lost [of v] h mono by (metis fst_conv)
    then show ?thesis using inv_quiet [OF inv p] h None by (simp add: finish_prepare_def Let_def)
  next
    case (Some work)
    show ?thesis
      using inv_add_job [OF inv_election_won [OF inv C fresh ans assms(7,8) h [unfolded Some]],
          of "\<lparr>worker = caller C, jkind = Recovery, jballot = MBallot (request C), todo = work\<rparr>"] h Some p
      by (auto simp: finish_prepare_def Let_def todo_ok_def abs_core_upd)
  qed
qed

section \<open>Accept rounds\<close>

lemma tally_count: "tally b k (map f rs) = Inr t \<Longrightarrow> t = k + length (filter (\<lambda>a. OK (f a)) rs)"
  by (induction rs arbitrary: k) (fastforce split: if_splits)+

lemma know_steps:
  assumes "\<And>s. s \<in> set ss \<Longrightarrow> \<exists>e. lg c p s = Some e \<and> settled_entry ps c s e"
  shows "core_steps ps c (c\<lparr>known := known c \<union> Pair p ` set ss\<rparr>)"
  using assms
proof (induction ss rule: rev_induct)
  case (snoc s ss)
  let ?c1 = "c\<lparr>known := known c \<union> Pair p ` set ss\<rparr>"
  have steps: "core_steps ps c ?c1" using snoc by simp
  obtain e where "lg ?c1 p s = Some e" "settled_entry ps ?c1 s e"
    using snoc.prems [of s] steps_settled [OF steps] by auto
  then have "core_step ps ?c1 (?c1\<lparr>known := insert (p, s) (known ?c1)\<rparr>)" by (rule core_step.Know)
  then show ?case using steps by simp
qed simp

text \<open>A value chosen at a ballot its own voter accepted is the one in the voter's log.\<close>

lemma voted_settled:
  assumes inv: "core_inv ps c" and "(p, b, s, w) \<in> vs c" and ch: "chosen ps c s b w"
  shows "\<exists>e. lg c p s = Some e \<and> settled_entry ps c s e"
proof -
  obtain e where e: "lg c p s = Some e" "b \<le> EBallot e \<or> settled_entry ps c s e"
    using core_invD(5) [OF inv assms(2)] by blast
  have "Command e = w" if "b \<le> EBallot e"
    using planned_chosen [OF inv _ ch that] core_invD(6) [OF inv e(1)] by blast
  then show ?thesis using e ch unfolding settled_entry_def by blast
qed

lemma accept_chosen:
  assumes inv: "sys_inv app sm0 ps \<sigma>" and C: "call_ok ps (abs_core \<sigma>) C" "round C = RAccept k rest"
    and ans: "\<And>a. a \<in> set rs \<Longrightarrow> answer_ok ps (abs_core \<sigma>) C a (f a)" and "distinct rs" "distinct ps"
    and t: "tally (MBallot (request C)) 1 (map f rs) = Inr t" "majority (length ps) \<le> t"
  shows "chosen ps (abs_core \<sigma>) (MSlot (request C)) (MBallot (request C)) (MCommand (request C))"
proof -
  have p: "caller C \<in> set ps" using C by (simp add: call_ok_def)
  have rs: "set rs \<subseteq> set ps - {caller C}" using ans by (auto simp: answer_ok_def)
  have "is_majority ps (insert (caller C) (set (filter (\<lambda>a. OK (f a)) rs)))"
    using answers_majority [OF p rs assms(5,6), of "\<lambda>a. OK (f a)"] tally_count [OF t(1)] t(2) by simp
  moreover have "(a, MBallot (request C), MSlot (request C), MCommand (request C)) \<in> vs (abs_core \<sigma>)"
    if "a \<in> insert (caller C) (set (filter (\<lambda>a. OK (f a)) rs))" for a
    using that C ans [of a] by (auto simp: call_ok_def answer_ok_def)
  ultimately show ?thesis unfolding chosen_def by blast
qed

lemma inv_mark:
  assumes inv: "sys_inv app sm0 ps \<sigma>" and p: "p \<in> set ps"
    and n: "n = markCommitted ss (rnode \<sigma> p)"
    and ss: "\<And>s. s \<in> set ss \<Longrightarrow> \<exists>e. entries (nlog (rnode \<sigma> p)) s = Some e \<and> settled_entry ps (abs_core \<sigma>) s e"
  shows "sys_inv app sm0 ps (upd_node p n {} {} (marked p n) \<sigma>)"
proof -
  have old: "node_ok app sm0 ps (abs_core \<sigma>) (elected \<sigma>) p (rnode \<sigma> p)" by (rule sys_invD(2) [OF inv p])
  then have "knows \<sigma> \<union> marked p n = knows \<sigma> \<union> Pair p ` set ss"
    by (auto simp: n marked_def markCommitted_def node_ok_def)
  then have "abs_core (upd_node p n {} {} (marked p n) \<sigma>)
      = (abs_core \<sigma>)\<lparr>known := known (abs_core \<sigma>) \<union> Pair p ` set ss\<rparr>"
    by (simp add: abs_core_upd n markCommitted_def fun_upd_idem)
  then have "core_steps ps (abs_core \<sigma>) (abs_core (upd_node p n {} {} (marked p n) \<sigma>))"
    using know_steps [of ss "abs_core \<sigma>" p ps] ss by simp
  then show ?thesis
    using old by (intro inv_upd_keep [OF inv p]) (auto simp: n marked_def markCommitted_def node_ok_def)
qed

lemma inv_finish_accept:
  assumes inv: "sys_inv app sm0 ps \<sigma>" and C: "call_ok ps (abs_core \<sigma>) C" "round C = RAccept k rest"
    and ans: "\<And>a. a \<in> set rs \<Longrightarrow> answer_ok ps (abs_core \<sigma>) C a (f a)" and "distinct rs" "distinct ps"
  shows "sys_inv app sm0 ps (finish_accept v k rest C (map f rs) \<sigma>)"
proof -
  let ?p = "caller C" and ?m = "request C"
  have p: "?p \<in> set ps" using C by (simp add: call_ok_def)
  obtain n err where h: "replicate_finish v ?m (map f rs) (rnode \<sigma> ?p) = (n, err)" by fastforce
  show ?thesis
  proof (cases err)
    case (Some x)
    then have "quiet (rnode \<sigma> ?p) n"
      using h by (auto simp: replicate_finish_def split: sum.splits if_splits)
    then have "sys_inv app sm0 ps (upd_node ?p (if k = Proposal then propose_fail v (MSlot ?m) n else n) {} {} {} \<sigma>)"
      by (intro inv_quiet [OF inv p]) (auto intro: quiet_trans)
    then show ?thesis using h Some by (simp add: finish_accept_def Let_def)
  next
    case None
    then obtain t where t: "tally (MBallot ?m) 1 (map f rs) = Inr t" "node_quorum (rnode \<sigma> ?p) \<le> t"
      and n: "n = markCommitted [MSlot ?m] (rnode \<sigma> ?p)"
      using h by (auto simp: replicate_finish_def split: sum.splits if_splits)
    have "majority (length ps) \<le> t"
      using t(2) sys_invD(2) [OF inv p] by (simp add: node_quorum_def node_ok_def)
    then have ch: "chosen ps (abs_core \<sigma>) (MSlot ?m) (MBallot ?m) (MCommand ?m)"
      using accept_chosen [OF inv C ans assms(5,6) t(1)] by blast
    have "\<exists>e. lg (abs_core \<sigma>) ?p (MSlot ?m) = Some e \<and> settled_entry ps (abs_core \<sigma>) (MSlot ?m) e"
      using voted_settled [OF sys_invD(1) [OF inv] _ ch] C by (simp add: call_ok_def)
    then have inv1: "sys_inv app sm0 ps (upd_node ?p n {} {} (marked ?p n) \<sigma>)"
      by (intro inv_mark [OF inv p n]) simp
    have "todo_ok (abs_core (upd_node ?p n {} {} (marked ?p n) \<sigma>)) (MBallot ?m) rest"
      using C by (simp add: call_ok_def todo_ok_def abs_core_upd)
    then show ?thesis
      using inv1 inv_add_job [OF inv1, of "\<lparr>worker = ?p, jkind = k, jballot = MBallot ?m, todo = rest\<rparr>"] p h None
      by (simp add: finish_accept_def Let_def)
  qed
qed

section \<open>Catching up\<close>

lemma chosen_map_mem: "chosen_map es s = Some e \<Longrightarrow> e \<in> set es \<and> Slot e = s"
proof (induction es rule: rev_induct)
  case (snoc d es)
  then show ?case by (cases "Slot d = s") (simp_all add: chosen_map_def)
qed (simp add: chosen_map_def)

text \<open>The entry held for a slot agrees with the one the leader sent for it.\<close>

definition adopted :: "(slot \<rightharpoonup> entry) \<Rightarrow> (slot \<rightharpoonup> entry) \<Rightarrow> slot \<Rightarrow> bool" where
  "adopted cm es s \<longleftrightarrow>
     (\<exists>e d. cm s = Some e \<and> es s = Some d \<and> EBallot d = EBallot e \<and> Command d = Command e)"

lemma catchUp_slot_spec:
  assumes "catchUp_slot v e s n = (n', err)" and "Slot e = s" and "cm s = Some e" and "log_wf (nlog n)"
  shows "\<exists>l. n' = n\<lparr>nlog := l\<rparr> \<and> promised l = promised (nlog n) \<and> log_wf l \<and>
    (entries l = entries (nlog n) \<or> entries l = (entries (nlog n))(s \<mapsto> e)) \<and>
    (err = None \<longrightarrow> adopted cm (entries l) s)"
proof (cases "n' = n \<and> err = None \<and> adopted cm (entries (nlog n)) s")
  case True
  then show ?thesis using assms(4) by (intro exI [of _ "nlog n"]) simp
next
  case False
  then have "node_accept v e n = (n', err)"
    using assms(1,3) by (auto simp: catchUp_slot_def adopted_def Get_def split: option.splits if_splits)
  then obtain l where "n' = n\<lparr>nlog := l\<rparr>" "promised l = promised (nlog n)" "log_wf l"
    "entries l = (if err = None then (entries (nlog n))(Slot e \<mapsto> e) else entries (nlog n))"
    using assms(4) by (auto elim: node_acceptE)
  then show ?thesis using assms(2,3) by (intro exI [of _ l]) (simp add: adopted_def)
qed

text \<open>Replacing the log of one replica in the abstract state.\<close>

definition set_lg :: "NodeID \<Rightarrow> (slot \<rightharpoonup> entry) \<Rightarrow> core \<Rightarrow> core" where
  "set_lg p es c = c\<lparr>lg := (lg c)(p := es)\<rparr>"

lemma set_lg_simps [simp]:
  "lg (set_lg p es c) p = es" "plan (set_lg p es c) = plan c"
  "set_lg p es' (set_lg p es c) = set_lg p es' c" "set_lg p (lg c p) c = c"
  by (simp_all add: set_lg_def)

lemma set_lg_same: "lg c p = es \<Longrightarrow> set_lg p es c = c"
  by auto

lemma catchUp_loop_spec:
  assumes "catchUp_loop v cm ss n = (n', slots)" and cm: "\<And>s e. cm s = Some e \<Longrightarrow> Slot e = s"
    and "log_wf (nlog n)" and "lg c p = entries (nlog n)"
    and ok: "\<And>s e. s \<in> set ss \<Longrightarrow> cm s = Some e \<Longrightarrow>
      settled_entry ps c s e \<and> (EBallot e, s, Command e) \<in> plan c"
  shows "\<exists>l. n' = n\<lparr>nlog := l\<rparr> \<and> promised l = promised (nlog n) \<and> log_wf l \<and> set slots \<subseteq> set ss \<and>
    core_steps ps c (set_lg p (entries l) c) \<and>
    (\<forall>s. s \<in> set slots \<or> adopted cm (entries (nlog n)) s \<longrightarrow> adopted cm (entries l) s)"
  using assms(1,3-5)
proof (induction ss arbitrary: n slots c)
  case Nil
  then show ?case by (intro exI [of _ "nlog n"]) (simp add: set_lg_same)
next
  case (Cons s ss)
  show ?case
  proof (cases "cm s")
    case None
    then show ?thesis using Cons.prems by (intro exI [of _ "nlog n"]) (simp add: set_lg_same)
  next
    case (Some e)
    obtain n1 err where h: "catchUp_slot v e s n = (n1, err)" by fastforce
    obtain l1 where l1: "n1 = n\<lparr>nlog := l1\<rparr>" "promised l1 = promised (nlog n)" "log_wf l1"
      and es: "entries l1 = entries (nlog n) \<or> entries l1 = (entries (nlog n))(s \<mapsto> e)"
      and ad: "err = None \<longrightarrow> adopted cm (entries l1) s"
      using catchUp_slot_spec [of v e s n n1 err cm, OF h cm [OF Some] Some Cons.prems(2)] by blast
    let ?c1 = "set_lg p (entries l1) c"
    have "core_step ps c (set_lg p ((lg c p)(s \<mapsto> e)) c)"
      using core_step.Learn [of ps c e p] Cons.prems(4) [of s e] Some cm [OF Some] by (simp add: set_lg_def)
    then have steps1: "core_steps ps c ?c1"
      using es set_lg_same [OF Cons.prems(3)] unfolding Cons.prems(3) by (metis r_into_rtranclp rtranclp.rtrancl_refl)
    have keep: "adopted cm (entries l1) t" if "adopted cm (entries (nlog n)) t" for t
      using that es Some by (auto simp: adopted_def)
    show ?thesis
    proof (cases err)
      case (Some x)
      then show ?thesis
        using Cons.prems(1) \<open>cm s = Some e\<close> h l1 steps1 keep by (intro exI [of _ l1]) simp
    next
      case None
      obtain n2 slots2 where r: "catchUp_loop v cm ss n1 = (n2, slots2)" by fastforce
      have out: "n' = n2" "slots = s # slots2"
        using Cons.prems(1) \<open>cm s = Some e\<close> h None r by simp_all
      have ok1: "settled_entry ps ?c1 t d \<and> (EBallot d, t, Command d) \<in> plan ?c1"
        if "t \<in> set ss" "cm t = Some d" for t d
        using Cons.prems(4) [of t d] that steps_settled [OF steps1] by simp
      have w: "catchUp_loop v cm ss n1 = (n', slots2)" "log_wf (nlog n1)" "lg ?c1 p = entries (nlog n1)"
        using r out(1) l1 by simp_all
      obtain l where l: "n' = n1\<lparr>nlog := l\<rparr>" "promised l = promised (nlog n1)" "log_wf l"
        "set slots2 \<subseteq> set ss" "core_steps ps ?c1 (set_lg p (entries l) ?c1)"
        "\<forall>s. s \<in> set slots2 \<or> adopted cm (entries (nlog n1)) s \<longrightarrow> adopted cm (entries l) s"
        using Cons.IH [OF w ok1] by blast
      have "core_steps ps c (set_lg p (entries l) c)"
        using rtranclp_trans [OF steps1 l(5)] by simp
      then show ?thesis
        using l(1-4,6) l1(1,2) out ad None keep by (intro exI [of _ l]) (simp, blast)
    qed
  qed
qed

lemma catchUp_finish_cases:
  "catchUp_finish v reply first ci n = n\<lparr>catchingUp := False\<rparr> \<or>
   (\<exists>r n1 slots. reply = Some r \<and> OK r \<and>
      catchUp_loop v (chosen_map (Entries r)) [first..<Suc ci] n = (n1, slots) \<and>
      catchUp_finish v reply first ci n = (markCommitted slots n1)\<lparr>catchingUp := False\<rparr>)"
  by (auto simp: catchUp_finish_def markCommitted_def split: option.splits prod.splits)

text \<open>What the leader answered is settled, so taking it over is a sequence of protocol steps.\<close>

lemma catchUp_steps:
  assumes inv: "sys_inv app sm0 ps \<sigma>" and p: "p \<in> set ps"
    and loop: "catchUp_loop v (chosen_map es) ss (rnode \<sigma> p) = (n1, slots)"
    and ok: "\<And>e. e \<in> set es \<Longrightarrow> Slot e \<in> set ss \<Longrightarrow>
      settled_entry ps (abs_core \<sigma>) (Slot e) e \<and> (EBallot e, Slot e, Command e) \<in> planned \<sigma>"
    and n: "n = (markCommitted slots n1)\<lparr>catchingUp := False\<rparr>"
  shows "core_steps ps (abs_core \<sigma>) (abs_core (upd_node p n {} {} (marked p n) \<sigma>)) \<and>
    (\<exists>l. n1 = (rnode \<sigma> p)\<lparr>nlog := l\<rparr> \<and> log_wf l)"
proof -
  let ?o = "rnode \<sigma> p" and ?cm = "chosen_map es" and ?c = "abs_core \<sigma>"
  have old: "log_wf (nlog ?o)" "\<forall>s \<in> set (committed ?o). (p, s) \<in> knows \<sigma>"
    using sys_invD(2) [OF inv p] by (simp_all add: node_ok_def)
  have cm: "Slot e = s" if "?cm s = Some e" for s e using chosen_map_mem [OF that] by blast
  have ok': "settled_entry ps ?c s e \<and> (EBallot e, s, Command e) \<in> plan ?c"
    if "s \<in> set ss" "?cm s = Some e" for s e
    using ok [of e] that chosen_map_mem [OF that(2)] by simp
  obtain l where l: "n1 = ?o\<lparr>nlog := l\<rparr>" "promised l = promised (nlog ?o)" "log_wf l"
    "core_steps ps ?c (set_lg p (entries l) ?c)"
    and ad: "set slots \<subseteq> set ss" "\<forall>s. s \<in> set slots \<or> adopted ?cm (entries (nlog ?o)) s \<longrightarrow> adopted ?cm (entries l) s"
    using catchUp_loop_spec [OF loop cm old(1) _ ok', of p] by (metis abs_core_sel(2))
  let ?c1 = "set_lg p (entries l) ?c"
  have "\<exists>e. lg ?c1 p s = Some e \<and> settled_entry ps ?c1 s e" if sl: "s \<in> set slots" for s
  proof -
    obtain e d where e: "?cm s = Some e" "entries l s = Some d" "EBallot d = EBallot e" "Command d = Command e"
      using ad(2) sl unfolding adopted_def by blast
    then have "settled_entry ps ?c1 s e" using ok' ad(1) sl steps_settled [OF l(4)] by blast
    then show ?thesis using e by (simp add: settled_entry_def)
  qed
  then have k: "core_steps ps ?c1 (?c1\<lparr>known := known ?c1 \<union> Pair p ` set slots\<rparr>)" by (rule know_steps)
  have "knows \<sigma> \<union> marked p n = knows \<sigma> \<union> Pair p ` set slots"
    using old(2) by (auto simp: n l(1) marked_def markCommitted_def)
  then have "abs_core (upd_node p n {} {} (marked p n) \<sigma>) = ?c1\<lparr>known := known ?c1 \<union> Pair p ` set slots\<rparr>"
    using l(2) by (simp add: abs_core_upd n l(1) markCommitted_def set_lg_def)
      (simp add: abs_core_def fun_upd_idem)
  then show ?thesis using rtranclp_trans [OF l(4) k] l(1,3) by auto
qed

lemma inv_finish_catchUp:
  assumes inv: "sys_inv app sm0 ps \<sigma>" and C: "call_ok ps (abs_core \<sigma>) C" "round C = RCatchUp src first ci"
    and ans: "\<And>r. r \<in> set replies \<Longrightarrow> \<exists>a. answer_ok ps (abs_core \<sigma>) C a r"
  shows "sys_inv app sm0 ps (finish_catchUp v first ci C replies \<sigma>)"
proof -
  let ?p = "caller C" and ?o = "rnode \<sigma> (caller C)"
  define reply where "reply = (case replies of [] \<Rightarrow> None | r # _ \<Rightarrow> Some r)"
  define n where "n = catchUp_finish v reply first ci ?o"
  have p: "?p \<in> set ps" using C by (simp add: call_ok_def)
  have "sys_inv app sm0 ps (upd_node ?p n {} {} (marked ?p n) \<sigma>)"
    using catchUp_finish_cases [of v reply first ci ?o]
  proof (elim disjE exE conjE)
    assume "catchUp_finish v reply first ci ?o = ?o\<lparr>catchingUp := False\<rparr>"
    then have n': "quiet ?o n" "knows \<sigma> \<union> marked ?p n = knows \<sigma>"
      using sys_invD(2) [OF inv p] by (auto simp: n_def quiet_def marked_def node_ok_def)
    then have "upd_node ?p n {} {} (marked ?p n) \<sigma> = upd_node ?p n {} {} {} \<sigma>" by (simp add: upd_node_def)
    then show ?thesis using inv_quiet [OF inv p n'(1)] by simp
  next
    fix r :: message and n1 slots
    assume r: "reply = Some r" "OK r"
      and loop: "catchUp_loop v (chosen_map (Entries r)) [first..<Suc ci] ?o = (n1, slots)"
      and fin: "catchUp_finish v reply first ci ?o = (markCommitted slots n1)\<lparr>catchingUp := False\<rparr>"
    have "r \<in> set replies" using r(1) by (auto simp: reply_def split: list.splits)
    then obtain a where a: "answer_ok ps (abs_core \<sigma>) C a r" using ans by blast
    have ok: "settled_entry ps (abs_core \<sigma>) (Slot e) e \<and> (EBallot e, Slot e, Command e) \<in> planned \<sigma>"
      if "e \<in> set (Entries r)" "Slot e \<in> set [first..<Suc ci]" for e
      using that a r(2) C(2) by (auto simp: answer_ok_def)
    have "core_steps ps (abs_core \<sigma>) (abs_core (upd_node ?p n {} {} (marked ?p n) \<sigma>))"
      and "\<exists>l. n1 = ?o\<lparr>nlog := l\<rparr> \<and> log_wf l"
      using catchUp_steps [OF inv p loop ok] fin n_def by simp_all
    then show ?thesis
      by (elim exE conjE, intro inv_upd_keep [OF inv p])
        (simp_all add: n_def fin marked_def markCommitted_def)
  qed
  then show ?thesis by (simp add: finish_catchUp_def Let_def n_def reply_def)
qed

section \<open>The end of a round, and the other steps\<close>

lemma quiet_broadcastCommit: "quiet n (broadcastCommit_finish v req replies n)"
  by (auto simp: broadcastCommit_finish_def quiet_def [of n "n\<lparr>lastQuorum := now v\<rparr>"] split: sum.splits)

lemma inv_finish:
  assumes inv: "sys_inv app sm0 ps \<sigma>" and "distinct ps" and d: "disciplined v (EFinish i rs) \<sigma>"
    and e: "exec_finish ps v i rs \<sigma> = Some \<sigma>'"
  shows "sys_inv app sm0 ps \<sigma>'"
proof -
  obtain C where C: "calls \<sigma> i = Some C" and rs: "distinct rs" "\<forall>a \<in> set rs. answers \<sigma> (i, a) \<noteq> None"
    using e by (auto simp: exec_finish_def list_ex_iff split: option.splits if_splits)
  define f where "f = (\<lambda>a. the (answers \<sigma> (i, a)))"
  let ?\<sigma>1 = "drop_call i \<sigma>"
  have inv1: "sys_inv app sm0 ps ?\<sigma>1" by (rule inv_drop_call [OF inv])
  have co: "call_ok ps (abs_core ?\<sigma>1) C" and p: "caller C \<in> set ps"
    and ans: "\<And>a. a \<in> set rs \<Longrightarrow> answer_ok ps (abs_core ?\<sigma>1) C a (f a)"
    using sys_invD(3) [OF inv] C rs(2) by (auto simp: calls_ok_def call_ok_def f_def)
  have \<sigma>': "\<sigma>' = (case round C of
      RPing \<Rightarrow> finish_ping ps v C (map f rs) ?\<sigma>1
    | RPrepare \<Rightarrow> finish_prepare v C (map f rs) ?\<sigma>1
    | RAccept k rest \<Rightarrow> finish_accept v k rest C (map f rs) ?\<sigma>1
    | RCommit \<Rightarrow> upd_node (caller C)
        (broadcastCommit_finish v (request C) (map f rs) (rnode ?\<sigma>1 (caller C))) {} {} {} ?\<sigma>1
    | RCatchUp src first ci \<Rightarrow> finish_catchUp v first ci C (map f rs) ?\<sigma>1)"
    using e C rs unfolding f_def
    by (cases "round C") (simp_all add: exec_finish_def Let_def list_ex_iff split: if_splits)
  show ?thesis
  proof (cases "round C")
    case RPing
    then show ?thesis using \<sigma>' inv_finish_ping [OF inv1 p] by simp
  next
    case RPrepare
    then have cb: "campaign_ballot \<sigma> i (MBallot (request C))" using C by (simp add: campaign_ballot_def)
    have "MBallot (request C) \<notin> elected ?\<sigma>1" "\<not> campaign_ballot ?\<sigma>1 j (MBallot (request C))" for j
      using sys_invD(4) [OF inv] cb by (auto simp: ballots_ok_def)
    moreover have "promised (nlog (rnode ?\<sigma>1 (caller C))) \<le>
        promised (nlog (fst (campaign_finish v (request C) (map f rs) (rnode ?\<sigma>1 (caller C)))))"
      using d C RPrepare by (simp add: f_def Let_def)
    ultimately show ?thesis
      using \<sigma>' inv_finish_prepare [OF inv1 co RPrepare _ _ ans rs(1) assms(2)] RPrepare by simp
  next
    case (RAccept k rest)
    then show ?thesis using \<sigma>' inv_finish_accept [OF inv1 co RAccept ans rs(1) assms(2)] by simp
  next
    case RCommit
    then show ?thesis using \<sigma>' inv_quiet [OF inv1 p quiet_broadcastCommit] by simp
  next
    case (RCatchUp src first ci)
    have a: "\<exists>a. answer_ok ps (abs_core ?\<sigma>1) C a r" if "r \<in> set (map f rs)" for r using that ans by auto
    have "sys_inv app sm0 ps (finish_catchUp v first ci C (map f rs) ?\<sigma>1)"
      by (rule inv_finish_catchUp [OF inv1 co RCatchUp a])
    then show ?thesis using \<sigma>' RCatchUp by simp
  qed
qed

lemma inv_propose:
  assumes inv: "sys_inv app sm0 ps \<sigma>" and e: "exec_propose ps p cmd \<sigma> = Some \<sigma>'"
  shows "sys_inv app sm0 ps \<sigma>'"
proof -
  let ?o = "rnode \<sigma> p" and ?\<sigma>1 = "submit cmd \<sigma>"
  let ?b = "nballot ?o" and ?s = "nextSlot ?o"
  define n where "n = ?o\<lparr>nextSlot := nextSlot ?o + 1, results := nextSlot ?o # results ?o\<rparr>"
  have p: "p \<in> set ps" and lead: "role ?o = Leader"
    and \<sigma>': "\<sigma>' = add_job \<lparr>worker = p, jkind = Proposal, jballot = ?b, todo = [(?s, cmd)]\<rparr>
        (upd_node p n {} {(?b, ?s, cmd)} {} ?\<sigma>1)"
    using e by (auto simp: exec_propose_def propose_begin_def n_def Let_def split: if_splits prod.splits sum.splits)
  have l: "leader_ok ps (abs_core \<sigma>) (elected \<sigma>) ?o" and wf: "log_wf (nlog ?o)" "nid ?o = p"
    using sys_invD(2) [OF inv p] lead by (simp_all add: node_ok_def)
  have inv1: "sys_inv app sm0 ps ?\<sigma>1" by (rule inv_submit [OF inv])
  have ro [simp]: "rnode ?\<sigma>1 = rnode \<sigma>" by simp
  have "core_step ps (abs_core \<sigma>) ((abs_core \<sigma>)\<lparr>plan := insert (?b, ?s, cmd) (plan (abs_core \<sigma>))\<rparr>)"
    using l by (intro core_step.Plan) (auto simp: leader_ok_def)
  moreover have "abs_core (upd_node p n {} {(?b, ?s, cmd)} {} ?\<sigma>1)
      = (abs_core \<sigma>)\<lparr>plan := insert (?b, ?s, cmd) (plan (abs_core \<sigma>))\<rparr>"
    by (simp add: abs_core_upd n_def fun_upd_idem) (simp add: submit_def abs_core_def)
  ultimately have steps: "core_steps ps (abs_core ?\<sigma>1) (abs_core (upd_node p n {} {(?b, ?s, cmd)} {} ?\<sigma>1))"
    by auto
  have "node_ok app sm0 ps (abs_core (upd_node p n {} {(?b, ?s, cmd)} {} ?\<sigma>1)) (elected ?\<sigma>1) p n"
    by (rule node_ok_keep [OF inv1 p steps]) (use wf lead in \<open>simp_all add: n_def\<close>)
  then have "sys_inv app sm0 ps (upd_node p n {} {(?b, ?s, cmd)} {} ?\<sigma>1)"
    using l wf by (intro inv_upd_node [OF inv1 steps]) (simp_all add: leader_ok_def)
  then show ?thesis
    unfolding \<sigma>' using p by (intro inv_add_job) (simp_all add: todo_ok_def)
qed

lemma replicate_beginE:
  assumes "replicate_begin v s cmd n = (n', res)"
  obtains (fails) err where "res = Inl err" "quiet n n'"
  | (sends) l where "role n = Leader" "n' = n\<lparr>nlog := l\<rparr>" "promised l = promised (nlog n)"
    "entries l = (entries (nlog n))(s \<mapsto> \<lparr>Slot = s, EBallot = nballot n, Command = cmd\<rparr>)"
    "log_wf (nlog n) \<Longrightarrow> log_wf l"
    "res = Inr ((new_message KindAccept (nid n))\<lparr>MBallot := nballot n, MSlot := s, MCommand := cmd\<rparr>)"
proof (cases "role n = Leader")
  case False
  then show ?thesis using fails assms by (auto simp: replicate_begin_def)
next
  case True
  let ?e = "\<lparr>Slot = s, EBallot = nballot n, Command = cmd\<rparr>"
  obtain n1 err where h: "node_accept v ?e n = (n1, err)" by fastforce
  show ?thesis
  proof (cases err)
    case None
    show ?thesis
      by (rule node_acceptE [OF h]) (use assms True h None in \<open>auto intro!: sends simp: replicate_begin_def Let_def\<close>)
  next
    case (Some x)
    then show ?thesis
      using fails assms True h quiet_accept_fails [of v ?e n n1 x] by (auto simp: replicate_begin_def Let_def)
  qed
qed

lemma inv_replicate:
  assumes inv: "sys_inv app sm0 ps \<sigma>" and d: "disciplined v (EReplicate j) \<sigma>"
    and e: "exec_replicate ps v j \<sigma> = Some \<sigma>'"
  shows "sys_inv app sm0 ps \<sigma>'"
proof -
  let ?\<sigma>1 = "drop_job j \<sigma>"
  obtain J where J: "jobs \<sigma> j = Some J" using e by (auto simp: exec_replicate_def split: option.splits)
  have p: "worker J \<in> set ps" and todo: "todo_ok (abs_core \<sigma>) (jballot J) (todo J)"
    using sys_invD(5) [OF inv] J unfolding net_ok_def by blast+
  have inv1: "sys_inv app sm0 ps ?\<sigma>1" by (rule inv_drop_job [OF inv])
  show ?thesis
  proof (cases "todo J")
    case Nil
    then show ?thesis using e J inv1 by (simp add: exec_replicate_def Let_def)
  next
    case (Cons x rest)
    obtain s cmd where x: "x = (s, cmd)" by (cases x)
    let ?p = "worker J" and ?o = "rnode \<sigma> (worker J)"
    obtain n res where h: "replicate_begin v s cmd ?o = (n, res)" by fastforce
    show ?thesis
      using h
    proof (cases rule: replicate_beginE)
      case (fails err)
      then have "quiet (rnode ?\<sigma>1 ?p) (if jkind J = Proposal then propose_fail v s n else n)"
        using quiet_trans [OF _ quiet_propose_fail] by auto
      from inv_quiet [OF inv1 p this] show ?thesis
        using e J Cons x h fails(1) by (simp add: exec_replicate_def Let_def)
    next
      case (sends l)
      let ?b = "nballot ?o" and ?V = "{(?p, nballot ?o, s, cmd)}"
      define m where "m = (new_message KindAccept ?p)\<lparr>MBallot := ?b, MSlot := s, MCommand := cmd\<rparr>"
      have disc: "?b = jballot J" "promised (nlog ?o) = ?b" "no_higher ?o s ?b"
        using d J Cons x sends(1) by (auto simp: Let_def)
      have plan: "(?b, s, cmd) \<in> planned \<sigma>" "todo_ok (abs_core \<sigma>) ?b rest"
        using todo Cons x disc(1) by (simp_all add: todo_ok_def)
      have old: "nid ?o = ?p" "log_wf (nlog ?o)" using sys_invD(2) [OF inv p] by (simp_all add: node_ok_def)
      have steps: "core_steps ps (abs_core ?\<sigma>1) (abs_core (upd_node ?p n ?V {} {} ?\<sigma>1))"
        by (rule vote_steps) (use plan disc sends in \<open>simp_all\<close>)
      have inv2: "sys_inv app sm0 ps (upd_node ?p n ?V {} {} ?\<sigma>1)"
        by (rule inv_upd_keep [OF inv1 p steps]) (use sends old in simp_all)
      have "sys_inv app sm0 ps (open_call ?p (RAccept (jkind J) rest) m (others ps ?p) (upd_node ?p n ?V {} {} ?\<sigma>1))"
        using p plan
        by (intro inv_open_call [OF inv2])
          (auto simp: m_def call_ok_def msg_ok_def others_def todo_ok_def abs_core_upd)
      then show ?thesis
        using e J Cons x h sends(6) old(1) by (simp add: exec_replicate_def Let_def m_def)
    qed
  qed
qed

lemma inv_heartbeat:
  assumes inv: "sys_inv app sm0 ps \<sigma>" and e: "exec_heartbeat ps p \<sigma> = Some \<sigma>'"
  shows "sys_inv app sm0 ps \<sigma>'"
proof -
  have p: "p \<in> set ps"
    and \<sigma>': "\<sigma>' = open_call p RCommit (commit_request (rnode \<sigma> p)) (others ps p) \<sigma>"
    using e by (auto simp: exec_heartbeat_def split: if_splits)
  have n: "nid (rnode \<sigma> p) = p" "\<forall>s. 0 < s \<and> s \<le> appliedIndex (rnode \<sigma> p) \<longrightarrow> (p, s) \<in> knows \<sigma>"
    using sys_invD(2) [OF inv p] by (simp_all add: node_ok_def)
  show ?thesis
    unfolding \<sigma>'
    by (rule inv_open_call [OF inv])
      (use p n in \<open>auto simp: call_ok_def msg_ok_def commit_request_def others_def\<close>)
qed

lemma apply_range_Suc:
  "apply_range app l 0 (Suc k) st = fst (apply_entry app (Suc k) (the (Get l (Suc k))) (apply_range app l 0 k st))"
  by (simp add: apply_range_def)

lemma inv_apply:
  assumes inv: "sys_inv app sm0 ps \<sigma>" and e: "exec_apply app ps p \<sigma> = Some \<sigma>'"
  shows "sys_inv app sm0 ps \<sigma>'"
proof -
  let ?o = "rnode \<sigma> p" and ?k = "Suc (appliedIndex (rnode \<sigma> p))"
  obtain n out where p: "p \<in> set ps" and h: "apply_one app ?o = Some (n, out)"
    and \<sigma>': "\<sigma>' = note_applied p (appliedIndex n) (Command (the (Get (nlog n) (appliedIndex n))))
        (upd_node p n {} {} {} \<sigma>)"
    using e by (auto simp: exec_apply_def Let_def split: if_splits option.splits)
  obtain en where k: "?k \<in> set (committed ?o)" "Get (nlog ?o) ?k = Some en"
    and n: "n = ?o\<lparr>sm := fst (apply_entry app ?k en (sm ?o)), appliedIndex := ?k,
                results := removeAll ?k (results ?o)\<rparr>"
    using h by (rule apply_one_SomeE)
  have old: "node_ok app sm0 ps (abs_core \<sigma>) (elected \<sigma>) p ?o" by (rule sys_invD(2) [OF inv p])
  have kn: "(p, ?k) \<in> knows \<sigma>" using old k(1) by (simp add: node_ok_def)
  have abs: "abs_core (upd_node p n {} {} {} \<sigma>) = abs_core \<sigma>"
    by (simp add: abs_core_upd n fun_upd_idem)
  have "(p, s) \<in> knows \<sigma>" if "0 < s" "s \<le> ?k" for s
    using old kn that by (cases "s = ?k") (auto simp: node_ok_def)
  then have "node_ok app sm0 ps (abs_core \<sigma>) (elected \<sigma>) p n"
    using old k by (simp add: node_ok_def n apply_range_Suc leader_ok_def)
  then have inv1: "sys_inv app sm0 ps (upd_node p n {} {} {} \<sigma>)"
    by (intro inv_upd_node [OF inv]) (simp_all add: abs)
  obtain b where "chosen ps (abs_core \<sigma>) ?k b (Command en)"
    using core_invD(7) [OF sys_invD(1) [OF inv], of p ?k] kn k(2) by (auto simp: settled_entry_def Get_def)
  then have "chosen ps (abs_core (upd_node p n {} {} {} \<sigma>)) (appliedIndex n) b
      (Command (the (Get (nlog n) (appliedIndex n))))"
    using k(2) unfolding abs by (simp add: n)
  then show ?thesis unfolding \<sigma>' by (rule inv_note_applied [OF inv1])
qed

lemma inv_restart:
  assumes inv: "sys_inv app sm0 ps \<sigma>" and e: "exec_restart sm0 ps v p \<sigma> = Some \<sigma>'"
  shows "sys_inv app sm0 ps \<sigma>'"
proof -
  define n where "n = NewNode v p ps (nlog (rnode \<sigma> p)) sm0 (cfg (rnode \<sigma> p))"
  have p: "p \<in> set ps" using e by (auto simp: exec_restart_def split: if_splits)
  have abs: "abs_core (upd_node p n {} {} {} \<sigma>) = abs_core \<sigma>"
    by (simp add: abs_core_upd n_def NewNode_def fun_upd_idem)
  have "node_ok app sm0 ps (abs_core \<sigma>) (elected \<sigma>) p n"
    using sys_invD(2) [OF inv p] by (simp add: node_ok_def n_def NewNode_def apply_range_def)
  then have "sys_inv app sm0 ps (upd_node p n {} {} {} \<sigma>)"
    by (intro inv_upd_node [OF inv]) (simp_all add: abs)
  moreover define cs where "cs = (\<lambda>i. case calls \<sigma> i of None \<Rightarrow> None
      | Some C \<Rightarrow> if caller C = p then None else Some C)"
  moreover define js where "js = (\<lambda>j. case jobs \<sigma> j of None \<Rightarrow> None
      | Some J \<Rightarrow> if worker J = p then None else Some J)"
  moreover have "cs \<subseteq>\<^sub>m calls \<sigma>" "js \<subseteq>\<^sub>m jobs \<sigma>"
    by (auto simp: cs_def js_def map_le_def split: option.splits if_splits)
  ultimately have "sys_inv app sm0 ps ((upd_node p n {} {} {} \<sigma>)\<lparr>calls := cs, jobs := js\<rparr>)"
    using inv_forget by (metis upd_node_sel(3,5))
  then show ?thesis
    using e p by (simp add: exec_restart_def Let_def n_def cs_def js_def)
qed

lemma inv_init: "sys_inv app sm0 ps (init_sys sm0 ps v c)"
  by (simp add: sys_inv_def core_inv_def votes_logged_def calls_ok_def ballots_ok_def net_ok_def history_ok_def
      campaign_ballot_def node_ok_def init_sys_def NewNode_def NewMemLog_def log_wf_def apply_range_def)
    (blast dest: not_gr_zero [THEN iffD1])?

lemma exec_inv:
  assumes "sys_inv app sm0 ps \<sigma>" and "distinct ps" and "disciplined v ev \<sigma>"
    and "exec app sm0 ps v ev \<sigma> = Some \<sigma>'"
  shows "sys_inv app sm0 ps \<sigma>'"
  using assms
  by (cases ev)
    (auto intro: inv_probe inv_deliver inv_finish inv_propose inv_replicate inv_heartbeat inv_apply inv_restart
      simp del: disciplined.simps)

lemma reachable_inv: "reachable app sm0 ps \<sigma> \<Longrightarrow> distinct ps \<Longrightarrow> sys_inv app sm0 ps \<sigma>"
  by (induction rule: reachable.induct) (auto intro: inv_init exec_inv)

section \<open>Agreement\<close>

lemma history_applied: "history_ok ps \<sigma> \<Longrightarrow> (p, s, w) \<in> applied \<sigma> \<Longrightarrow> \<exists>b. chosen ps (abs_core \<sigma>) s b w"
  by (simp add: history_ok_def)


lemma apply_range_split:
  assumes "i \<le> k"
  shows "apply_range app l 0 k st = apply_range app l i k (apply_range app l 0 i st)"
proof -
  have k: "Suc i + (k - i) = Suc k" using assms by simp
  have "[Suc 0..<Suc i + (k - i)] = [Suc 0..<Suc i] @ [Suc i..<Suc i + (k - i)]"
    by (rule upt_add_eq_append) simp
  then have "[Suc 0..<Suc k] = [Suc 0..<Suc i] @ [Suc i..<Suc k]" by (simp only: k)
  then show ?thesis unfolding apply_range_def by (simp only: fold_append comp_apply)
qed

text \<open>
  C2: State-machine safety.  On disciplined runs a replica that has applied at least as many
  slots as another is in the state the other would reach by applying the remaining slots of its
  log; in particular replicas with the same applied index hold the same state.
\<close>

theorem replicas_in_step:
  assumes "reachable app sm0 ps \<sigma>" and "distinct ps" and "p \<in> set ps" and "q \<in> set ps"
    and "appliedIndex (rnode \<sigma> p) \<le> appliedIndex (rnode \<sigma> q)"
  shows "sm (rnode \<sigma> q) =
    apply_range app (nlog (rnode \<sigma> q)) (appliedIndex (rnode \<sigma> p)) (appliedIndex (rnode \<sigma> q)) (sm (rnode \<sigma> p))"
proof -
  let ?i = "appliedIndex (rnode \<sigma> p)" and ?k = "appliedIndex (rnode \<sigma> q)"
  note D = sys_invD [OF reachable_inv [OF assms(1,2)]]
  have p: "sm (rnode \<sigma> p) = apply_range app (nlog (rnode \<sigma> p)) 0 ?i sm0"
    "\<And>s. 0 < s \<Longrightarrow> s \<le> ?i \<Longrightarrow> (p, s) \<in> known (abs_core \<sigma>)"
    using D(2) [OF assms(3)] by (simp_all add: node_ok_def)
  have q: "sm (rnode \<sigma> q) = apply_range app (nlog (rnode \<sigma> q)) 0 ?k sm0"
    "\<And>s. 0 < s \<Longrightarrow> s \<le> ?k \<Longrightarrow> (q, s) \<in> known (abs_core \<sigma>)"
    using D(2) [OF assms(4)] by (simp_all add: node_ok_def)
  have "Command (the (Get (nlog (rnode \<sigma> p)) s)) = Command (the (Get (nlog (rnode \<sigma> q)) s))"
    if "0 < s" "s \<le> ?i" for s
  proof -
    have "s \<le> ?k" using \<open>s \<le> ?i\<close> assms(5) by (rule order.trans)
    obtain d where d: "lg (abs_core \<sigma>) p s = Some d" "settled_entry ps (abs_core \<sigma>) s d"
      using core_invD(7) [OF D(1) p(2) [OF \<open>0 < s\<close> \<open>s \<le> ?i\<close>]] by blast
    obtain e where e: "lg (abs_core \<sigma>) q s = Some e" "settled_entry ps (abs_core \<sigma>) s e"
      using core_invD(7) [OF D(1) q(2) [OF \<open>0 < s\<close> \<open>s \<le> ?k\<close>]] by blast
    show ?thesis using settled_agree [OF D(1) d(2) e(2)] d(1) e(1) by (simp add: Get_def)
  qed
  then have "apply_range app (nlog (rnode \<sigma> p)) 0 ?i sm0 = apply_range app (nlog (rnode \<sigma> q)) 0 ?i sm0"
    by (rule apply_range_cong)
  then show ?thesis unfolding p(1) q(1) by (simp only: apply_range_split [OF assms(5)])
qed

text \<open>
  Validity.  On disciplined runs every applied command is a no-op or one that some caller
  submitted; nothing else ever reaches the state machine.
\<close>

theorem applied_was_submitted:
  assumes "reachable app sm0 ps \<sigma>" and "distinct ps" and "(p, s, v) \<in> applied \<sigma>"
  shows "v = [] \<or> v \<in> submitted \<sigma>"
proof -
  note D = sys_invD [OF reachable_inv [OF assms(1,2)]]
  obtain b where "chosen ps (abs_core \<sigma>) s b v" using history_applied [OF D(6) assms(3)] by blast
  then have "(b, s, v) \<in> planned \<sigma>" using chosen_planned [OF D(1)] by simp
  then show ?thesis using D(6) unfolding history_ok_def by blast
qed

end
