(* ===== verification/PaxosRuns.thy ===== *)
theory PaxosRuns
  imports PaxosAgreement
begin

text \<open>
  Concrete runs of the group model.  A disciplined one, which the safety theorems are applied to,
  and runs of the code of \<^verbatim>\<open>src/internal/paxos/node.go\<close> outside the discipline, in which replicas
  apply different commands in one slot.
\<close>

section \<open>A run\<close>

text \<open>A run whose every step keeps the discipline reaches a reachable state.\<close>

fun disciplined_run ::
  "(slot \<Rightarrow> bytes \<Rightarrow> 's \<Rightarrow> 's \<times> 'r) \<Rightarrow> 's \<Rightarrow> NodeID list \<Rightarrow> (env \<times> event) list \<Rightarrow> 's psys \<Rightarrow> bool" where
  "disciplined_run app sm0 ps [] \<sigma> = True"
| "disciplined_run app sm0 ps ((v, ev) # evs) \<sigma> =
     (disciplined v ev \<sigma> \<and>
      (case exec app sm0 ps v ev \<sigma> of None \<Rightarrow> True | Some \<sigma>' \<Rightarrow> disciplined_run app sm0 ps evs \<sigma>'))"

lemma disciplined_run_reachable:
  "run app sm0 ps evs \<sigma> = Some \<sigma>' \<Longrightarrow> disciplined_run app sm0 ps evs \<sigma> \<Longrightarrow>
   reachable app sm0 ps \<sigma> \<Longrightarrow> reachable app sm0 ps \<sigma>'"
proof (induction evs arbitrary: \<sigma>)
  case (Cons x evs)
  obtain v ev where x: "x = (v, ev)" by (cases x)
  then obtain \<sigma>1 where "exec app sm0 ps v ev \<sigma> = Some \<sigma>1" using Cons.prems(1) by (auto split: option.splits)
  then show ?case using Cons x by (auto intro: reachable.step simp del: exec.simps disciplined.simps)
qed simp

text \<open>A state machine that lists what it was given, and three replicas.\<close>

definition journal_app :: "slot \<Rightarrow> bytes \<Rightarrow> (slot \<times> bytes) list \<Rightarrow> (slot \<times> bytes) list \<times> unit" where
  "journal_app s c st = (st @ [(s, c)], ())"

definition abc :: "NodeID list" where
  "abc = [''A'', ''B'', ''C'']"

definition abc_run :: "event list \<Rightarrow> (slot \<times> bytes) list psys option" where
  "abc_run evs = run journal_app [] abc (map (Pair wit_env) evs) (init_sys [] abc (\<lambda>_. wit_env) wit_config)"

definition abc_disciplined :: "event list \<Rightarrow> bool" where
  "abc_disciplined evs =
     disciplined_run journal_app [] abc (map (Pair wit_env) evs) (init_sys [] abc (\<lambda>_. wit_env) wit_config)"

lemma abc_reachable: "abc_run evs = Some \<sigma> \<Longrightarrow> abc_disciplined evs \<Longrightarrow> reachable journal_app [] abc \<sigma>"
  unfolding abc_run_def abc_disciplined_def by (rule disciplined_run_reachable) (auto intro: reachable.start)

text \<open>\<open>A\<close> is elected by \<open>B\<close>, gets a command chosen and applies it; a heartbeat lets \<open>B\<close> catch up.\<close>

definition smooth_run :: "event list" where
  "smooth_run =
     [EProbe ''A'', EDeliver 0 ''B'', EFinish 0 [''B''], EDeliver 1 ''B'', EFinish 1 [''B''],
      EPropose ''A'' [1], EReplicate 3, EDeliver 4 ''B'', EFinish 4 [''B''], EApply ''A'',
      EHeartbeat ''A'', EDeliver 5 ''B'', EDeliver 6 ''A'', EFinish 6 [''A''], EApply ''B'']"

lemma smooth_run_ends:
  "map_option applied (abc_run smooth_run) = Some {(''A'', 1, [1]), (''B'', 1, [1])}"
  "map_option (\<lambda>\<sigma>. map (\<lambda>p. appliedIndex (rnode \<sigma> p)) abc) (abc_run smooth_run) = Some [1, 1, 0]"
  "abc_disciplined smooth_run"
  by code_simp+

lemma smooth_state:
  obtains \<sigma> where "abc_run smooth_run = Some \<sigma>" "reachable journal_app [] abc \<sigma>"
    "applied \<sigma> = {(''A'', 1, [1]), (''B'', 1, [1])}"
    "appliedIndex (rnode \<sigma> ''A'') = 1" "appliedIndex (rnode \<sigma> ''B'') = 1"
proof -
  obtain \<sigma> where \<sigma>: "abc_run smooth_run = Some \<sigma>" "applied \<sigma> = {(''A'', 1, [1]), (''B'', 1, [1])}"
    using smooth_run_ends(1) by auto
  moreover have "appliedIndex (rnode \<sigma> ''A'') = 1" "appliedIndex (rnode \<sigma> ''B'') = 1"
    using smooth_run_ends(2) \<sigma>(1) by (simp_all add: abc_def)
  ultimately show ?thesis using that abc_reachable smooth_run_ends(3) by blast
qed


theorem replicas_in_step_witness:
  "\<exists>\<sigma>. abc_run smooth_run = Some \<sigma> \<and> sm (rnode \<sigma> ''B'') = sm (rnode \<sigma> ''A'')"
proof -
  obtain \<sigma> where \<sigma>: "abc_run smooth_run = Some \<sigma>" "reachable journal_app [] abc \<sigma>"
    "appliedIndex (rnode \<sigma> ''A'') = 1" "appliedIndex (rnode \<sigma> ''B'') = 1" by (rule smooth_state)
  have "sm (rnode \<sigma> ''B'') = apply_range journal_app (nlog (rnode \<sigma> ''B'')) 1 1 (sm (rnode \<sigma> ''A''))"
    using replicas_in_step [OF \<sigma>(2), of "''A''" "''B''"] \<sigma>(3,4) by (simp add: abc_def)
  then show ?thesis using \<sigma>(1) by (simp add: apply_range_def)
qed

theorem applied_was_submitted_witness:
  "\<exists>\<sigma>. abc_run smooth_run = Some \<sigma> \<and> (''B'', 1, [1]) \<in> applied \<sigma> \<and> ([1::byte] = [] \<or> [1] \<in> submitted \<sigma>)"
proof -
  obtain \<sigma> where \<sigma>: "abc_run smooth_run = Some \<sigma>" "reachable journal_app [] abc \<sigma>"
    "applied \<sigma> = {(''A'', 1, [1]), (''B'', 1, [1])}" by (rule smooth_state)
  have "distinct abc" by (simp add: abc_def)
  moreover have "(''B'', 1, [1]) \<in> applied \<sigma>" using \<sigma>(3) by simp
  ultimately show ?thesis using applied_was_submitted [OF \<sigma>(2)] \<sigma>(1) by blast
qed

section \<open>Runs outside the discipline\<close>

text \<open>
  \<open>A\<close> has asked \<open>C\<close> for a promise; while it waits it promises the higher ballot of \<open>B\<close>.  It then
  counts \<open>C\<close>'s promise, becomes leader all the same, and votes for its own command below the
  ballot it promised.
\<close>

definition stale_leader_run :: "event list" where
  "stale_leader_run =
     [EProbe ''A'', EDeliver 0 ''C'', EFinish 0 [''C''], EDeliver 1 ''C'',
      EProbe ''B'', EDeliver 2 ''A'', EFinish 2 [''A''], EDeliver 3 ''A'', EFinish 3 [''A''],
      EFinish 1 [''C''],
      EPropose ''A'' [1], EReplicate 6, EDeliver 7 ''C'', EFinish 7 [''C''], EApply ''A'',
      EPropose ''B'' [2], EReplicate 8, EDeliver 9 ''C'', EFinish 9 [''C''], EApply ''B'']"

text \<open>
  C3: a candidate that promises a higher ballot while it waits for its own promises still
  becomes leader and accepts its own commands: three replicas with no failure at all apply
  different commands in slot 1.
\<close>

theorem stale_leader_diverges:
  "map_option applied (abc_run stale_leader_run) = Some {(''A'', 1, [1]), (''B'', 1, [2])}"
  by code_simp

text \<open>
  A proposal of \<open>A\<close> is held up before it calls \<^verbatim>\<open>replicate\<close>; \<open>A\<close> loses its lead to \<open>B\<close>, who gets
  another command chosen in the slot, and wins it back; then the proposal goes on.
\<close>

definition stale_job_run :: "event list" where
  "stale_job_run =
     [EProbe ''A'', EDeliver 0 ''B'', EFinish 0 [''B''], EDeliver 1 ''B'', EFinish 1 [''B''],
      EPropose ''A'' [1],
      EProbe ''B'', EDeliver 4 ''C'', EFinish 4 [''C''], EDeliver 5 ''C'', EFinish 5 [''C''],
      EPropose ''B'' [2], EReplicate 7, EDeliver 8 ''C'', EFinish 8 [''C''], EApply ''B'',
      EHeartbeat ''A'', EDeliver 9 ''B'', EFinish 9 [''B''],
      EProbe ''A'', EDeliver 10 ''B'', EFinish 10 [''B''], EDeliver 11 ''B'', EFinish 11 [''B''],
      EReplicate 3, EDeliver 13 ''B'', EFinish 13 [''B''], EApply ''A'']"

text \<open>
  C4: \<^verbatim>\<open>replicate\<close> reads the ballot anew, so a proposal made in an earlier leadership is sent
  under the ballot of a later one, past the recovery pass: the replicas apply different commands
  in slot 1.
\<close>

theorem stale_job_diverges:
  "map_option applied (abc_run stale_job_run) = Some {(''A'', 1, [1]), (''B'', 1, [2])}"
  by code_simp

text \<open>
  \<open>A\<close> loses an election because of \<open>B\<close>'s ballot.  Meanwhile it has promised the higher ballot of
  \<open>C\<close>; recording \<open>B\<close>'s then lowers its promise.
\<close>

definition lowered_promise_run :: "event list" where
  "lowered_promise_run =
     [EProbe ''A'', EDeliver 0 ''B'', EFinish 0 [''B''],
      EProbe ''B'', EDeliver 2 ''C'', EFinish 2 [''C''], EDeliver 3 ''C'', EFinish 3 [''C''],
      EProbe ''C'', EDeliver 5 ''A'', EFinish 5 [''A''], EDeliver 6 ''A'', EFinish 6 [''A''],
      EDeliver 1 ''B'', EFinish 1 [''B''],
      EPropose ''B'' [1], EReplicate 8, EDeliver 9 ''A'', EFinish 9 [''A''], EApply ''B'',
      EPropose ''C'' [2], EReplicate 10, EDeliver 11 ''A'', EFinish 11 [''A''], EApply ''C'']"

text \<open>
  C5: a lost campaign records the highest ballot of the refusals even when the replica has
  promised a higher one since: the promise is taken back, and the replicas apply different
  commands in slot 1.
\<close>

theorem lowered_promise_diverges:
  "map_option applied (abc_run lowered_promise_run) = Some {(''B'', 1, [1]), (''C'', 1, [2])}"
  by code_simp

definition abcde :: "NodeID list" where
  "abcde = [''A'', ''B'', ''C'', ''D'', ''E'']"

text \<open>
  \<open>E\<close> has learned the chosen command from \<open>B\<close> by catching up, without promising \<open>B\<close>'s ballot; an
  accept of the earlier leader \<open>A\<close> is delivered late.
\<close>

definition late_accept_run :: "event list" where
  "late_accept_run =
     [EProbe ''A'', EDeliver 0 ''B'', EDeliver 0 ''C'', EFinish 0 [''B'', ''C''],
      EDeliver 1 ''B'', EDeliver 1 ''C'', EFinish 1 [''B'', ''C''],
      EPropose ''A'' [1], EReplicate 3,
      EProbe ''B'', EDeliver 5 ''C'', EDeliver 5 ''D'', EFinish 5 [''C'', ''D''],
      EDeliver 6 ''C'', EDeliver 6 ''D'', EFinish 6 [''C'', ''D''],
      EPropose ''B'' [2], EReplicate 8, EDeliver 9 ''C'', EDeliver 9 ''D'', EFinish 9 [''C'', ''D''],
      EApply ''B'', EHeartbeat ''B'', EDeliver 10 ''E'', EDeliver 11 ''B'', EFinish 11 [''B''],
      EDeliver 4 ''E'', EApply ''E'']"

text \<open>
  C6: catching up does not raise the promise, so a late accept of a lower ballot overwrites an
  entry already marked committed: of five replicas, two apply different commands in slot 1.
\<close>

theorem late_accept_diverges:
  "map_option applied (run journal_app [] abcde (map (Pair wit_env) late_accept_run)
      (init_sys [] abcde (\<lambda>_. wit_env) wit_config)) = Some {(''B'', 1, [2]), (''E'', 1, [1])}"
  by code_simp

text \<open>The discipline rules out each of these runs.\<close>

lemma runs_undisciplined:
  "\<not> abc_disciplined stale_leader_run" "\<not> abc_disciplined stale_job_run"
  "\<not> abc_disciplined lowered_promise_run"
  "\<not> disciplined_run journal_app [] abcde (map (Pair wit_env) late_accept_run)
      (init_sys [] abcde (\<lambda>_. wit_env) wit_config)"
  by code_simp+

end
