(* ===== verification/GoStrings.thy ===== *)
theory GoStrings
  imports Prelude
begin

text \<open>
  The parts of Go's \<^verbatim>\<open>strings\<close>, \<^verbatim>\<open>strconv\<close> and \<^verbatim>\<open>fmt\<close> that the program uses on its text: white
  space, fields, splitting and joining, lower case, decimal numbers read at 64 bits and printed
  plainly, with a sign or padded, and quoting.  White space and letters are those of ASCII:
  bytes from 128 on are neither space nor letter here, and quoting copies them.
\<close>

section \<open>White space, fields, cases\<close>

definition is_space :: "char \<Rightarrow> bool" where
  "is_space c \<longleftrightarrow> c \<in> {CHR '' '', CHR 0x09, CHR 0x0A, CHR 0x0B, CHR 0x0C, CHR 0x0D}"

definition TrimSpace :: "string \<Rightarrow> string" where
  "TrimSpace s = rev (dropWhile is_space (rev (dropWhile is_space s)))"

text \<open>\<^verbatim>\<open>strings.Fields\<close>: the maximal runs of characters that are not white space.\<close>

fun fields_acc :: "string \<Rightarrow> string \<Rightarrow> string list" where
  "fields_acc w [] = (if w = [] then [] else [rev w])"
| "fields_acc w (c # cs) =
     (if is_space c then (if w = [] then fields_acc [] cs else rev w # fields_acc [] cs)
      else fields_acc (c # w) cs)"

definition Fields :: "string \<Rightarrow> string list" where
  "Fields s = fields_acc [] s"

text \<open>\<^verbatim>\<open>strings.Split\<close> on a separator of one character: never empty.\<close>

fun Split :: "char \<Rightarrow> string \<Rightarrow> string list" where
  "Split sep [] = [[]]"
| "Split sep (c # cs) =
     (if c = sep then [] # Split sep cs
      else case Split sep cs of [] \<Rightarrow> [[c]] | w # ws \<Rightarrow> (c # w) # ws)"

fun Join :: "string \<Rightarrow> string list \<Rightarrow> string" where
  "Join sep [] = []"
| "Join sep [s] = s"
| "Join sep (s # t # ts) = s @ sep @ Join sep (t # ts)"

definition TrimPrefix :: "string \<Rightarrow> string \<Rightarrow> string" where
  "TrimPrefix s pre = (if take (length pre) s = pre then drop (length pre) s else s)"

definition lower_char :: "char \<Rightarrow> char" where
  "lower_char c = (if CHR ''A'' \<le> c \<and> c \<le> CHR ''Z'' then char_of ((of_char c :: nat) + 32) else c)"

definition ToLower :: "string \<Rightarrow> string" where
  "ToLower s = map lower_char s"

lemma fields_acc_words:
  "list_all (\<lambda>c. \<not> is_space c) u \<Longrightarrow>
   list_all (\<lambda>w. w \<noteq> [] \<and> list_all (\<lambda>c. \<not> is_space c) w) (fields_acc u s)"
  by (induction u s rule: fields_acc.induct) simp_all

lemma Fields_words: "list_all (\<lambda>w. w \<noteq> [] \<and> list_all (\<lambda>c. \<not> is_space c) w) (Fields s)"
  by (simp add: Fields_def fields_acc_words)

lemma Split_nonempty [simp]: "Split sep s \<noteq> []"
  by (cases s) (auto split: list.splits)

lemma Join_Split: "Join [sep] (Split sep s) = s"
proof (induction sep s rule: Split.induct)
  case (2 sep c cs)
  obtain w ws where "Split sep cs = w # ws" by (meson Split_nonempty neq_Nil_conv)
  with 2 show ?case by (cases ws) auto
qed simp

section \<open>Decimal numbers\<close>

definition digit :: "nat \<Rightarrow> char" where
  "digit d = char_of (48 + d)"

definition digit_val :: "char \<Rightarrow> nat option" where
  "digit_val c = (if CHR ''0'' \<le> c \<and> c \<le> CHR ''9'' then Some (of_char c - 48) else None)"

fun itoa :: "nat \<Rightarrow> string" where
  "itoa n = (if n < 10 then [digit n] else itoa (n div 10) @ [digit (n mod 10)])"

declare itoa.simps [simp del]

text \<open>\<^verbatim>\<open>%d\<close> of a signed integer, \<^verbatim>\<open>%+d\<close>, and \<^verbatim>\<open>%0wd\<close> (the sign counts towards the width).\<close>

definition show_int :: "int \<Rightarrow> string" where
  "show_int i = (if i < 0 then CHR ''-'' # itoa (nat (- i)) else itoa (nat i))"

definition show_plus :: "int \<Rightarrow> string" where
  "show_plus i = (if i < 0 then show_int i else CHR ''+'' # show_int i)"

definition show_zeros :: "nat \<Rightarrow> int \<Rightarrow> string" where
  "show_zeros w i =
     (if i < 0 then CHR ''-'' # replicate (w - 1 - length (itoa (nat (- i)))) CHR ''0'' @ itoa (nat (- i))
      else replicate (w - length (itoa (nat i))) CHR ''0'' @ itoa (nat i))"

definition show_i64 :: "i64 \<Rightarrow> string" where
  "show_i64 v = show_int (sint v)"

text \<open>\<^verbatim>\<open>%-ws\<close>: padded with blanks on the right.\<close>

definition pad_right :: "nat \<Rightarrow> string \<Rightarrow> string" where
  "pad_right w s = s @ replicate (w - length s) CHR '' ''"

text \<open>Decimal digits read from the left; \<open>None\<close> when a character is not a digit.\<close>

fun digits_val :: "nat \<Rightarrow> string \<Rightarrow> nat option" where
  "digits_val acc [] = Some acc"
| "digits_val acc (c # cs) =
     (case digit_val c of None \<Rightarrow> None | Some d \<Rightarrow> digits_val (10 * acc + d) cs)"

text \<open>
  \<^verbatim>\<open>strconv.ParseInt(s, 10, 64)\<close>: an optional sign and at least one digit, refused outside
  \<open>[-2^63, 2^63)\<close>.
\<close>

definition ParseInt64 :: "string \<Rightarrow> i64 option" where
  "ParseInt64 s =
     (let (neg, ds) = (case s of
            [] \<Rightarrow> (False, [])
          | c # cs \<Rightarrow> if c = CHR ''-'' then (True, cs) else if c = CHR ''+'' then (False, cs) else (False, s))
      in if ds = [] then None
         else case digits_val 0 ds of
                None \<Rightarrow> None
              | Some n \<Rightarrow>
                  if neg then (if n \<le> 2 ^ 63 then Some (word_of_int (- int n)) else None)
                  else if n < 2 ^ 63 then Some (word_of_int (int n)) else None)"

lemma of_char_digit: "d < 10 \<Longrightarrow> of_char (digit d) = 48 + d"
  by (simp add: digit_def)

lemma digit_val_digit [simp]:
  assumes "d < 10"
  shows "digit_val (digit d) = Some d"
  using of_char_digit [OF assms] assms by (simp add: digit_val_def less_eq_char_def)

lemma digits_val_append:
  "digits_val acc (xs @ ys) = (case digits_val acc xs of None \<Rightarrow> None | Some n \<Rightarrow> digits_val n ys)"
  by (induction xs arbitrary: acc) (auto split: option.splits)

lemma digits_val_itoa [simp]: "digits_val 0 (itoa n) = Some n"
proof (induction n rule: itoa.induct)
  case (1 n)
  then show ?case by (subst itoa.simps) (simp add: digits_val_append)
qed

lemma itoa_not_Nil [simp]: "itoa n \<noteq> []"
  by (subst itoa.simps) simp

lemma itoa_hd: "\<exists>d cs. d < 10 \<and> itoa n = digit d # cs"
proof (induction n rule: itoa.induct)
  case (1 n)
  then show ?case by (cases "n < 10") (auto simp: itoa.simps [of n])
qed

lemma digit_not_sign:
  assumes "d < 10"
  shows "digit d \<noteq> CHR ''-'' \<and> digit d \<noteq> CHR ''+''"
proof -
  have "of_char (digit d) \<noteq> (45 :: nat)" "of_char (digit d) \<noteq> (43 :: nat)"
    using of_char_digit [OF assms] by simp_all
  then show ?thesis by auto
qed

lemma digit_not_space:
  assumes "d < 10"
  shows "\<not> is_space (digit d) \<and> digit d \<noteq> CHR 0x0A"
proof -
  have "of_char (digit d) = 48 + d" using assms by (rule of_char_digit)
  then have "of_char (digit d) \<notin> {32, 9, 10, 11, 12, 13 :: nat}" using assms by simp
  then show ?thesis by (auto simp: is_space_def)
qed

lemma ParseInt64_unsigned:
  "c \<noteq> CHR ''-'' \<Longrightarrow> c \<noteq> CHR ''+'' \<Longrightarrow> digits_val 0 (c # cs) = Some n \<Longrightarrow> n < 2 ^ 63 \<Longrightarrow>
   ParseInt64 (c # cs) = Some (word_of_int (int n))"
  unfolding ParseInt64_def Let_def by (simp only: list.case if_False prod.case list.simps option.case if_True)

lemma ParseInt64_nonneg:
  assumes "n < 2 ^ 63"
  shows "ParseInt64 (itoa n) = Some (word_of_int (int n))"
proof -
  obtain d cs where d: "d < 10" "itoa n = digit d # cs" using itoa_hd by blast
  then show ?thesis
    using ParseInt64_unsigned [of "digit d" cs n] digit_not_sign digits_val_itoa [of n] assms by simp
qed

lemma ParseInt64_neg: "n \<le> 2 ^ 63 \<Longrightarrow> ParseInt64 (CHR ''-'' # itoa n) = Some (word_of_int (- int n))"
  by (simp add: ParseInt64_def)

text \<open>
  A 64-bit integer printed with \<^verbatim>\<open>%d\<close> and read back with \<^verbatim>\<open>ParseInt\<close> is itself, the most
  negative one included.
\<close>

lemma ParseInt64_show: "ParseInt64 (show_i64 v) = Some v"
proof (cases "sint v < 0")
  case True
  have "- (2 ^ 63) \<le> sint v" using sint_greater_eq [of v] by simp
  then have "nat (- sint v) \<le> 2 ^ 63" by (simp add: nat_le_iff)
  then show ?thesis using True ParseInt64_neg [of "nat (- sint v)"] by (simp add: show_i64_def show_int_def)
next
  case False
  have "sint v < 2 ^ 63" using sint_less [of v] by simp
  then have "nat (sint v) < 2 ^ 63" using False by (simp add: nat_less_iff)
  then show ?thesis using False ParseInt64_nonneg [of "nat (sint v)"] by (simp add: show_i64_def show_int_def)
qed

section \<open>Quoting\<close>

definition hex_digit :: "nat \<Rightarrow> char" where
  "hex_digit d = (if d < 10 then digit d else char_of (87 + d))"

definition quote_char :: "char \<Rightarrow> string" where
  "quote_char c =
     (if c = CHR 0x22 \<or> c = CHR 0x5C then [CHR 0x5C, c]
      else if c = CHR 0x07 then [CHR 0x5C, CHR ''a'']
      else if c = CHR 0x08 then [CHR 0x5C, CHR ''b'']
      else if c = CHR 0x0C then [CHR 0x5C, CHR ''f'']
      else if c = CHR 0x0A then [CHR 0x5C, CHR ''n'']
      else if c = CHR 0x0D then [CHR 0x5C, CHR ''r'']
      else if c = CHR 0x09 then [CHR 0x5C, CHR ''t'']
      else if c = CHR 0x0B then [CHR 0x5C, CHR ''v'']
      else if of_char c < (32 :: nat) \<or> of_char c = (127 :: nat)
      then [CHR 0x5C, CHR ''x'', hex_digit (of_char c div 16), hex_digit (of_char c mod 16)]
      else [c])"

text \<open>\<^verbatim>\<open>%q\<close>.\<close>

definition quote :: "string \<Rightarrow> string" where
  "quote s = CHR 0x22 # concat (map quote_char s) @ [CHR 0x22]"

end
