(* ===== verification/GoErrors.thy ===== *)
theory GoErrors
  imports GoStrings
begin

text \<open>
  Errors as Go carries them: a text, and the sentinels that \<^verbatim>\<open>errors.Is\<close> finds in the chain.
  \<^verbatim>\<open>fmt.Errorf\<close> with \<^verbatim>\<open>%w\<close> keeps the chain and writes text around it; without \<^verbatim>\<open>%w\<close> it makes an
  error that wraps nothing.
\<close>

datatype sentinel =
  ErrNotLeader | ErrNoQuorum | ErrNoLeader | ErrUnknownNode | ErrNoSuchKey | ErrInsufficientFunds
| ErrLocked | ErrTooManyKeys | ErrUnknownTx | ErrBadCommand | ErrInDoubt | ErrUnreachable
| errEmpty | DeadlineExceeded | Canceled | ErrNotFound | errBadCredentials | errAccountClaimed

fun sentinel_text :: "sentinel \<Rightarrow> string" where
  "sentinel_text ErrNotLeader = ''paxos: not the leader''"
| "sentinel_text ErrNoQuorum = ''paxos: no quorum''"
| "sentinel_text ErrNoLeader = ''no leader''"
| "sentinel_text ErrUnknownNode = ''unknown node''"
| "sentinel_text ErrNoSuchKey = ''no such key''"
| "sentinel_text ErrInsufficientFunds = ''insufficient funds''"
| "sentinel_text ErrLocked = ''account is locked by an in-flight transaction''"
| "sentinel_text ErrTooManyKeys = ''too many distinct keys''"
| "sentinel_text ErrUnknownTx = ''unknown transaction''"
| "sentinel_text ErrBadCommand = ''bad command''"
| "sentinel_text ErrInDoubt = ''in doubt''"
| "sentinel_text ErrUnreachable = ''unreachable''"
| "sentinel_text errEmpty = ''empty command''"
| "sentinel_text DeadlineExceeded = ''context deadline exceeded''"
| "sentinel_text Canceled = ''context canceled''"
| "sentinel_text ErrNotFound = ''account not found''"
| "sentinel_text errBadCredentials = ''invalid username or password''"
| "sentinel_text errAccountClaimed = ''account is already registered to another user''"

record goerror =
  chain :: "sentinel list"
  Error :: string

definition errors_New :: "string \<Rightarrow> goerror" where
  "errors_New t = \<lparr>chain = [], Error = t\<rparr>"

definition the_error :: "sentinel \<Rightarrow> goerror" where
  "the_error s = \<lparr>chain = [s], Error = sentinel_text s\<rparr>"

text \<open>\<^verbatim>\<open>fmt.Errorf("pre%wpost", err)\<close>.\<close>

definition Errorf :: "string \<Rightarrow> goerror \<Rightarrow> string \<Rightarrow> goerror" where
  "Errorf pre e post = e\<lparr>Error := pre @ Error e @ post\<rparr>"

definition errors_Is :: "goerror \<Rightarrow> sentinel \<Rightarrow> bool" where
  "errors_Is e s \<longleftrightarrow> s \<in> set (chain e)"

lemma errors_Is_simps [simp]:
  "errors_Is (errors_New t) s \<longleftrightarrow> False"
  "errors_Is (the_error s') s \<longleftrightarrow> s = s'"
  "errors_Is (Errorf pre e post) s \<longleftrightarrow> errors_Is e s"
  by (auto simp: errors_Is_def errors_New_def the_error_def Errorf_def)

end
