(* ===== verification/LedgerMachine.thy ===== *)
theory LedgerMachine
  imports GoErrors "HOL-Library.Mapping" "HOL-Library.AList_Mapping"
begin

text \<open>
  The state machine every shard replicates, from \<^verbatim>\<open>src/internal/ledger/ledger.go\<close>: balances, the
  lock table of two-phase commit, the prepared transactions and the decisions taken.  Go's maps
  are mappings; amounts are 64-bit words read with sign.  The JSON codec of a command is a
  parameter of \<open>Apply\<close>.
\<close>

datatype Op = OpPut | OpGet | OpTransfer | OpPrepare | OpCommit | OpAbort | OpOther string

fun op_name :: "Op \<Rightarrow> string" where
  "op_name OpPut = ''put''"
| "op_name OpGet = ''get''"
| "op_name OpTransfer = ''transfer''"
| "op_name OpPrepare = ''prepare''"
| "op_name OpCommit = ''commit''"
| "op_name OpAbort = ''abort''"
| "op_name (OpOther s) = s"

record lcommand =
  Op :: Op
  Key :: string
  To :: string
  Amount :: i64
  Tx :: string

definition new_lcommand :: "Op \<Rightarrow> lcommand" where
  "new_lcommand oper = \<lparr>Op = oper, Key = [], To = [], Amount = 0, Tx = []\<rparr>"

fun command_string_op :: "Op \<Rightarrow> lcommand \<Rightarrow> string" where
  "command_string_op OpPut c = ''put '' @ Key c @ ''='' @ show_i64 (Amount c)"
| "command_string_op OpGet c = ''get '' @ Key c"
| "command_string_op OpTransfer c =
     ''transfer '' @ Key c @ ''->'' @ To c @ '' '' @ show_i64 (Amount c)"
| "command_string_op OpPrepare c = ''prepare '' @ Tx c @ '' '' @ Key c @ show_plus (sint (Amount c))"
| "command_string_op OpCommit c = ''commit '' @ Tx c"
| "command_string_op OpAbort c = ''abort '' @ Tx c"
| "command_string_op (OpOther s) c = s"

definition command_String :: "lcommand \<Rightarrow> string" where
  "command_String c = command_string_op (Op c) c"

datatype Code =
  CodeOK | CodeNoSuchKey | CodeInsufficient | CodeLocked | CodeTooManyKeys | CodeUnknownTx
| CodeBadCommand | CodeOther string

record lresult =
  Code :: Code
  Msg :: string
  Value :: i64
  RSlot :: slot

definition new_lresult :: lresult where
  "new_lresult = \<lparr>Code = CodeOK, Msg = [], Value = 0, RSlot = 0\<rparr>"

definition verdict :: "Code \<Rightarrow> string \<Rightarrow> lresult" where
  "verdict c msg = new_lresult\<lparr>Code := c, Msg := msg\<rparr>"

definition valued :: "i64 \<Rightarrow> lresult" where
  "valued v = new_lresult\<lparr>Value := v\<rparr>"

fun code_sentinel :: "Code \<Rightarrow> sentinel option" where
  "code_sentinel CodeOK = None"
| "code_sentinel CodeNoSuchKey = Some ErrNoSuchKey"
| "code_sentinel CodeInsufficient = Some ErrInsufficientFunds"
| "code_sentinel CodeLocked = Some ErrLocked"
| "code_sentinel CodeTooManyKeys = Some ErrTooManyKeys"
| "code_sentinel CodeUnknownTx = Some ErrUnknownTx"
| "code_sentinel CodeBadCommand = Some ErrBadCommand"
| "code_sentinel (CodeOther s) = Some ErrBadCommand"

text \<open>\<^verbatim>\<open>Result.Err\<close>: nil, or an error wrapping the sentinel.\<close>

definition result_Err :: "lresult \<Rightarrow> goerror option" where
  "result_Err r =
     map_option (\<lambda>b. if Msg r = [] then the_error b else Errorf [] (the_error b) ('': '' @ Msg r))
       (code_sentinel (Code r))"

record machine =
  maxKeys :: int
  balances :: "(string, i64) mapping"
  locks :: "(string, string) mapping"
  prepared :: "(string, lcommand) mapping"
  decided :: "(string, Op) mapping"

definition new_machine :: "int \<Rightarrow> machine" where
  "new_machine k =
     \<lparr>maxKeys = k, balances = Mapping.empty, locks = Mapping.empty, prepared = Mapping.empty,
      decided = Mapping.empty\<rparr>"

text \<open>Reading a Go map: the zero value for an absent key.\<close>

definition balance :: "machine \<Rightarrow> string \<Rightarrow> i64" where
  "balance m k = Mapping.lookup_default 0 (balances m) k"

definition held_msg :: "string \<Rightarrow> string \<Rightarrow> string" where
  "held_msg k tx = k @ '' is held by '' @ tx"

definition needs_msg :: "string \<Rightarrow> i64 \<Rightarrow> i64 \<Rightarrow> string" where
  "needs_msg k has needs = k @ '' has '' @ show_i64 has @ '', needs '' @ show_i64 needs"

text \<open>\<^verbatim>\<open>checkLocked\<close>: the refusal for the first key that is missing or held, if any.\<close>

fun checkLocked :: "machine \<Rightarrow> string list \<Rightarrow> lresult option" where
  "checkLocked m [] = None"
| "checkLocked m (k # ks) =
     (if Mapping.lookup (balances m) k = None then Some (verdict CodeNoSuchKey k)
      else case Mapping.lookup (locks m) k of
             Some tx \<Rightarrow> Some (verdict CodeLocked (held_msg k tx))
           | None \<Rightarrow> checkLocked m ks)"

definition applyPut :: "lcommand \<Rightarrow> machine \<Rightarrow> machine \<times> lresult" where
  "applyPut c m =
     (case Mapping.lookup (locks m) (Key c) of
        Some tx \<Rightarrow> (m, verdict CodeLocked (held_msg (Key c) tx))
      | None \<Rightarrow>
          if Mapping.lookup (balances m) (Key c) = None \<and> maxKeys m > 0
             \<and> int (Mapping.size (balances m)) \<ge> maxKeys m
          then (m, verdict CodeTooManyKeys (''limit is '' @ show_int (maxKeys m) @ '' per shard''))
          else (m\<lparr>balances := Mapping.update (Key c) (Amount c) (balances m)\<rparr>, valued (Amount c)))"

definition applyGet :: "lcommand \<Rightarrow> machine \<Rightarrow> machine \<times> lresult" where
  "applyGet c m =
     (case Mapping.lookup (balances m) (Key c) of
        None \<Rightarrow> (m, verdict CodeNoSuchKey (Key c))
      | Some v \<Rightarrow> (m, valued v))"

definition applyTransfer :: "lcommand \<Rightarrow> machine \<Rightarrow> machine \<times> lresult" where
  "applyTransfer c m =
     (case checkLocked m [Key c, To c] of
        Some r \<Rightarrow> (m, r)
      | None \<Rightarrow>
          (let src = balance m (Key c)
           in if sint src < sint (Amount c)
              then (m, verdict CodeInsufficient (needs_msg (Key c) src (Amount c)))
              else
                (let m1 = m\<lparr>balances := Mapping.update (Key c) (src - Amount c) (balances m)\<rparr>;
                     m2 = m1\<lparr>balances := Mapping.update (To c) (balance m1 (To c) + Amount c) (balances m1)\<rparr>
                 in (m2, valued (balance m2 (Key c))))))"

definition prepareLocked :: "lcommand \<Rightarrow> machine \<Rightarrow> machine \<times> lresult" where
  "prepareLocked c m =
     (case Mapping.lookup (prepared m) (Tx c) of
        Some existing \<Rightarrow>
          if existing = c then (m, new_lresult)
          else (m, verdict CodeBadCommand (Tx c @ '' already prepared with different details''))
      | None \<Rightarrow>
          (case Mapping.lookup (decided m) (Tx c) of
             Some oper \<Rightarrow>
               (m, verdict CodeUnknownTx (Tx c @ '' was already decided ('' @ op_name oper @ '')''))
           | None \<Rightarrow>
               (case checkLocked m [Key c] of
                  Some r \<Rightarrow> (m, r)
                | None \<Rightarrow>
                    (let b = balance m (Key c)
                     in if sint (Amount c) < 0 \<and> sint (b + Amount c) < 0
                        then (m, verdict CodeInsufficient (needs_msg (Key c) b (- Amount c)))
                        else (m\<lparr>locks := Mapping.update (Key c) (Tx c) (locks m),
                                prepared := Mapping.update (Tx c) c (prepared m)\<rparr>, valued b)))))"

definition applyCommit :: "lcommand \<Rightarrow> machine \<Rightarrow> machine \<times> lresult" where
  "applyCommit c m =
     (if Mapping.lookup (decided m) (Tx c) = Some OpCommit then (m, new_lresult)
      else case Mapping.lookup (prepared m) (Tx c) of
             None \<Rightarrow> (m, verdict CodeUnknownTx (Tx c @ '' was never prepared here or was aborted''))
           | Some p \<Rightarrow>
               (let m1 = m\<lparr>balances := Mapping.update (Key p) (balance m (Key p) + Amount p) (balances m),
                          locks := Mapping.delete (Key p) (locks m),
                          prepared := Mapping.delete (Tx c) (prepared m),
                          decided := Mapping.update (Tx c) OpCommit (decided m)\<rparr>
                in (m1, valued (balance m1 (Key p)))))"

definition applyAbort :: "lcommand \<Rightarrow> machine \<Rightarrow> machine \<times> lresult" where
  "applyAbort c m =
     (let m1 = (case Mapping.lookup (prepared m) (Tx c) of
                  Some p \<Rightarrow> m\<lparr>locks := Mapping.delete (Key p) (locks m),
                             prepared := Mapping.delete (Tx c) (prepared m)\<rparr>
                | None \<Rightarrow> m)
      in (if Mapping.lookup (decided m1) (Tx c) \<noteq> Some OpCommit
          then m1\<lparr>decided := Mapping.update (Tx c) OpAbort (decided m1)\<rparr> else m1, new_lresult))"

fun applyOp :: "Op \<Rightarrow> lcommand \<Rightarrow> machine \<Rightarrow> machine \<times> lresult" where
  "applyOp OpPut c m = applyPut c m"
| "applyOp OpGet c m = applyGet c m"
| "applyOp OpTransfer c m = applyTransfer c m"
| "applyOp OpPrepare c m = prepareLocked c m"
| "applyOp OpCommit c m = applyCommit c m"
| "applyOp OpAbort c m = applyAbort c m"
| "applyOp (OpOther s) c m = (m, verdict CodeBadCommand (''unknown op '' @ quote s))"

definition applyLocked :: "lcommand \<Rightarrow> machine \<Rightarrow> machine \<times> lresult" where
  "applyLocked c m = applyOp (Op c) c m"

text \<open>\<open>dec\<close> is \<^verbatim>\<open>Decode\<close>: \<open>Inl\<close> its error text.\<close>

definition Apply :: "(bytes \<Rightarrow> string + lcommand) \<Rightarrow> slot \<Rightarrow> bytes \<Rightarrow> machine \<Rightarrow> machine \<times> lresult" where
  "Apply dec s raw m =
     (case dec raw of
        Inl err \<Rightarrow> (m, (verdict CodeBadCommand err)\<lparr>RSlot := s\<rparr>)
      | Inr c \<Rightarrow> map_prod id (\<lambda>r. r\<lparr>RSlot := s\<rparr>) (applyLocked c m))"

record account =
  AKey :: string
  ABalance :: i64
  LockedBy :: string

definition Snapshot :: "machine \<Rightarrow> account list" where
  "Snapshot m =
     map (\<lambda>k. \<lparr>AKey = k, ABalance = balance m k, LockedBy = Mapping.lookup_default [] (locks m) k\<rparr>)
       (Mapping.ordered_keys (balances m))"

lemmas apply_defs [ledger_defs] = applyLocked_def applyPut_def applyGet_def applyTransfer_def
  prepareLocked_def applyCommit_def applyAbort_def Let_def

section \<open>Reading the maps after an update\<close>

lemma lookup_delete' [simp]:
  "Mapping.lookup (Mapping.delete k m) j = (if j = k then None else Mapping.lookup m j)"
  by (cases "j = k") auto

lemma lookup_upd [simp]:
  "Mapping.lookup (Mapping.update k v m) j = (if j = k then Some v else Mapping.lookup m j)"
  by (simp add: lookup_update')

lemma in_keys_lookup: "k \<in> Mapping.keys m \<longleftrightarrow> Mapping.lookup m k \<noteq> None"
  by (auto simp: keys_dom_lookup)

lemma balance_upd [simp]:
  "balance (m\<lparr>balances := Mapping.update k v b\<rparr>) j = (if j = k then v else balance (m\<lparr>balances := b\<rparr>) j)"
  by (simp add: balance_def lookup_default_def)

lemma checkLocked_None: "checkLocked m ks = None \<longleftrightarrow>
    (\<forall>k \<in> set ks. Mapping.lookup (balances m) k \<noteq> None \<and> Mapping.lookup (locks m) k = None)"
  by (induction ks) (auto split: option.splits)

lemma checkLocked_refuses: "checkLocked m ks = Some r \<Longrightarrow> Code r \<noteq> CodeOK"
  by (induction ks) (auto simp: verdict_def new_lresult_def split: if_splits option.splits)

declare checkLocked.simps [simp del]

section \<open>The shard invariant\<close>

text \<open>
  Locks and prepared transactions mirror each other, a prepared transaction is undecided and its
  account exists, and the account limit holds.
\<close>

definition locks_ok :: "machine \<Rightarrow> bool" where
  "locks_ok m \<longleftrightarrow> (\<forall>k tx. Mapping.lookup (locks m) k = Some tx \<longleftrightarrow>
     (\<exists>p. Mapping.lookup (prepared m) tx = Some p \<and> Key p = k))"

definition prepared_ok :: "machine \<Rightarrow> bool" where
  "prepared_ok m \<longleftrightarrow> (\<forall>tx p. Mapping.lookup (prepared m) tx = Some p \<longrightarrow>
     Tx p = tx \<and> Op p = OpPrepare \<and> Mapping.lookup (balances m) (Key p) \<noteq> None
     \<and> Mapping.lookup (decided m) tx = None)"

definition decided_ok :: "machine \<Rightarrow> bool" where
  "decided_ok m \<longleftrightarrow> (\<forall>tx d. Mapping.lookup (decided m) tx = Some d \<longrightarrow> d = OpCommit \<or> d = OpAbort)"

definition keys_ok :: "machine \<Rightarrow> bool" where
  "keys_ok m \<longleftrightarrow> finite (Mapping.keys (balances m))
     \<and> (maxKeys m > 0 \<longrightarrow> int (Mapping.size (balances m)) \<le> maxKeys m)"

definition machine_ok :: "machine \<Rightarrow> bool" where
  "machine_ok m \<longleftrightarrow> locks_ok m \<and> prepared_ok m \<and> decided_ok m \<and> keys_ok m"

lemma keys_ok_update_existing:
  "keys_ok m \<Longrightarrow> Mapping.lookup (balances m) k \<noteq> None \<Longrightarrow>
   keys_ok (m\<lparr>balances := Mapping.update k v (balances m)\<rparr>)"
  by (simp add: keys_ok_def size_update in_keys_lookup)

lemma keys_ok_update_new:
  "keys_ok m \<Longrightarrow> \<not> (maxKeys m > 0 \<and> int (Mapping.size (balances m)) \<ge> maxKeys m) \<Longrightarrow>
   keys_ok (m\<lparr>balances := Mapping.update k v (balances m)\<rparr>)"
  by (auto simp: keys_ok_def size_update in_keys_lookup)

lemma keys_ok_cong:
  "balances m' = balances m \<Longrightarrow> maxKeys m' = maxKeys m \<Longrightarrow> keys_ok m' = keys_ok m"
  by (simp add: keys_ok_def)

lemma machine_ok_new: "machine_ok (new_machine k)"
  by (simp add: machine_ok_def new_machine_def locks_ok_def prepared_ok_def decided_ok_def keys_ok_def)

lemma machine_ok_Put:
  assumes "machine_ok m"
  shows "machine_ok (fst (applyPut c m))"
proof -
  have "keys_ok (m\<lparr>balances := Mapping.update (Key c) (Amount c) (balances m)\<rparr>)"
    if "\<not> (Mapping.lookup (balances m) (Key c) = None \<and> maxKeys m > 0
          \<and> int (Mapping.size (balances m)) \<ge> maxKeys m)"
    using that assms keys_ok_update_existing keys_ok_update_new unfolding machine_ok_def by metis
  then show ?thesis using assms
    by (auto simp: applyPut_def machine_ok_def locks_ok_def prepared_ok_def decided_ok_def split: option.splits)
qed

lemma machine_ok_Get: "machine_ok m \<Longrightarrow> machine_ok (fst (applyGet c m))"
  by (simp add: applyGet_def split: option.splits)

lemma applyTransfer_cases:
  obtains (refused) r where "applyTransfer c m = (m, r)" "Code r \<noteq> CodeOK"
  | (moved) v where
      "Mapping.lookup (balances m) (Key c) \<noteq> None" "Mapping.lookup (balances m) (To c) \<noteq> None"
      "Mapping.lookup (locks m) (Key c) = None" "Mapping.lookup (locks m) (To c) = None"
      "sint (Amount c) \<le> sint (balance m (Key c))"
      "v = (if To c = Key c then balance m (Key c) else balance m (Key c) - Amount c)"
      "applyTransfer c m =
        (m\<lparr>balances := Mapping.update (To c)
             (if To c = Key c then balance m (Key c) else balance m (To c) + Amount c)
             (Mapping.update (Key c) (balance m (Key c) - Amount c) (balances m))\<rparr>, valued v)"
proof (cases "checkLocked m [Key c, To c]")
  case None
  show ?thesis
  proof (cases "sint (balance m (Key c)) < sint (Amount c)")
    case True
    with None show ?thesis by (intro refused) (auto simp: applyTransfer_def verdict_def new_lresult_def)
  next
    case False
    have "balance (m\<lparr>balances := balances m\<rparr>) = balance m" by (rule ext) (simp add: balance_def)
    with None None [unfolded checkLocked_None] False show ?thesis
      by (intro moved) (simp_all add: applyTransfer_def Let_def)
  qed
next
  case (Some r)
  then have "Code r \<noteq> CodeOK" by (rule checkLocked_refuses)
  with Some show ?thesis by (intro refused) (auto simp: applyTransfer_def)
qed

lemma machine_ok_Transfer:
  assumes "machine_ok m"
  shows "machine_ok (fst (applyTransfer c m))"
proof (cases rule: applyTransfer_cases [of c m])
  case (moved v)
  let ?b = "Mapping.update (Key c) (balance m (Key c) - Amount c) (balances m)"
  have "keys_ok (m\<lparr>balances := ?b\<rparr>)"
    using assms moved(1) by (simp add: machine_ok_def keys_ok_update_existing)
  then have "keys_ok (m\<lparr>balances := Mapping.update (To c) w ?b\<rparr>)" for w
    using keys_ok_update_existing [of "m\<lparr>balances := ?b\<rparr>" "To c" w] moved(2) by simp
  with assms moved(7) show ?thesis
    by (auto simp: machine_ok_def locks_ok_def prepared_ok_def decided_ok_def)
qed (simp add: assms)

lemma prepareLocked_cases:
  obtains (retried) "Mapping.lookup (prepared m) (Tx c) = Some c" "prepareLocked c m = (m, new_lresult)"
  | (refused) r where "prepareLocked c m = (m, r)" "Code r \<noteq> CodeOK"
  | (voted) "Mapping.lookup (prepared m) (Tx c) = None" "Mapping.lookup (decided m) (Tx c) = None"
      "Mapping.lookup (balances m) (Key c) \<noteq> None" "Mapping.lookup (locks m) (Key c) = None"
      "0 \<le> sint (Amount c) \<or> 0 \<le> sint (balance m (Key c) + Amount c)"
      "prepareLocked c m = (m\<lparr>locks := Mapping.update (Key c) (Tx c) (locks m),
          prepared := Mapping.update (Tx c) c (prepared m)\<rparr>, valued (balance m (Key c)))"
proof (cases "Mapping.lookup (prepared m) (Tx c)")
  case (Some p)
  then show ?thesis
    by (cases "p = c") (auto intro: retried refused simp: prepareLocked_def verdict_def new_lresult_def)
next
  case fresh: None
  show ?thesis
  proof (cases "Mapping.lookup (decided m) (Tx c)")
    case (Some d)
    with fresh show ?thesis by (intro refused) (auto simp: prepareLocked_def verdict_def new_lresult_def)
  next
    case undecided: None
    show ?thesis
    proof (cases "checkLocked m [Key c]")
      case (Some r)
      then have "Code r \<noteq> CodeOK" by (rule checkLocked_refuses)
      with fresh undecided Some show ?thesis by (intro refused) (auto simp: prepareLocked_def)
    next
      case None
      show ?thesis
      proof (cases "sint (Amount c) < 0 \<and> sint (balance m (Key c) + Amount c) < 0")
        case True
        with fresh undecided None show ?thesis
          by (intro refused) (auto simp: prepareLocked_def verdict_def new_lresult_def)
      next
        case False
        with fresh undecided None None [unfolded checkLocked_None] show ?thesis
          by (intro voted) (auto simp: prepareLocked_def Let_def)
      qed
    qed
  qed
qed

lemma machine_ok_Prepare:
  assumes "machine_ok m" and "Op c = OpPrepare"
  shows "machine_ok (fst (prepareLocked c m))"
proof (cases rule: prepareLocked_cases [of m c])
  case voted
  have L: "Mapping.lookup (locks m) k = Some tx \<longleftrightarrow>
      (\<exists>p. Mapping.lookup (prepared m) tx = Some p \<and> Key p = k)" for k tx
    using assms(1) by (simp add: machine_ok_def locks_ok_def)
  have "Key p \<noteq> Key c" if p: "Mapping.lookup (prepared m) tx = Some p" for tx p
    using L [of "Key p" tx] p voted(4) by auto
  then have "locks_ok (fst (prepareLocked c m))"
    unfolding locks_ok_def voted(6) using voted(1) L by auto
  moreover have "prepared_ok (fst (prepareLocked c m))"
    using assms voted by (auto simp: machine_ok_def prepared_ok_def)
  ultimately show ?thesis
    using assms(1) voted(6) by (simp add: machine_ok_def decided_ok_def keys_ok_def)
qed (simp_all add: assms)

lemma locks_ok_release:
  assumes "locks_ok m" and "Mapping.lookup (prepared m) tx = Some p"
  shows "locks_ok (m\<lparr>locks := Mapping.delete (Key p) (locks m), prepared := Mapping.delete tx (prepared m)\<rparr>)"
proof -
  have L: "Mapping.lookup (locks m) k = Some t \<longleftrightarrow>
      (\<exists>q. Mapping.lookup (prepared m) t = Some q \<and> Key q = k)" for k t
    using assms(1) by (simp add: locks_ok_def)
  have own: "t = tx" if "Mapping.lookup (prepared m) t = Some q" "Key q = Key p" for t q
  proof -
    have "Mapping.lookup (locks m) (Key p) = Some t" using L that by blast
    moreover have "Mapping.lookup (locks m) (Key p) = Some tx" using L assms(2) by blast
    ultimately show ?thesis by simp
  qed
  have "(if k = Key p then None else Mapping.lookup (locks m) k) = Some t \<longleftrightarrow>
      (\<exists>q. (if t = tx then None else Mapping.lookup (prepared m) t) = Some q \<and> Key q = k)" for k t
  proof (cases "k = Key p")
    case True
    then show ?thesis using own by (cases "t = tx") auto
  next
    case False
    then show ?thesis using L [of k t] assms(2) by (cases "t = tx") simp_all
  qed
  then show ?thesis by (simp add: locks_ok_def)
qed

lemma locks_ok_cong:
  "locks m' = locks m \<Longrightarrow> prepared m' = prepared m \<Longrightarrow> locks_ok m' = locks_ok m"
  by (simp add: locks_ok_def)

lemma applyCommit_cases:
  obtains (retried) "Mapping.lookup (decided m) (Tx c) = Some OpCommit" "applyCommit c m = (m, new_lresult)"
  | (unknown) r where "Mapping.lookup (prepared m) (Tx c) = None" "applyCommit c m = (m, r)"
      "Code r = CodeUnknownTx"
  | (committed) p where "Mapping.lookup (prepared m) (Tx c) = Some p"
      "Mapping.lookup (decided m) (Tx c) \<noteq> Some OpCommit"
      "applyCommit c m =
         (m\<lparr>balances := Mapping.update (Key p) (balance m (Key p) + Amount p) (balances m),
            locks := Mapping.delete (Key p) (locks m), prepared := Mapping.delete (Tx c) (prepared m),
            decided := Mapping.update (Tx c) OpCommit (decided m)\<rparr>,
          valued (balance m (Key p) + Amount p))"
proof (cases "Mapping.lookup (decided m) (Tx c) = Some OpCommit")
  case True
  then show ?thesis by (intro retried) (auto simp: applyCommit_def)
next
  case False
  show ?thesis
  proof (cases "Mapping.lookup (prepared m) (Tx c)")
    case None
    then show ?thesis using False
      by (intro unknown) (auto simp: applyCommit_def verdict_def new_lresult_def)
  next
    case (Some p)
    then show ?thesis using False
      by (intro committed) (auto simp: applyCommit_def Let_def balance_def lookup_default_def)
  qed
qed

lemma machine_ok_Commit:
  assumes "machine_ok m"
  shows "machine_ok (fst (applyCommit c m))"
proof (cases rule: applyCommit_cases [of m c])
  case (committed p)
  let ?m = "fst (applyCommit c m)"
  have ok: "locks_ok m" "prepared_ok m" "decided_ok m" "keys_ok m" using assms by (simp_all add: machine_ok_def)
  have "locks_ok ?m"
    using locks_ok_release [OF ok(1) committed(1)] by (simp add: committed(3) locks_ok_def)
  moreover have "keys_ok (m\<lparr>balances := Mapping.update (Key p) v (balances m)\<rparr>)" for v
    using ok(2,4) committed(1) by (intro keys_ok_update_existing) (auto simp: prepared_ok_def)
  then have "keys_ok ?m" by (simp add: committed(3) keys_ok_def)
  moreover have "prepared_ok ?m" using ok(2) by (auto simp: committed(3) prepared_ok_def split: if_splits)
  moreover have "decided_ok ?m" using ok(3) by (auto simp: committed(3) decided_ok_def split: if_splits)
  ultimately show ?thesis by (simp add: machine_ok_def)
qed (simp_all add: assms)

lemma applyAbort_state:
  "fst (applyAbort c m) =
     (case Mapping.lookup (prepared m) (Tx c) of
        Some p \<Rightarrow> m\<lparr>locks := Mapping.delete (Key p) (locks m), prepared := Mapping.delete (Tx c) (prepared m)\<rparr>
      | None \<Rightarrow> m)
     \<lparr>decided := if Mapping.lookup (decided m) (Tx c) = Some OpCommit then decided m
                else Mapping.update (Tx c) OpAbort (decided m)\<rparr>"
  by (auto simp: applyAbort_def Let_def split: option.splits)

lemma machine_ok_Abort:
  assumes "machine_ok m"
  shows "machine_ok (fst (applyAbort c m))"
proof -
  let ?m = "fst (applyAbort c m)"
  have ok: "locks_ok m" "prepared_ok m" "decided_ok m" "keys_ok m" using assms by (simp_all add: machine_ok_def)
  have "locks_ok ?m"
  proof (cases "Mapping.lookup (prepared m) (Tx c)")
    case None
    then have "locks ?m = locks m" "prepared ?m = prepared m" by (simp_all add: applyAbort_state)
    then show ?thesis using ok(1) locks_ok_cong by metis
  next
    case (Some p)
    then show ?thesis using locks_ok_release [OF ok(1) Some] by (simp add: applyAbort_state locks_ok_def)
  qed
  moreover have "keys_ok ?m" using ok(4) by (auto simp: applyAbort_state keys_ok_def split: option.splits)
  moreover have "prepared_ok ?m"
    using ok(2) by (auto simp: applyAbort_state prepared_ok_def split: option.splits if_splits)
  moreover have "decided_ok ?m"
    using ok(3) by (auto simp: applyAbort_state decided_ok_def split: option.splits if_splits)
  ultimately show ?thesis by (simp add: machine_ok_def)
qed

lemma machine_ok_applyLocked: "machine_ok m \<Longrightarrow> machine_ok (fst (applyLocked c m))"
  by (cases "Op c") (simp_all add: applyLocked_def machine_ok_Put machine_ok_Get machine_ok_Transfer
      machine_ok_Prepare machine_ok_Commit machine_ok_Abort)

end
