(* ===== verification/LedgerSafety.thy ===== *)
theory LedgerSafety
  imports LedgerMachine
begin

text \<open>
  What the shard state machine guarantees: its invariant over every log, conservation of money,
  solvency, the promise a YES vote makes and the finality of decisions.
\<close>

text \<open>The commands the engine and its participants put into a log.\<close>

definition putCommand :: "string \<Rightarrow> i64 \<Rightarrow> lcommand" where
  "putCommand k v = (new_lcommand OpPut)\<lparr>Key := k, Amount := v\<rparr>"

definition prepareCommand :: "string \<Rightarrow> string \<Rightarrow> i64 \<Rightarrow> lcommand" where
  "prepareCommand tx k v = (new_lcommand OpPrepare)\<lparr>Key := k, Amount := v, Tx := tx\<rparr>"

definition decideCommand :: "Op \<Rightarrow> string \<Rightarrow> lcommand" where
  "decideCommand d tx = (new_lcommand d)\<lparr>Tx := tx\<rparr>"

lemmas command_defs = putCommand_def prepareCommand_def decideCommand_def new_lcommand_def

section \<open>A log applied from the empty machine\<close>

definition runLog :: "lcommand list \<Rightarrow> machine \<Rightarrow> machine" where
  "runLog cs m = fold (\<lambda>c m. fst (applyLocked c m)) cs m"

definition replayLog :: "(bytes \<Rightarrow> string + lcommand) \<Rightarrow> (slot \<times> bytes) list \<Rightarrow> machine \<Rightarrow> machine" where
  "replayLog dec entries m = fold (\<lambda>(s, raw) m. fst (Apply dec s raw m)) entries m"

lemma runLog_simps [simp]:
  "runLog [] m = m" "runLog (c # cs) m = runLog cs (fst (applyLocked c m))"
  "runLog (cs @ ds) m = runLog ds (runLog cs m)"
  by (simp_all add: runLog_def)

lemma machine_ok_runLog: "machine_ok m \<Longrightarrow> machine_ok (runLog cs m)"
  by (induction cs arbitrary: m) (simp_all add: machine_ok_applyLocked)

lemma machine_ok_Apply: "machine_ok m \<Longrightarrow> machine_ok (fst (Apply dec s raw m))"
  by (simp add: Apply_def machine_ok_applyLocked split: sum.splits)

text \<open>
  C18: whatever bytes a shard's log holds, the machine that applied them is well formed: every lock
  belongs to exactly one prepared transaction and every prepared transaction holds its lock, a
  prepared transaction is undecided and its account exists, the decisions are commits and aborts,
  and the account limit is respected.
\<close>

theorem replay_machine_ok: "machine_ok (replayLog dec entries (new_machine k))"
  unfolding replayLog_def
  by (rule fold_invariant) (auto simp: machine_ok_new machine_ok_Apply split: prod.splits)

section \<open>Conservation of money\<close>

definition total :: "machine \<Rightarrow> i64" where
  "total m = (\<Sum>k \<in> Mapping.keys (balances m). balance m k)"

lemma total_update_existing:
  assumes "finite (Mapping.keys (balances m))" and "Mapping.lookup (balances m) k \<noteq> None"
  shows "total (m\<lparr>balances := Mapping.update k v (balances m)\<rparr>) = total m - balance m k + v"
proof -
  let ?K = "Mapping.keys (balances m)"
  have k: "k \<in> ?K" using assms(2) by (simp add: in_keys_lookup)
  let ?m = "m\<lparr>balances := Mapping.update k v (balances m)\<rparr>"
  have K: "Mapping.keys (balances ?m) = ?K" using k by auto
  have "(\<Sum>j \<in> ?K - {k}. balance ?m j) = (\<Sum>j \<in> ?K - {k}. balance m j)"
    by (rule sum.cong) (auto simp: balance_def lookup_default_def)
  moreover have "balance ?m k = v" by (simp add: balance_def lookup_default_def)
  ultimately show ?thesis
    unfolding total_def K using sum.remove [OF assms(1) k, of "balance m"] sum.remove [OF assms(1) k, of "balance ?m"]
    by (simp add: algebra_simps)
qed

lemma total_cong: "balances m' = balances m \<Longrightarrow> total m' = total m"
  by (simp add: total_def balance_def)

lemma total_infinite: "infinite (Mapping.keys (balances m)) \<Longrightarrow> total m = 0"
  by (simp add: total_def)

lemma transfer_total: "total (fst (applyTransfer c m)) = total m"
proof (cases rule: applyTransfer_cases [of c m])
  case (moved v)
  let ?b = "Mapping.update (Key c) (balance m (Key c) - Amount c) (balances m)"
  let ?w = "if To c = Key c then balance m (Key c) else balance m (To c) + Amount c"
  let ?m1 = "m\<lparr>balances := ?b\<rparr>" and ?m2 = "m\<lparr>balances := Mapping.update (To c) ?w ?b\<rparr>"
  have K: "Mapping.keys (balances ?m2) = Mapping.keys (balances m)"
    using moved(1,2) by (auto simp: keys_dom_lookup split: if_splits)
  show ?thesis
  proof (cases "finite (Mapping.keys (balances m))")
    case True
    have 1: "total ?m1 = total m - Amount c"
      using total_update_existing [OF True moved(1)] by simp
    have 2: "balance ?m1 (To c) = (if To c = Key c then balance m (Key c) - Amount c else balance m (To c))"
      by (simp add: balance_def lookup_default_def)
    have "finite (Mapping.keys (balances ?m1))" using True by simp
    from total_update_existing [OF this, of "To c" ?w] moved(2)
    have "total ?m2 = total ?m1 - balance ?m1 (To c) + ?w" by simp
    then show ?thesis unfolding moved(7) 1 2 by simp
  next
    case False
    then show ?thesis unfolding moved(7) using K total_infinite by (metis fst_conv)
  qed
qed simp

text \<open>
  A transfer inside a shard conserves the money of the shard, whether it is refused, moves
  funds between two accounts or names the same account twice.
\<close>

theorem transfer_conserves: "total (fst (applyTransfer c m)) = total m"
  by (rule transfer_total)

lemma commit_adds:
  assumes "machine_ok m" and "Mapping.lookup (prepared m) (Tx c) = Some p"
  shows "total (fst (applyCommit c m)) = total m + Amount p"
proof (cases rule: applyCommit_cases [of m c])
  case (committed q)
  have "Mapping.lookup (balances m) (Key p) \<noteq> None" "finite (Mapping.keys (balances m))"
    using assms by (auto simp: machine_ok_def prepared_ok_def keys_ok_def)
  then have "total (m\<lparr>balances := Mapping.update (Key p) (balance m (Key p) + Amount p) (balances m)\<rparr>)
      = total m + Amount p"
    using total_update_existing [of m "Key p"] by simp
  moreover have "q = p" using committed(1) assms(2) by simp
  ultimately show ?thesis unfolding committed(3) by (simp add: total_def balance_def)
qed (use assms in \<open>auto simp: machine_ok_def prepared_ok_def\<close>)

section \<open>What a YES vote promises\<close>

definition holds :: "lcommand \<Rightarrow> i64 \<Rightarrow> machine \<Rightarrow> bool" where
  "holds c v m \<longleftrightarrow> machine_ok m \<and> Mapping.lookup (prepared m) (Tx c) = Some c \<and> balance m (Key c) = v"

definition decides :: "lcommand \<Rightarrow> string \<Rightarrow> bool" where
  "decides d tx \<longleftrightarrow> Tx d = tx \<and> (Op d = OpCommit \<or> Op d = OpAbort)"

lemma holds_locked: "holds c v m \<Longrightarrow> Mapping.lookup (locks m) (Key c) = Some (Tx c)"
  by (auto simp: holds_def machine_ok_def locks_ok_def)

lemma locks_ok_own:
  assumes "locks_ok m" and "Mapping.lookup (prepared m) t = Some p"
    and "Mapping.lookup (prepared m) u = Some q" and "Key p = Key q"
  shows "t = u"
proof -
  have "Mapping.lookup (locks m) (Key q) = Some t" "Mapping.lookup (locks m) (Key q) = Some u"
    using assms by (auto simp: locks_ok_def)
  then show ?thesis by simp
qed

lemma holds_step:
  assumes h: "holds c v m" and d: "\<not> decides d (Tx c)"
  shows "holds c v (fst (applyLocked d m))"
proof -
  have ok: "machine_ok (fst (applyLocked d m))" using h machine_ok_applyLocked by (simp add: holds_def)
  have L: "Mapping.lookup (locks m) (Key c) = Some (Tx c)" by (rule holds_locked [OF h])
  have P: "Mapping.lookup (prepared m) (Tx c) = Some c" and v: "balance m (Key c) = v"
    and lok: "locks_ok m" using h by (simp_all add: holds_def machine_ok_def)
  have "Mapping.lookup (prepared (fst (applyLocked d m))) (Tx c) = Some c
      \<and> balance (fst (applyLocked d m)) (Key c) = v"
  proof (cases "Op d")
    case OpPut
    then show ?thesis using P L v
      by (auto simp: applyLocked_def applyPut_def balance_def lookup_default_def split: option.splits)
  next
    case OpGet
    then show ?thesis using P v by (simp add: applyLocked_def applyGet_def split: option.splits)
  next
    case OpTransfer
    show ?thesis
    proof (cases rule: applyTransfer_cases [of d m])
      case (moved w)
      then have "Key d \<noteq> Key c" "To d \<noteq> Key c" using L by auto
      then show ?thesis using OpTransfer P v moved(7)
        by (simp add: applyLocked_def balance_def lookup_default_def)
    qed (use OpTransfer P v in \<open>simp_all add: applyLocked_def\<close>)
  next
    case OpPrepare
    show ?thesis
      by (cases rule: prepareLocked_cases [of m d])
        (use OpPrepare P v in \<open>auto simp: applyLocked_def balance_def\<close>)
  next
    case OpCommit
    then have t: "Tx d \<noteq> Tx c" using d by (simp add: decides_def)
    show ?thesis
    proof (cases rule: applyCommit_cases [of m d])
      case (committed p)
      have "Key p \<noteq> Key c" using locks_ok_own [OF lok committed(1) P] t by blast
      then show ?thesis using OpCommit P v t committed(3)
        by (simp add: applyLocked_def balance_def lookup_default_def)
    qed (use OpCommit P v in \<open>simp_all add: applyLocked_def\<close>)
  next
    case OpAbort
    then have "Tx d \<noteq> Tx c" using d by (simp add: decides_def)
    then show ?thesis using OpAbort P v
      by (auto simp: applyLocked_def applyAbort_state balance_def split: option.splits)
  next
    case (OpOther s)
    then show ?thesis using P v by (simp add: applyLocked_def)
  qed
  then show ?thesis using ok by (simp add: holds_def)
qed

lemma holds_runLog:
  "holds c v m \<Longrightarrow> list_all (\<lambda>d. \<not> decides d (Tx c)) cs \<Longrightarrow> holds c v (runLog cs m)"
  by (induction cs arbitrary: m) (simp_all add: holds_step)

lemma vote_holds:
  assumes "machine_ok m" and "Op c = OpPrepare" and "Code (snd (applyLocked c m)) = CodeOK"
  shows "holds c (balance m (Key c)) (fst (applyLocked c m))"
proof -
  have ok: "machine_ok (fst (applyLocked c m))" using assms(1) by (rule machine_ok_applyLocked)
  show ?thesis
    by (cases rule: prepareLocked_cases [of m c])
      (use assms ok in \<open>auto simp: applyLocked_def holds_def balance_def\<close>)
qed

lemma holds_commit:
  assumes "holds c v m" and "Op q = OpCommit" and "Tx q = Tx c"
  shows "snd (applyLocked q m) = valued (v + Amount c)
    \<and> balance (fst (applyLocked q m)) (Key c) = v + Amount c"
proof -
  have P: "Mapping.lookup (prepared m) (Tx q) = Some c" and v: "balance m (Key c) = v"
    and U: "Mapping.lookup (decided m) (Tx q) = None"
    using assms by (auto simp: holds_def machine_ok_def prepared_ok_def)
  show ?thesis
    by (cases rule: applyCommit_cases [of m q])
      (use P v U assms(2) in \<open>simp_all add: applyLocked_def balance_def lookup_default_def\<close>)
qed

text \<open>
  C19: a YES vote is a guarantee.  On a shard that has applied any log, once a prepare is answered
  without error, whatever further commands the shard applies, short of a decision on that very
  transaction, the commit applies: it succeeds and leaves the account at the balance it had when
  the vote was cast plus the prepared delta.
\<close>

theorem yes_vote_commits:
  assumes "Op c = OpPrepare"
    and "Code (snd (applyLocked c (runLog past (new_machine k)))) = CodeOK"
    and "list_all (\<lambda>d. \<not> decides d (Tx c)) later"
    and "Op q = OpCommit" and "Tx q = Tx c"
  shows "let m = runLog past (new_machine k); v = balance m (Key c) + Amount c;
             (m', r) = applyLocked q (runLog later (fst (applyLocked c m)))
         in r = valued v \<and> balance m' (Key c) = v"
proof -
  let ?m = "runLog past (new_machine k)"
  have "holds c (balance ?m (Key c)) (fst (applyLocked c ?m))"
    using machine_ok_runLog [OF machine_ok_new] assms(1,2) by (rule vote_holds)
  from holds_commit [OF holds_runLog [OF this assms(3)] assms(4,5)]
  show ?thesis by (simp add: Let_def case_prod_beta)
qed

theorem yes_vote_commits_witness:
  "let m = runLog [putCommand ''alice'' 100] (new_machine 8); c = prepareCommand ''tx1'' ''alice'' (- 30);
       (m', r) = applyLocked (decideCommand OpCommit ''tx1'')
                   (runLog [putCommand ''alice'' 5, putCommand ''bob'' 7] (fst (applyLocked c m)))
   in r = valued 70 \<and> balance m' ''alice'' = 70"
proof -
  have "Code (snd (applyLocked (prepareCommand ''tx1'' ''alice'' (- 30))
      (runLog [putCommand ''alice'' 100] (new_machine 8)))) = CodeOK"
    by code_simp
  moreover have "balance (runLog [putCommand ''alice'' 100] (new_machine 8)) ''alice'' + - 30 = (70 :: i64)"
    by code_simp
  ultimately show ?thesis
    using yes_vote_commits [of "prepareCommand ''tx1'' ''alice'' (- 30)" "[putCommand ''alice'' 100]" 8
        "[putCommand ''alice'' 5, putCommand ''bob'' 7]" "decideCommand OpCommit ''tx1''"]
    by (simp add: Let_def decides_def command_defs)
qed

section \<open>Decisions are final, retries change nothing\<close>

lemma decided_step:
  assumes "machine_ok m" and "Mapping.lookup (decided m) tx = Some d"
  shows "Mapping.lookup (decided (fst (applyLocked c m))) tx = Some d"
proof (cases "Op c")
  case OpPut
  then show ?thesis using assms by (auto simp: applyLocked_def applyPut_def split: option.splits)
next
  case OpGet
  then show ?thesis using assms by (auto simp: applyLocked_def applyGet_def split: option.splits)
next
  case OpTransfer
  then show ?thesis using assms(2)
    by (cases rule: applyTransfer_cases [of c m]) (simp_all add: applyLocked_def)
next
  case OpPrepare
  then show ?thesis using assms(2)
    by (cases rule: prepareLocked_cases [of m c]) (simp_all add: applyLocked_def)
next
  case OpCommit
  show ?thesis
  proof (cases rule: applyCommit_cases [of m c])
    case (committed p)
    then have "Tx c \<noteq> tx" using assms by (auto simp: machine_ok_def prepared_ok_def)
    then show ?thesis using assms(2) OpCommit committed(3) by (simp add: applyLocked_def)
  qed (use OpCommit assms(2) in \<open>simp_all add: applyLocked_def\<close>)
next
  case OpAbort
  have "d = OpCommit \<or> d = OpAbort" using assms by (auto simp: machine_ok_def decided_ok_def)
  then show ?thesis using assms(2) OpAbort
    by (auto simp: applyLocked_def applyAbort_state split: option.splits)
next
  case (OpOther s)
  then show ?thesis using assms by (simp add: applyLocked_def)
qed

lemma decided_runLog:
  "machine_ok m \<Longrightarrow> Mapping.lookup (decided m) tx = Some d \<Longrightarrow>
   Mapping.lookup (decided (runLog cs m)) tx = Some d"
  by (induction cs arbitrary: m) (simp_all add: decided_step machine_ok_applyLocked)

text \<open>
  C20: decisions are final and retries are harmless.  Once a shard has decided a transaction, in
  any later state of its log the decision stands; a repeated commit of a committed transaction
  and a repeated abort of an aborted one succeed and leave the machine as it is; a commit after an
  abort is refused and changes nothing; and a late prepare takes no lock.
\<close>

theorem decisions_final:
  assumes "Mapping.lookup (decided (runLog past (new_machine k))) tx = Some d"
  shows "let m = runLog (past @ later) (new_machine k)
         in Mapping.lookup (decided m) tx = Some d
            \<and> (if d = OpCommit then applyLocked (decideCommand OpCommit tx) m = (m, new_lresult)
               else Code (snd (applyLocked (decideCommand OpCommit tx) m)) = CodeUnknownTx
                 \<and> fst (applyLocked (decideCommand OpCommit tx) m) = m
                 \<and> balances (fst (applyLocked (decideCommand OpAbort tx) m)) = balances m)
            \<and> locks (fst (applyLocked (prepareCommand tx a v) m)) = locks m"
proof -
  define m where "m = runLog (past @ later) (new_machine k)"
  have ok: "machine_ok m" unfolding m_def by (rule machine_ok_runLog [OF machine_ok_new])
  have D: "Mapping.lookup (decided m) tx = Some d"
    using decided_runLog [OF machine_ok_runLog [OF machine_ok_new] assms] by (simp add: m_def)
  have P: "Mapping.lookup (prepared m) tx = None"
    using ok D by (cases "Mapping.lookup (prepared m) tx") (auto simp: machine_ok_def prepared_ok_def)
  have "d = OpCommit \<Longrightarrow> applyLocked (decideCommand OpCommit tx) m = (m, new_lresult)"
    using D by (simp add: applyLocked_def applyCommit_def command_defs)
  moreover have "d \<noteq> OpCommit \<Longrightarrow> Code (snd (applyLocked (decideCommand OpCommit tx) m)) = CodeUnknownTx
      \<and> fst (applyLocked (decideCommand OpCommit tx) m) = m"
    using D P by (simp add: applyLocked_def applyCommit_def command_defs verdict_def)
  moreover have "balances (fst (applyLocked (decideCommand OpAbort tx) m)) = balances m"
    using P by (simp add: applyLocked_def applyAbort_state command_defs)
  moreover have "locks (fst (applyLocked (prepareCommand tx a v) m)) = locks m"
    using P D by (simp add: applyLocked_def prepareLocked_def command_defs)
  ultimately show ?thesis using D unfolding Let_def m_def [symmetric] by auto
qed

theorem decisions_final_witness:
  "Mapping.lookup (decided (runLog ([putCommand ''a'' 9, prepareCommand ''t'' ''a'' 1, decideCommand OpAbort ''t'']
      @ [decideCommand OpCommit ''t'']) (new_machine 0))) ''t'' = Some OpAbort"
proof -
  have "Mapping.lookup (decided (runLog [putCommand ''a'' 9, prepareCommand ''t'' ''a'' 1, decideCommand OpAbort ''t'']
      (new_machine 0))) ''t'' = Some OpAbort"
    by code_simp
  from decisions_final [OF this, of "[decideCommand OpCommit ''t'']"] show ?thesis
    by (simp only: Let_def conj_assoc)
qed

section \<open>No account is overdrawn\<close>

text \<open>
  Amounts are 64-bit words read with sign, so a credit can wrap.  \<open>credit_fits\<close> says that the
  amounts a command writes or moves are not negative and that the account it credits has room.
\<close>

definition room :: "machine \<Rightarrow> string \<Rightarrow> i64 \<Rightarrow> bool" where
  "room m k v \<longleftrightarrow> sint (balance m k) + sint v < 2 ^ 63"

definition credit_fits :: "machine \<Rightarrow> lcommand \<Rightarrow> bool" where
  "credit_fits m c \<longleftrightarrow>
     (case Op c of
        OpPut \<Rightarrow> 0 \<le> sint (Amount c)
      | OpTransfer \<Rightarrow> 0 \<le> sint (Amount c) \<and> room m (To c) (Amount c)
      | OpCommit \<Rightarrow>
          (case Mapping.lookup (prepared m) (Tx c) of None \<Rightarrow> True | Some p \<Rightarrow> room m (Key p) (Amount p))
      | _ \<Rightarrow> True)"

fun all_fit :: "lcommand list \<Rightarrow> machine \<Rightarrow> bool" where
  "all_fit [] m \<longleftrightarrow> True"
| "all_fit (c # cs) m \<longleftrightarrow> credit_fits m c \<and> all_fit cs (fst (applyLocked c m))"

definition solvent :: "machine \<Rightarrow> bool" where
  "solvent m \<longleftrightarrow> (\<forall>k. 0 \<le> sint (balance m k))
     \<and> (\<forall>tx p. Mapping.lookup (prepared m) tx = Some p \<longrightarrow>
          0 \<le> sint (Amount p) \<or> 0 \<le> sint (balance m (Key p) + Amount p))"

lemma sint_sum_fits:
  fixes v w :: i64
  assumes "- (2 ^ 63) \<le> sint v + sint w" and "sint v + sint w < 2 ^ 63"
  shows "sint (v + w) = sint v + sint w"
proof -
  have "sint (v + w) = signed_take_bit 63 (sint v + sint w)" by (simp add: sint_word_ariths)
  also have "\<dots> = sint v + sint w" using assms by (intro signed_take_bit_int_eq_self) simp_all
  finally show ?thesis .
qed

lemma sint_diff_fits:
  fixes v w :: i64
  assumes "- (2 ^ 63) \<le> sint v - sint w" and "sint v - sint w < 2 ^ 63"
  shows "sint (v - w) = sint v - sint w"
proof -
  have "sint (v - w) = signed_take_bit 63 (sint v - sint w)" by (simp add: sint_word_ariths)
  also have "\<dots> = sint v - sint w" using assms by (intro signed_take_bit_int_eq_self) simp_all
  finally show ?thesis .
qed

lemma i64_range: "- (2 ^ 63) \<le> sint (v :: i64)" "sint (v :: i64) < 2 ^ 63"
  using sint_greater_eq [of v] sint_less [of v] by simp_all

lemma solvent_update:
  assumes "solvent m" and "0 \<le> sint v" and "balances m' = Mapping.update k v (balances m)"
    and "prepared m' = prepared m"
    and "\<And>tx p. Mapping.lookup (prepared m) tx = Some p \<Longrightarrow> Key p \<noteq> k"
  shows "solvent m'"
proof -
  have b: "balance m' j = (if j = k then v else balance m j)" for j
    using assms(3) by (simp add: balance_def lookup_default_def)
  show ?thesis unfolding solvent_def b assms(4) using assms(1,2,5) unfolding solvent_def by auto
qed

lemma prepared_not_key:
  assumes "machine_ok m" and "Mapping.lookup (locks m) k = None"
    and "Mapping.lookup (prepared m) tx = Some p"
  shows "Key p \<noteq> k"
proof
  assume "Key p = k"
  then have "Mapping.lookup (locks m) k = Some tx"
    using assms(1,3) unfolding machine_ok_def locks_ok_def by blast
  then show False using assms(2) by simp
qed

lemma solvent_Transfer:
  assumes "solvent m" and "machine_ok m" and "0 \<le> sint (Amount c)" and "room m (To c) (Amount c)"
  shows "solvent (fst (applyTransfer c m))"
proof (cases rule: applyTransfer_cases [of c m])
  case (moved v)
  let ?m1 = "m\<lparr>balances := Mapping.update (Key c) (balance m (Key c) - Amount c) (balances m)\<rparr>"
  have pos: "0 \<le> sint (balance m (Key c))" "0 \<le> sint (balance m (To c))"
    using assms(1) by (simp_all add: solvent_def)
  have "sint (balance m (Key c) - Amount c) = sint (balance m (Key c)) - sint (Amount c)"
    using moved(5) assms(3) i64_range [of "balance m (Key c)"] pos(1)
    by (intro sint_diff_fits) simp_all
  then have "solvent ?m1"
    using moved(5) prepared_not_key [OF assms(2) moved(3)]
    by (intro solvent_update [OF assms(1)]) simp_all
  moreover have "sint (balance m (To c) + Amount c) = sint (balance m (To c)) + sint (Amount c)"
    using assms(3,4) pos(2) by (intro sint_sum_fits) (simp_all add: room_def)
  then have "0 \<le> sint (if To c = Key c then balance m (Key c) else balance m (To c) + Amount c)"
    using pos assms(3) by simp
  ultimately show ?thesis
    unfolding moved(7) fst_conv
    by (rule solvent_update) (use prepared_not_key [OF assms(2) moved(4)] in simp_all)
qed (simp add: assms)

lemma solvent_Prepare: "solvent m \<Longrightarrow> solvent (fst (prepareLocked c m))"
  by (cases rule: prepareLocked_cases [of m c]) (auto simp: solvent_def balance_def split: if_splits)

lemma solvent_Commit:
  assumes "solvent m" and "machine_ok m"
    and "\<And>p. Mapping.lookup (prepared m) (Tx c) = Some p \<Longrightarrow> room m (Key p) (Amount p)"
  shows "solvent (fst (applyCommit c m))"
proof (cases rule: applyCommit_cases [of m c])
  case (committed p)
  let ?m = "m\<lparr>prepared := Mapping.delete (Tx c) (prepared m)\<rparr>"
  have "0 \<le> sint (balance m (Key p))" using assms(1) by (simp add: solvent_def)
  then have "0 \<le> sint (Amount p) \<Longrightarrow> 0 \<le> sint (balance m (Key p) + Amount p)"
    using assms(3) [OF committed(1)] sint_sum_fits [of "balance m (Key p)" "Amount p"] by (simp add: room_def)
  then have v: "0 \<le> sint (balance m (Key p) + Amount p)"
    using assms(1) committed(1) unfolding solvent_def by blast
  have "solvent ?m" using assms(1) by (auto simp: solvent_def balance_def split: if_splits)
  note upd = solvent_update [OF this v]
  have "Key q \<noteq> Key p" if q: "Mapping.lookup (prepared ?m) tx = Some q" for tx q
    using locks_ok_own [of m tx q "Tx c" p] committed(1) assms(2) q
    by (auto simp: machine_ok_def split: if_splits)
  then show ?thesis
    unfolding committed(3) fst_conv by (intro upd [of _ "Key p"]) simp_all
qed (simp_all add: assms)

lemma solvent_Abort: "solvent m \<Longrightarrow> solvent (fst (applyAbort c m))"
  by (auto simp: solvent_def applyAbort_state balance_def split: option.splits if_splits)

lemma solvent_Put:
  assumes "solvent m" and "machine_ok m" and "0 \<le> sint (Amount c)"
  shows "solvent (fst (applyPut c m))"
proof (cases "Mapping.lookup (locks m) (Key c)")
  case None
  have "solvent (m\<lparr>balances := Mapping.update (Key c) (Amount c) (balances m)\<rparr>)"
    using prepared_not_key [OF assms(2) None] by (intro solvent_update [OF assms(1,3)]) simp_all
  then show ?thesis using assms(1) None by (simp add: applyPut_def)
qed (simp add: applyPut_def assms(1))

lemma solvent_step:
  "solvent m \<Longrightarrow> machine_ok m \<Longrightarrow> credit_fits m c \<Longrightarrow> solvent (fst (applyLocked c m))"
  by (cases "Op c")
    (auto simp: applyLocked_def credit_fits_def applyGet_def solvent_Put solvent_Transfer solvent_Prepare
      solvent_Abort intro!: solvent_Commit split: option.splits)

lemma solvent_runLog: "solvent m \<Longrightarrow> machine_ok m \<Longrightarrow> all_fit cs m \<Longrightarrow> solvent (runLog cs m)"
  by (induction cs arbitrary: m) (simp_all add: solvent_step machine_ok_applyLocked)

lemma solvent_new: "solvent (new_machine k)"
  by (simp add: solvent_def new_machine_def balance_def lookup_default_def)

text \<open>
  C21: no overdraft.  As long as the amounts written and moved are not negative and every credit
  fits in 64 bits, no account of a shard ever goes below zero, and every debit that is held by a
  prepared transaction is covered by the account's balance.
\<close>

theorem no_overdraft:
  assumes "all_fit cs (new_machine n)"
  shows "solvent (runLog cs (new_machine n))"
  using assms by (intro solvent_runLog solvent_new machine_ok_new)

definition wit_spending :: "lcommand list" where
  "wit_spending = [putCommand ''a'' 10, putCommand ''b'' 1, prepareCommand ''t'' ''a'' (- 10),
     (new_lcommand OpTransfer)\<lparr>Key := ''b'', To := ''a'', Amount := 1\<rparr>, decideCommand OpCommit ''t'']"

theorem no_overdraft_witness:
  "all_fit wit_spending (new_machine 0) \<and> solvent (runLog wit_spending (new_machine 0))"
proof -
  have "all_fit wit_spending (new_machine 0)" by code_simp
  then show ?thesis using no_overdraft [of wit_spending 0] by blast
qed

text \<open>
  The room for the credit matters, because the code does not check it.  A transfer of one
  unit, between two accounts with positive balances and accepted without error, leaves the
  credited account at the most negative balance there is.
\<close>

theorem credit_wraps:
  "let m = runLog [putCommand ''a'' 1, putCommand ''b'' 9223372036854775807] (new_machine 0);
       (m', r) = applyLocked ((new_lcommand OpTransfer)\<lparr>Key := ''a'', To := ''b'', Amount := 1\<rparr>) m
   in Code r = CodeOK \<and> sint (balance m ''b'') > 0 \<and> sint (balance m' ''b'') = - (2 ^ 63)"
  by code_simp

end
