(* ===== verification/Logstream.thy ===== *)
theory Logstream
  imports GoErrors
begin

text \<open>
  Events and the emitters that stamp them, from \<^verbatim>\<open>src/internal/logstream/logstream.go\<close>.  A level is a
  string in Go: the seven constants are constructors, any other string is \<open>OtherLevel\<close>.  A sink is
  a function on the state that receives the events.
\<close>

datatype Level =
  PaxosLevel | TwoPCLevel | LeaderLevel | NetLevel | ErrorLevel | ClientLevel | InfoLevel
| OtherLevel string

fun level_string :: "Level \<Rightarrow> string" where
  "level_string PaxosLevel = ''paxos''"
| "level_string TwoPCLevel = ''twopc''"
| "level_string LeaderLevel = ''leader''"
| "level_string NetLevel = ''net''"
| "level_string ErrorLevel = ''error''"
| "level_string ClientLevel = ''client''"
| "level_string InfoLevel = ''info''"
| "level_string (OtherLevel s) = s"

fun Valid :: "Level \<Rightarrow> bool" where
  "Valid (OtherLevel s) = False"
| "Valid _ = True"

record Event =
  ELevel :: Level
  ETag :: string
  EMsg :: string
  EFrom :: string
  ETo :: string
  EKind :: string

type_synonym 'w sink = "Event \<Rightarrow> 'w \<Rightarrow> 'w"

definition Discard :: "'w sink" where
  "Discard = (\<lambda>_ w. w)"

record 'w emitter =
  esink :: "'w sink"
  etag :: string

text \<open>A nil sink is treated as \<open>Discard\<close>; a nil emitter emits nothing.\<close>

definition NewEmitter :: "'w sink option \<Rightarrow> string \<Rightarrow> 'w emitter" where
  "NewEmitter s tag = \<lparr>esink = (case s of None \<Rightarrow> Discard | Some f \<Rightarrow> f), etag = tag\<rparr>"

definition WithTag :: "'w emitter \<Rightarrow> string \<Rightarrow> 'w emitter" where
  "WithTag e tag = \<lparr>esink = esink e, etag = tag\<rparr>"

definition plain_event :: "Level \<Rightarrow> string \<Rightarrow> string \<Rightarrow> Event" where
  "plain_event l tag msg = \<lparr>ELevel = l, ETag = tag, EMsg = msg, EFrom = [], ETo = [], EKind = []\<rparr>"

definition emitter_emit :: "'w emitter option \<Rightarrow> Level \<Rightarrow> string \<Rightarrow> 'w \<Rightarrow> 'w" where
  "emitter_emit e l msg =
     (case e of None \<Rightarrow> id | Some em \<Rightarrow> esink em (plain_event l (etag em) msg))"

definition Edge :: "'w emitter option \<Rightarrow> Level \<Rightarrow> string \<Rightarrow> string \<Rightarrow> string \<Rightarrow> string \<Rightarrow> 'w \<Rightarrow> 'w" where
  "Edge e l src dst kind msg =
     (case e of
        None \<Rightarrow> id
      | Some em \<Rightarrow>
          esink em \<lparr>ELevel = l, ETag = etag em, EMsg = msg, EFrom = src, ETo = dst, EKind = kind\<rparr>)"

abbreviation log_TwoPC :: "'w emitter \<Rightarrow> string \<Rightarrow> 'w \<Rightarrow> 'w" where
  "log_TwoPC e \<equiv> emitter_emit (Some e) TwoPCLevel"

abbreviation log_Error :: "'w emitter \<Rightarrow> string \<Rightarrow> 'w \<Rightarrow> 'w" where
  "log_Error e \<equiv> emitter_emit (Some e) ErrorLevel"

end
