(* ===== verification/TwoPhase.thy ===== *)
theory TwoPhase
  imports Logstream
begin

text \<open>
  The two-phase-commit coordinator of \<^verbatim>\<open>src/internal/twopc/twopc.go\<close>.  The interface \<^verbatim>\<open>Participant\<close> is
  a record of calls on a world \<open>'w\<close> that holds the shards, whatever lies between them and the
  coordinator, and the sink of the coordinator's events; a call returns nil (\<open>None\<close>) or an error.
  The background goroutines are the list of commits still to be delivered, and one tick of a
  goroutine's timer is a step.
\<close>

record ('p, 'w) participant_ops =
  PName :: "'p \<Rightarrow> string"
  PPrepare :: "'p \<Rightarrow> string \<Rightarrow> string \<Rightarrow> i64 \<Rightarrow> 'w \<Rightarrow> 'w \<times> goerror option"
  PCommit :: "'p \<Rightarrow> string \<Rightarrow> 'w \<Rightarrow> 'w \<times> goerror option"
  PAbort :: "'p \<Rightarrow> string \<Rightarrow> 'w \<Rightarrow> 'w \<times> goerror option"

definition Coordinator2PC :: string where
  "Coordinator2PC = ''2pc''"

record ('p, 'w) coordinator =
  clog :: "'w emitter"
  seq :: nat
  RetryEvery :: nat
  bg :: "(string \<times> 'p) list"
  cclosed :: bool

definition coordinator_New :: "'w sink \<Rightarrow> ('p, 'w) coordinator" where
  "coordinator_New sink =
     \<lparr>clog = NewEmitter (Some sink) ''[2PC]'', seq = 0, RetryEvery = 400, bg = [], cclosed = False\<rparr>"

record 'p leg =
  leg_p :: 'p
  leg_key :: string
  leg_delta :: i64

definition abs_i64 :: "i64 \<Rightarrow> i64" where
  "abs_i64 v = (if sint v < 0 then - v else v)"

definition bracket :: "string \<Rightarrow> string" where
  "bracket s = ''['' @ s @ '']''"

text \<open>The lines of the coordinator's log about one leg.\<close>

definition log_prepare :: "('p, 'w) participant_ops \<Rightarrow> 'w emitter \<Rightarrow> string \<Rightarrow> 'p leg \<Rightarrow> 'w \<Rightarrow> 'w" where
  "log_prepare P lg tx l =
     Edge (Some lg) TwoPCLevel Coordinator2PC (PName P (leg_p l)) ''prepare''
       (''PREPARE '' @ tx @ '' -> '' @ PName P (leg_p l) @ '': ''
        @ (if sint (leg_delta l) < 0 then ''debit'' else ''credit'') @ '' '' @ leg_key l @ '' ''
        @ show_i64 (abs_i64 (leg_delta l)))"

definition log_skipped :: "('p, 'w) participant_ops \<Rightarrow> 'w emitter \<Rightarrow> 'p leg \<Rightarrow> 'w \<Rightarrow> 'w" where
  "log_skipped P lg l =
     log_TwoPC lg (''PREPARE '' @ PName P (leg_p l) @ '' skipped: a participant already voted NO'')"

definition log_vote :: "('p, 'w) participant_ops \<Rightarrow> 'w emitter \<Rightarrow> string \<Rightarrow> 'p leg \<Rightarrow> goerror option \<Rightarrow> 'w \<Rightarrow> 'w" where
  "log_vote P lg tx l v =
     (let name = PName P (leg_p l); vlg = WithTag lg (bracket name)
      in case v of
           Some err \<Rightarrow> Edge (Some vlg) ErrorLevel name Coordinator2PC ''vote-no'' (''vote NO: '' @ Error err)
         | None \<Rightarrow> Edge (Some vlg) TwoPCLevel name Coordinator2PC ''vote-yes''
                     (''vote YES: '' @ leg_key l @ '' locked for '' @ tx))"

definition log_abort :: "('p, 'w) participant_ops \<Rightarrow> 'w emitter \<Rightarrow> 'p leg \<Rightarrow> goerror option \<Rightarrow> 'w \<Rightarrow> 'w" where
  "log_abort P lg l r =
     (let name = PName P (leg_p l)
      in case r of
           Some err \<Rightarrow> log_Error (WithTag lg (bracket name))
                         (''abort not delivered, lock may linger: '' @ Error err)
         | None \<Rightarrow> Edge (Some lg) TwoPCLevel Coordinator2PC name ''abort'' (''ABORT -> '' @ name @ '' released''))"

definition log_commit :: "('p, 'w) participant_ops \<Rightarrow> 'w emitter \<Rightarrow> 'p leg \<Rightarrow> goerror option \<Rightarrow> 'w \<Rightarrow> 'w" where
  "log_commit P lg l r =
     (let name = PName P (leg_p l)
      in case r of
           Some err \<Rightarrow> log_Error (WithTag lg (bracket name)) (''commit not delivered: '' @ Error err)
         | None \<Rightarrow> Edge (Some lg) TwoPCLevel Coordinator2PC name ''commit'' (''COMMIT -> '' @ name @ '' applied''))"

text \<open>
  The prepare loop: \<open>refusal\<close> is the variable of that name, \<open>yes\<close> the counter \<^verbatim>\<open>prepared\<close>.  Once a
  participant has refused, the rest are skipped.
\<close>

fun prepare_legs :: "('p, 'w) participant_ops \<Rightarrow> 'w emitter \<Rightarrow> string \<Rightarrow> 'p leg list \<Rightarrow>
    goerror option \<Rightarrow> nat \<Rightarrow> 'w \<Rightarrow> 'w \<times> goerror option \<times> nat" where
  "prepare_legs P lg tx [] refusal yes w = (w, refusal, yes)"
| "prepare_legs P lg tx (l # ls) (Some r) yes w =
     prepare_legs P lg tx ls (Some r) yes (log_skipped P lg l w)"
| "prepare_legs P lg tx (l # ls) None yes w =
     (case PPrepare P (leg_p l) tx (leg_key l) (leg_delta l) (log_prepare P lg tx l w) of
        (w1, Some err) \<Rightarrow>
          prepare_legs P lg tx ls (Some (Errorf (PName P (leg_p l) @ '' voted NO: '') err [])) yes
            (log_vote P lg tx l (Some err) w1)
      | (w1, None) \<Rightarrow> prepare_legs P lg tx ls None (Suc yes) (log_vote P lg tx l None w1))"

fun abort_legs :: "('p, 'w) participant_ops \<Rightarrow> 'w emitter \<Rightarrow> string \<Rightarrow> 'p leg list \<Rightarrow> 'w \<Rightarrow> 'w" where
  "abort_legs P lg tx [] w = w"
| "abort_legs P lg tx (l # ls) w =
     (case PAbort P (leg_p l) tx w of (w1, r) \<Rightarrow> abort_legs P lg tx ls (log_abort P lg l r w1))"

fun commit_legs :: "('p, 'w) participant_ops \<Rightarrow> 'w emitter \<Rightarrow> string \<Rightarrow> 'p leg list \<Rightarrow> 'p list \<Rightarrow>
    'w \<Rightarrow> 'w \<times> 'p list" where
  "commit_legs P lg tx [] undelivered w = (w, undelivered)"
| "commit_legs P lg tx (l # ls) undelivered w =
     (case PCommit P (leg_p l) tx w of
        (w1, r) \<Rightarrow>
          commit_legs P lg tx ls (if r = None then undelivered else undelivered @ [leg_p l])
            (log_commit P lg l r w1))"

definition retryInBackground :: "string \<Rightarrow> 'p \<Rightarrow> ('p, 'w) coordinator \<Rightarrow> ('p, 'w) coordinator" where
  "retryInBackground tx p c = (if cclosed c then c else c\<lparr>bg := bg c @ [(tx, p)]\<rparr>)"

definition tx_name :: "nat \<Rightarrow> string" where
  "tx_name n = ''tx'' @ itoa n"

definition transfer_legs :: "'p \<Rightarrow> string \<Rightarrow> 'p \<Rightarrow> string \<Rightarrow> i64 \<Rightarrow> 'p leg list" where
  "transfer_legs pf fromKey pt toKey amount =
     [\<lparr>leg_p = pf, leg_key = fromKey, leg_delta = - amount\<rparr>,
      \<lparr>leg_p = pt, leg_key = toKey, leg_delta = amount\<rparr>]"

definition log_decision :: "'w emitter \<Rightarrow> string \<Rightarrow> string \<Rightarrow> nat \<Rightarrow> 'p leg list \<Rightarrow> 'w \<Rightarrow> 'w" where
  "log_decision lg d tx yes legs =
     log_TwoPC lg (''decision '' @ d @ '' '' @ tx @ '' ('' @ itoa yes @ ''/'' @ itoa (length legs) @ '' yes)'')"

definition log_begin :: "('p, 'w) participant_ops \<Rightarrow> 'w emitter \<Rightarrow> string \<Rightarrow> 'p \<Rightarrow> string \<Rightarrow> 'p \<Rightarrow> string \<Rightarrow>
    i64 \<Rightarrow> 'w \<Rightarrow> 'w" where
  "log_begin P lg tx pf fromKey pt toKey amount =
     log_TwoPC lg (''BEGIN '' @ tx @ '': '' @ fromKey @ ''@'' @ PName P pf @ '' -> '' @ toKey
       @ ''@'' @ PName P pt @ '' amount '' @ show_i64 amount)"

text \<open>
  What follows a COMMIT decision: the commits are sent; those not delivered are handed to the
  background and the transfer is reported in doubt.
\<close>

definition phase_two :: "('p, 'w) participant_ops \<Rightarrow> string \<Rightarrow> 'p leg list \<Rightarrow>
    ('p, 'w) coordinator \<Rightarrow> 'w \<Rightarrow> (('p, 'w) coordinator \<times> 'w) \<times> goerror option" where
  "phase_two P tx legs c w =
     (let lg = clog c; (w1, undelivered) = commit_legs P lg tx legs [] w
      in if undelivered \<noteq> []
         then (let names = Join '', '' (map (PName P) undelivered)
               in ((fold (retryInBackground tx) undelivered c,
                    log_TwoPC lg (tx @ '' is decided COMMIT; retrying '' @ names
                      @ '' in the background until it lands'') w1),
                   Some (Errorf [] (the_error ErrInDoubt)
                     ('': '' @ tx @ '' committed, but '' @ names
                      @ '' has not applied it yet (account stays locked until it does)''))))
         else ((c, log_TwoPC lg (''END '' @ tx @ '' committed on ''
                  @ Join '' and '' (map (PName P \<circ> leg_p) legs)) w1), None))"

definition coord_Transfer :: "('p, 'w) participant_ops \<Rightarrow> 'p \<Rightarrow> string \<Rightarrow> 'p \<Rightarrow> string \<Rightarrow> i64 \<Rightarrow>
    ('p, 'w) coordinator \<Rightarrow> 'w \<Rightarrow> (('p, 'w) coordinator \<times> 'w) \<times> goerror option" where
  "coord_Transfer P pf fromKey pt toKey amount c w =
     (let c1 = c\<lparr>seq := Suc (seq c)\<rparr>;
          tx = tx_name (seq c1);
          lg = clog c1;
          legs = transfer_legs pf fromKey pt toKey amount;
          (w1, refusal, yes) = prepare_legs P lg tx legs None 0 (log_begin P lg tx pf fromKey pt toKey amount w)
      in case refusal of
           Some r \<Rightarrow> ((c1, abort_legs P lg tx legs (log_decision lg ''ABORT'' tx yes legs w1)), Some r)
         | None \<Rightarrow> phase_two P tx legs c1 (log_decision lg ''COMMIT'' tx yes legs w1))"

text \<open>One tick of a background goroutine: \<open>True\<close> when the commit landed and the goroutine ends.\<close>

definition retry_once :: "('p, 'w) participant_ops \<Rightarrow> 'w emitter \<Rightarrow> string \<Rightarrow> 'p \<Rightarrow> 'w \<Rightarrow> 'w \<times> bool" where
  "retry_once P lg tx p w =
     (case PCommit P p tx w of
        (w1, None) \<Rightarrow>
          (Edge (Some lg) TwoPCLevel Coordinator2PC (PName P p) ''commit''
             (''COMMIT -> '' @ PName P p @ '' applied on retry; '' @ tx @ '' is settled'') w1, True)
      | (w1, Some err) \<Rightarrow> (w1, False))"

text \<open>The goroutine's loop, for at most \<open>n\<close> ticks; \<open>False\<close> when it is still going.\<close>

fun retry_loop :: "('p, 'w) participant_ops \<Rightarrow> 'w emitter \<Rightarrow> string \<Rightarrow> 'p \<Rightarrow> nat \<Rightarrow> 'w \<Rightarrow> 'w \<times> bool" where
  "retry_loop P lg tx p 0 w = (w, False)"
| "retry_loop P lg tx p (Suc n) w =
     (case retry_once P lg tx p w of
        (w1, landed) \<Rightarrow> if landed then (w1, True) else retry_loop P lg tx p n w1)"

definition retry_tick :: "('p, 'w) participant_ops \<Rightarrow> nat \<Rightarrow> ('p, 'w) coordinator \<Rightarrow> 'w \<Rightarrow>
    ('p, 'w) coordinator \<times> 'w" where
  "retry_tick P i c w =
     (if i < length (bg c)
      then (case retry_once P (clog c) (fst (bg c ! i)) (snd (bg c ! i)) w of
              (w1, landed) \<Rightarrow> (if landed then c\<lparr>bg := take i (bg c) @ drop (Suc i) (bg c)\<rparr> else c, w1))
      else (c, w))"

text \<open>\<^verbatim>\<open>Close\<close> ends every goroutine, delivered or not.\<close>

definition coord_Close :: "('p, 'w) coordinator \<Rightarrow> ('p, 'w) coordinator" where
  "coord_Close c = (if cclosed c then c else c\<lparr>cclosed := True, bg := []\<rparr>)"

end
