(* ===== verification/TwoPhaseSafety.thy ===== *)
theory TwoPhaseSafety
  imports LedgerSafety TwoPhase
begin

text \<open>
  Atomicity of a transfer across two shards.  The contract the coordinator relies on is a locale:
  what a participant may do to a transaction, given which requests were ever issued to it, and what
  the nil reply to each request means.  The coordinator's guarantees are proved inside it once.
  The contract is then discharged for shards that run the ledger state machine, behind a network
  that loses requests and replies, delivers requests late and interleaves other clients' commands.
\<close>

lemma background_holds:
  "p \<in> set U \<or> (tx, p) \<in> set (bg c) \<Longrightarrow> cclosed c \<or> (tx, p) \<in> set (bg (fold (retryInBackground tx) U c))"
proof (induction U arbitrary: c)
  case (Cons u U)
  from Cons.IH [of "retryInBackground tx u c"] Cons.prems show ?case
    by (auto simp: retryInBackground_def split: if_splits)
qed simp

section \<open>The contract of a participant\<close>

datatype txstate = Fresh | Held | Committed | Aborted

datatype request = RPrepare | RCommit | RAbort

text \<open>What the state of a transaction at \<open>q\<close> may become, given the requests issued.\<close>

definition drift :: "('p \<times> request) set \<Rightarrow> 'p \<Rightarrow> txstate \<Rightarrow> txstate \<Rightarrow> bool" where
  "drift I q a b \<longleftrightarrow> a = b
     \<or> a = Fresh \<and> b = Held \<and> (q, RPrepare) \<in> I
     \<or> (a = Fresh \<or> a = Held) \<and> b = Committed \<and> (q, RCommit) \<in> I
     \<or> (a = Fresh \<or> a = Held) \<and> b = Aborted \<and> (q, RAbort) \<in> I"

locale participants =
  fixes P :: "('p, 'w) participant_ops" and sink :: "'w sink" and tx :: string
    and wf :: "'w \<Rightarrow> bool" and st :: "'w \<Rightarrow> 'p \<Rightarrow> txstate" and issued :: "'w \<Rightarrow> ('p \<times> request) set"
  assumes emit_wf: "wf w \<Longrightarrow> wf (sink e w)" and emit_st: "st (sink e w) = st w"
    and emit_issued: "issued (sink e w) = issued w"
    and prepare_law: "wf w \<Longrightarrow> PPrepare P p tx k d w = (w', r) \<Longrightarrow>
      wf w' \<and> issued w' = insert (p, RPrepare) (issued w) \<and> (\<forall>q. drift (issued w') q (st w q) (st w' q))
      \<and> (r = None \<longrightarrow> st w' p = Held)"
    and commit_law: "wf w \<Longrightarrow> PCommit P p tx w = (w', r) \<Longrightarrow>
      wf w' \<and> issued w' = insert (p, RCommit) (issued w) \<and> (\<forall>q. drift (issued w') q (st w q) (st w' q))
      \<and> (r = None \<longrightarrow> st w' p = Committed)"
    and abort_law: "wf w \<Longrightarrow> PAbort P p tx w = (w', r) \<Longrightarrow>
      wf w' \<and> issued w' = insert (p, RAbort) (issued w) \<and> (\<forall>q. drift (issued w') q (st w q) (st w' q))
      \<and> (r = None \<longrightarrow> st w' p = Aborted \<or> st w' p = Committed)"
begin

definition emits :: "'w emitter \<Rightarrow> bool" where
  "emits lg \<longleftrightarrow> esink lg = sink"

lemma emits_WithTag [simp]: "emits (WithTag lg t) = emits lg"
  by (simp add: emits_def WithTag_def)

lemma log_keeps:
  assumes "emits lg"
  shows "wf w \<Longrightarrow> wf (emitter_emit (Some lg) l m w)" "st (emitter_emit (Some lg) l m w) = st w"
    "issued (emitter_emit (Some lg) l m w) = issued w"
    "wf w \<Longrightarrow> wf (Edge (Some lg) l a b k m w)" "st (Edge (Some lg) l a b k m w) = st w"
    "issued (Edge (Some lg) l a b k m w) = issued w"
  using assms by (simp_all add: emits_def emitter_emit_def Edge_def emit_wf emit_st emit_issued)

definition quiet :: "('w \<Rightarrow> 'w) \<Rightarrow> bool" where
  "quiet f \<longleftrightarrow> (\<forall>w. (wf w \<longrightarrow> wf (f w)) \<and> st (f w) = st w \<and> issued (f w) = issued w)"

lemma quiet_logs:
  assumes "emits lg"
  shows "quiet (emitter_emit (Some lg) l m)" "quiet (log_prepare P lg t leg)" "quiet (log_skipped P lg leg)"
    "quiet (log_vote P lg t leg v)" "quiet (log_abort P lg leg v)" "quiet (log_commit P lg leg v)"
    "quiet (log_decision lg d t n legs)" "quiet (log_begin P lg t pf fk pt tk amount)"
  using assms
  by (auto simp: quiet_def log_keeps log_prepare_def log_skipped_def log_vote_def log_abort_def
      log_commit_def log_decision_def log_begin_def Let_def split: option.splits)

text \<open>Before a decision only prepares are out, and a participant that voted YES still holds.\<close>

definition voting :: "'p set \<Rightarrow> 'w \<Rightarrow> bool" where
  "voting Y w \<longleftrightarrow> wf w \<and> issued w \<subseteq> UNIV \<times> {RPrepare} \<and> (\<forall>p. st w p = Fresh \<or> st w p = Held)
     \<and> (\<forall>p \<in> Y. st w p = Held)"

lemma voting_quiet: "quiet f \<Longrightarrow> voting Y w \<Longrightarrow> voting Y (f w)"
  by (simp add: voting_def quiet_def)

lemma voting_prepare:
  assumes "voting Y w" and "PPrepare P p tx k d w = (w', r)"
  shows "voting (if r = None then insert p Y else Y) w'"
proof -
  have law: "wf w'" "issued w' = insert (p, RPrepare) (issued w)"
    "drift (issued w') q (st w q) (st w' q)" "r = None \<Longrightarrow> st w' p = Held" for q
    using prepare_law [OF _ assms(2)] assms(1) by (auto simp: voting_def)
  have I: "issued w' \<subseteq> UNIV \<times> {RPrepare}" using assms(1) law(2) by (auto simp: voting_def)
  then have "drift (issued w') q a b \<Longrightarrow> b = a \<or> a = Fresh \<and> b = Held" for q a b
    unfolding drift_def by blast
  then have s: "st w' q = st w q \<or> st w q = Fresh \<and> st w' q = Held" for q using law(3) by blast
  have "st w' q = Fresh \<or> st w' q = Held" for q
    using s [of q] assms(1) by (auto simp: voting_def)
  moreover have "st w' q = Held" if "q \<in> Y" for q
    using s [of q] assms(1) that by (auto simp: voting_def)
  ultimately show ?thesis using I law(1,4) by (auto simp: voting_def)
qed

lemma prepare_legs_refused:
  assumes "emits lg" and "voting Y w"
  shows "\<exists>w'. prepare_legs P lg tx ls (Some r) n w = (w', Some r, n) \<and> voting Y w'"
  using assms(2)
proof (induction ls arbitrary: w)
  case (Cons l ls)
  then show ?case using quiet_logs(3) [OF assms(1)] by (simp add: voting_quiet)
qed simp

lemma prepare_legs_votes:
  assumes "emits lg" and "voting Y w" and "prepare_legs P lg tx ls None n w = (w', r, n')"
  shows "voting (if r = None then Y \<union> leg_p ` set ls else {}) w'"
  using assms(2,3)
proof (induction ls arbitrary: Y w n)
  case (Cons l ls)
  obtain w1 v where call: "PPrepare P (leg_p l) tx (leg_key l) (leg_delta l) (log_prepare P lg tx l w) = (w1, v)"
    by fastforce
  have "voting Y (log_prepare P lg tx l w)"
    by (rule voting_quiet [OF quiet_logs(2) [OF assms(1)] Cons.prems(1)])
  then have "voting (if v = None then insert (leg_p l) Y else Y) (log_vote P lg tx l v w1)"
    by (intro voting_quiet [OF quiet_logs(4) [OF assms(1)]] voting_prepare [OF _ call])
  note v2 = this
  show ?case
  proof (cases v)
    case None
    then have "prepare_legs P lg tx ls None (Suc n) (log_vote P lg tx l None w1) = (w', r, n')"
      using Cons.prems(2) call by simp
    from Cons.IH [OF _ this, of "insert (leg_p l) Y"] v2 None show ?thesis by (auto split: if_splits)
  next
    case (Some err)
    then obtain e where "prepare_legs P lg tx ls (Some e) n (log_vote P lg tx l (Some err) w1) = (w', r, n')"
      using Cons.prems(2) call by simp
    with prepare_legs_refused [OF assms(1), of Y "log_vote P lg tx l (Some err) w1" ls e n] v2 Some
    show ?thesis by (auto simp: voting_def)
  qed
qed simp

text \<open>After an ABORT decision no commit is ever issued; after a COMMIT decision no abort.\<close>

definition aborting :: "'w \<Rightarrow> bool" where
  "aborting w \<longleftrightarrow> wf w \<and> issued w \<subseteq> UNIV \<times> {RPrepare, RAbort} \<and> (\<forall>p. st w p \<noteq> Committed)"

definition committing :: "'p set \<Rightarrow> 'p set \<Rightarrow> 'w \<Rightarrow> bool" where
  "committing Y D w \<longleftrightarrow> wf w \<and> issued w \<subseteq> UNIV \<times> {RPrepare, RCommit} \<and> (\<forall>p. st w p \<noteq> Aborted)
     \<and> (\<forall>p \<in> Y. st w p = Held \<or> st w p = Committed) \<and> (\<forall>p \<in> D. st w p = Committed)"

lemma phase_quiet:
  "quiet f \<Longrightarrow> aborting w \<Longrightarrow> aborting (f w)"
  "quiet f \<Longrightarrow> committing Y D w \<Longrightarrow> committing Y D (f w)"
  by (simp_all add: aborting_def committing_def quiet_def)

lemma abort_step:
  assumes "aborting w" and "PAbort P p tx w = (w', r)"
  shows "aborting w'"
proof -
  have law: "wf w'" "issued w' = insert (p, RAbort) (issued w)"
    "drift (issued w') q (st w q) (st w' q)" for q
    using abort_law [OF _ assms(2)] assms(1) by (auto simp: aborting_def)
  have I: "issued w' \<subseteq> UNIV \<times> {RPrepare, RAbort}" using assms(1) law(2) by (auto simp: aborting_def)
  then have "drift (issued w') q a Committed \<Longrightarrow> a = Committed" for q a unfolding drift_def by blast
  then show ?thesis using law(1,3) I assms(1) unfolding aborting_def by metis
qed

lemma abort_legs_aborting:
  assumes "emits lg"
  shows "aborting w \<Longrightarrow> aborting (abort_legs P lg tx ls w)"
proof (induction ls arbitrary: w)
  case (Cons l ls)
  obtain w1 r where call: "PAbort P (leg_p l) tx w = (w1, r)" by fastforce
  then have "aborting (log_abort P lg l r w1)"
    using abort_step Cons.prems phase_quiet(1) quiet_logs(5) [OF assms] by blast
  then show ?case using Cons.IH call by simp
qed simp

lemma commit_step:
  assumes "committing Y D w" and "PCommit P p tx w = (w', r)"
  shows "committing Y (if r = None then insert p D else D) w'"
proof -
  have law: "wf w'" "issued w' = insert (p, RCommit) (issued w)"
    "drift (issued w') q (st w q) (st w' q)" "r = None \<Longrightarrow> st w' p = Committed" for q
    using commit_law [OF _ assms(2)] assms(1) by (auto simp: committing_def)
  have I: "issued w' \<subseteq> UNIV \<times> {RPrepare, RCommit}" using assms(1) law(2) by (auto simp: committing_def)
  then have noab: "drift (issued w') q a Aborted \<Longrightarrow> a = Aborted" for q a unfolding drift_def by blast
  have "st w' q \<noteq> Aborted" for q using noab law(3) assms(1) unfolding committing_def by metis
  moreover have "st w' q = Held \<or> st w' q = Committed" if "q \<in> Y" for q
    using law(3) [of q] noab that assms(1) unfolding committing_def drift_def by (metis txstate.exhaust)
  moreover have "st w' q = Committed" if "q \<in> D" for q
    using law(3) [of q] that assms(1) unfolding committing_def drift_def by (metis txstate.distinct)
  ultimately show ?thesis using I law(1,4) by (auto simp: committing_def)
qed

lemma commit_legs_committing:
  assumes "emits lg"
  shows "committing Y D w \<Longrightarrow> commit_legs P lg tx ls U w = (w', U') \<Longrightarrow>
    committing Y (D \<union> (leg_p ` set ls - set U')) w' \<and> set U \<subseteq> set U'"
proof (induction ls arbitrary: U D w)
  case (Cons l ls)
  obtain w1 r where call: "PCommit P (leg_p l) tx w = (w1, r)" by fastforce
  let ?w = "log_commit P lg l r w1" and ?D = "if r = None then insert (leg_p l) D else D"
    and ?U = "if r = None then U else U @ [leg_p l]"
  have "committing Y ?D ?w"
    by (rule phase_quiet(2) [OF quiet_logs(6) [OF assms] commit_step [OF Cons.prems(1) call]])
  moreover have "commit_legs P lg tx ls ?U ?w = (w', U')" using Cons.prems(2) call by simp
  ultimately have "committing Y (?D \<union> (leg_p ` set ls - set U')) w' \<and> set ?U \<subseteq> set U'"
    by (rule Cons.IH)
  then show ?case by (auto simp: committing_def split: if_splits)
qed (auto simp: committing_def)

lemma voting_start:
  "wf w \<Longrightarrow> issued w = {} \<Longrightarrow> (\<And>p. st w p = Fresh) \<Longrightarrow> voting {} w"
  by (simp add: voting_def)

lemma voting_decides: "voting Y w \<Longrightarrow> aborting w" "voting Y w \<Longrightarrow> committing Y {} w"
proof -
  assume v: "voting Y w"
  then have s: "st w p = Fresh \<or> st w p = Held" for p by (simp add: voting_def)
  have "st w p \<noteq> Committed \<and> st w p \<noteq> Aborted" for p using s [of p] by auto
  with v show "aborting w" "committing Y {} w" by (auto simp: voting_def aborting_def committing_def)
qed

text \<open>
  A finished transfer: reported done, it is committed at both ends; refused, it is committed
  nowhere and no commit is out; in doubt, it is held or committed at both ends, no abort is out and
  every participant that has not committed has a retry, unless the coordinator was closed.
\<close>

lemma phase_two_outcome:
  assumes lg: "emits (clog c)" and cm: "committing Y {} w"
    and run: "phase_two P tx legs c w = ((c', w'), r)"
  shows "r = None \<and> committing Y (leg_p ` set legs) w'
    \<or> (\<exists>D. r \<noteq> None \<and> committing Y D w'
         \<and> (\<forall>p \<in> leg_p ` set legs - D. cclosed c \<or> (tx, p) \<in> set (bg c')))"
proof -
  obtain w1 U where com: "commit_legs P (clog c) tx legs [] w = (w1, U)" by fastforce
  let ?D = "leg_p ` set legs - set U"
  have cm1: "committing Y ?D w1" using commit_legs_committing [OF lg cm com] by simp
  obtain m where w': "w' = emitter_emit (Some (clog c)) TwoPCLevel m w1"
    using run com by (auto simp: phase_two_def Let_def split: if_splits)
  have cm': "committing Y ?D w'" unfolding w' by (rule phase_quiet(2) [OF quiet_logs(1) [OF lg] cm1])
  show ?thesis
  proof (cases "U = []")
    case True
    then have "r = None" using run com by (simp add: phase_two_def)
    then show ?thesis using cm' True by simp
  next
    case False
    then have "r \<noteq> None" "c' = fold (retryInBackground tx) U c"
      using run com by (auto simp: phase_two_def Let_def)
    moreover have "cclosed c \<or> (tx, p) \<in> set (bg (fold (retryInBackground tx) U c))" if "p \<in> set U" for p
      using that by (intro background_holds) simp
    ultimately show ?thesis using cm' by blast
  qed
qed

lemma transfer_outcome:
  assumes w: "wf w" "issued w = {}" "\<And>p. st w p = Fresh"
    and c: "esink (clog c) = sink" "tx = tx_name (Suc (seq c))"
    and run: "coord_Transfer P pf fromKey pt toKey amount c w = ((c', w'), r)"
  shows "r = None \<and> committing {pf, pt} {pf, pt} w'
    \<or> r \<noteq> None \<and> aborting w'
    \<or> (\<exists>D. r \<noteq> None \<and> committing {pf, pt} D w'
         \<and> (\<forall>p \<in> {pf, pt} - D. cclosed c \<or> (tx, p) \<in> set (bg c')))"
proof -
  define lg where "lg = clog c"
  define legs where "legs = transfer_legs pf fromKey pt toKey amount"
  have lg: "emits lg" using c(1) by (simp add: lg_def emits_def)
  have ps: "leg_p ` set legs = {pf, pt}" by (simp add: legs_def transfer_legs_def)
  obtain w1 refusal yes where prep:
    "prepare_legs P lg tx legs None 0 (log_begin P lg tx pf fromKey pt toKey amount w) = (w1, refusal, yes)"
    by (metis prod_cases3)
  have "voting {} (log_begin P lg tx pf fromKey pt toKey amount w)"
    by (rule voting_quiet [OF quiet_logs(8) [OF lg] voting_start [OF w]])
  from prepare_legs_votes [OF lg this prep]
  have v: "voting (if refusal = None then {pf, pt} else {}) w1" using ps by (auto split: if_splits)
  show ?thesis
  proof (cases refusal)
    case (Some e)
    have "aborting (log_decision lg ''ABORT'' tx yes legs w1)"
      by (rule phase_quiet(1) [OF quiet_logs(7) [OF lg] voting_decides(1) [OF v]])
    then have "aborting (abort_legs P lg tx legs (log_decision lg ''ABORT'' tx yes legs w1))"
      by (rule abort_legs_aborting [OF lg])
    moreover have "w' = abort_legs P lg tx legs (log_decision lg ''ABORT'' tx yes legs w1)" "r = Some e"
      using run prep Some by (simp_all add: coord_Transfer_def Let_def c(2) [symmetric] lg_def legs_def)
    ultimately show ?thesis by simp
  next
    case None
    let ?w = "log_decision lg ''COMMIT'' tx yes legs w1" and ?c = "c\<lparr>seq := Suc (seq c)\<rparr>"
    have two: "phase_two P tx legs ?c ?w = ((c', w'), r)"
      using run prep None by (simp add: coord_Transfer_def Let_def c(2) [symmetric] lg_def legs_def)
    have "committing {pf, pt} {} ?w"
      using phase_quiet(2) [OF quiet_logs(7) [OF lg] voting_decides(2) [OF v]] None by simp
    moreover have "emits (clog ?c)" and closed: "cclosed ?c = cclosed c" using lg by (simp_all add: lg_def)
    ultimately show ?thesis using phase_two_outcome [OF _ _ two] unfolding ps closed by blast
  qed
qed

text \<open>A retry that gets its nil reply has committed the participant, and no retry undoes anything.\<close>

lemma retry_commits:
  assumes "committing Y D w" and "esink lg = sink" and "retry_once P lg tx p w = (w', landed)"
  shows "committing Y (if landed then insert p D else D) w'"
proof -
  obtain w1 r where call: "PCommit P p tx w = (w1, r)" by fastforce
  note step = commit_step [OF assms(1) call]
  have "emits lg" using assms(2) by (simp add: emits_def)
  from log_keeps(4-6) [OF this] step assms(3) call show ?thesis
    by (cases r) (auto simp: retry_once_def committing_def)
qed

end

end
