(* ===== verification/TwoPhaseShards.thy ===== *)
theory TwoPhaseShards
  imports TwoPhaseSafety
begin

text \<open>
  Shards that run the ledger state machine as participants of two-phase commit.  A request to a
  shard may be answered, lost, applied with its reply lost, or left in flight and applied at any
  later moment; before each request takes effect other clients' commands and requests in flight
  may be applied at any shard.  The script of a run fixes all these choices, so a statement about
  every script is a statement about every schedule.  \<open>sent\<close> is a ghost: the requests ever issued.
\<close>

datatype envact = Other nat lcommand | Land nat

datatype delivery = Delivered | Lost | ReplyLost | Late

record shardnet =
  mach :: "nat \<Rightarrow> machine"
  inflight :: "(nat \<times> lcommand) list"
  script :: "(envact list \<times> delivery) list"
  sent :: "(nat \<times> string \<times> request) set"
  events :: "Event list"

definition apply_at :: "nat \<Rightarrow> lcommand \<Rightarrow> shardnet \<Rightarrow> shardnet" where
  "apply_at p c w = w\<lparr>mach := (mach w)(p := fst (applyLocked c (mach w p)))\<rparr>"

fun env_act :: "envact \<Rightarrow> shardnet \<Rightarrow> shardnet" where
  "env_act (Other p c) w = apply_at p c w"
| "env_act (Land i) w =
     (if i < length (inflight w)
      then apply_at (fst (inflight w ! i)) (snd (inflight w ! i))
             (w\<lparr>inflight := take i (inflight w) @ drop (Suc i) (inflight w)\<rparr>)
      else w)"

definition next_delivery :: "shardnet \<Rightarrow> envact list \<times> delivery" where
  "next_delivery w = (case script w of [] \<Rightarrow> ([], Delivered) | x # xs \<Rightarrow> x)"

definition lost_reply :: goerror where
  "lost_reply = the_error ErrNoQuorum"

definition shard_call :: "request \<Rightarrow> nat \<Rightarrow> lcommand \<Rightarrow> shardnet \<Rightarrow> shardnet \<times> goerror option" where
  "shard_call q p c w =
     (let w1 = fold env_act (fst (next_delivery w))
                 (w\<lparr>script := tl (script w), sent := insert (p, Tx c, q) (sent w)\<rparr>)
      in case snd (next_delivery w) of
           Delivered \<Rightarrow> (apply_at p c w1, result_Err (snd (applyLocked c (mach w1 p))))
         | Lost \<Rightarrow> (w1, Some lost_reply)
         | ReplyLost \<Rightarrow> (apply_at p c w1, Some lost_reply)
         | Late \<Rightarrow> (w1\<lparr>inflight := inflight w1 @ [(p, c)]\<rparr>, Some lost_reply))"

definition shard_ops :: "(nat, shardnet) participant_ops" where
  "shard_ops =
     \<lparr>PName = (\<lambda>p. ''s'' @ itoa p),
      PPrepare = (\<lambda>p tx k d. shard_call RPrepare p (prepareCommand tx k d)),
      PCommit = (\<lambda>p tx. shard_call RCommit p (decideCommand OpCommit tx)),
      PAbort = (\<lambda>p tx. shard_call RAbort p (decideCommand OpAbort tx))\<rparr>"

definition net_sink :: "shardnet sink" where
  "net_sink e w = w\<lparr>events := events w @ [e]\<rparr>"

text \<open>The state of a transaction at a shard, read off the ledger.\<close>

definition txst :: "machine \<Rightarrow> string \<Rightarrow> txstate" where
  "txst m tx =
     (case Mapping.lookup (decided m) tx of
        Some d \<Rightarrow> if d = OpCommit then Committed else Aborted
      | None \<Rightarrow> if Mapping.lookup (prepared m) tx = None then Fresh else Held)"

definition issued_to :: "string \<Rightarrow> shardnet \<Rightarrow> (nat \<times> request) set" where
  "issued_to tx w = {(p, q). (p, tx, q) \<in> sent w}"

fun request_of :: "Op \<Rightarrow> request option" where
  "request_of OpPrepare = Some RPrepare"
| "request_of OpCommit = Some RCommit"
| "request_of OpAbort = Some RAbort"
| "request_of _ = None"

text \<open>A command that has nothing to do with transaction \<open>tx\<close>, or was issued for it.\<close>

definition foreign :: "string \<Rightarrow> lcommand \<Rightarrow> bool" where
  "foreign tx c \<longleftrightarrow> Tx c \<noteq> tx \<or> request_of (Op c) = None"

definition licit :: "string \<Rightarrow> (nat \<times> request) set \<Rightarrow> nat \<Rightarrow> lcommand \<Rightarrow> bool" where
  "licit tx I p c \<longleftrightarrow> foreign tx c \<or> (\<exists>q. request_of (Op c) = Some q \<and> (p, q) \<in> I)"

fun act_foreign :: "string \<Rightarrow> envact \<Rightarrow> bool" where
  "act_foreign tx (Other p c) = foreign tx c"
| "act_foreign tx (Land i) = True"

definition script_foreign :: "string \<Rightarrow> (envact list \<times> delivery) list \<Rightarrow> bool" where
  "script_foreign tx s \<longleftrightarrow> list_all (\<lambda>x. list_all (act_foreign tx) (fst x)) s"

definition net_wf :: "string \<Rightarrow> shardnet \<Rightarrow> bool" where
  "net_wf tx w \<longleftrightarrow> (\<forall>p. machine_ok (mach w p)) \<and> script_foreign tx (script w)
     \<and> (\<forall>x \<in> set (inflight w). licit tx (issued_to tx w) (fst x) (snd x))"

section \<open>One command at one shard\<close>

lemma foreign_keeps:
  assumes "foreign tx c"
  shows "Mapping.lookup (prepared (fst (applyLocked c m))) tx = Mapping.lookup (prepared m) tx
    \<and> Mapping.lookup (decided (fst (applyLocked c m))) tx = Mapping.lookup (decided m) tx"
proof (cases "Op c")
  case OpPut
  then show ?thesis by (auto simp: applyLocked_def applyPut_def split: option.splits)
next
  case OpGet
  then show ?thesis by (auto simp: applyLocked_def applyGet_def split: option.splits)
next
  case OpTransfer
  then show ?thesis by (cases rule: applyTransfer_cases [of c m]) (simp_all add: applyLocked_def)
next
  case OpPrepare
  then have "Tx c \<noteq> tx" using assms by (simp add: foreign_def)
  then show ?thesis using OpPrepare
    by (cases rule: prepareLocked_cases [of m c]) (simp_all add: applyLocked_def)
next
  case OpCommit
  then have "Tx c \<noteq> tx" using assms by (simp add: foreign_def)
  then show ?thesis using OpCommit
    by (cases rule: applyCommit_cases [of m c]) (simp_all add: applyLocked_def)
next
  case OpAbort
  then have "Tx c \<noteq> tx" using assms by (simp add: foreign_def)
  then show ?thesis using OpAbort
    by (auto simp: applyLocked_def applyAbort_state split: option.splits)
next
  case (OpOther s)
  then show ?thesis by (simp add: applyLocked_def)
qed

lemma foreign_txst: "foreign tx c \<Longrightarrow> txst (fst (applyLocked c m)) tx = txst m tx"
  unfolding txst_def by (simp only: foreign_keeps)

lemma drift_refl [simp]: "drift I q a a"
  by (simp add: drift_def)

lemma drift_mono: "drift I q a b \<Longrightarrow> I \<subseteq> J \<Longrightarrow> drift J q a b"
  by (auto simp: drift_def)

lemma drift_trans: "drift I q a b \<Longrightarrow> drift I q b c \<Longrightarrow> drift I q a c"
  unfolding drift_def by auto

lemma own_drift:
  assumes "machine_ok m" and "Tx c = tx" and "request_of (Op c) = Some q" and "(p, q) \<in> I"
  shows "drift I p (txst m tx) (txst (fst (applyLocked c m)) tx)"
proof (cases "Op c")
  case OpPrepare
  then have "q = RPrepare" using assms(3) by simp
  then show ?thesis using OpPrepare assms(2,4)
    by (cases rule: prepareLocked_cases [of m c]) (auto simp: applyLocked_def txst_def drift_def)
next
  case OpCommit
  then have "q = RCommit" using assms(3) by simp
  then show ?thesis using OpCommit assms(1,2,4)
    by (cases rule: applyCommit_cases [of m c])
      (auto simp: applyLocked_def txst_def drift_def machine_ok_def prepared_ok_def)
next
  case OpAbort
  then have q: "q = RAbort" using assms(3) by simp
  have "Mapping.lookup (decided m) tx = None \<or> Mapping.lookup (decided m) tx = Some OpCommit
      \<or> Mapping.lookup (decided m) tx = Some OpAbort"
    using assms(1) by (cases "Mapping.lookup (decided m) tx") (auto simp: machine_ok_def decided_ok_def)
  then show ?thesis using OpAbort q assms(2,4)
    by (auto simp: applyLocked_def applyAbort_state txst_def drift_def split: option.splits)
qed (use assms(3) in simp_all)

lemma licit_drift:
  assumes "machine_ok m" and "licit tx I p c"
  shows "drift I p (txst m tx) (txst (fst (applyLocked c m)) tx)"
proof (cases "foreign tx c")
  case True
  then show ?thesis by (simp add: foreign_txst)
next
  case False
  then obtain q where "Tx c = tx" "request_of (Op c) = Some q" "(p, q) \<in> I"
    using assms(2) by (auto simp: licit_def foreign_def)
  then show ?thesis by (rule own_drift [OF assms(1)])
qed

section \<open>One request through the network\<close>

definition evolves :: "string \<Rightarrow> (nat \<times> request) set \<Rightarrow> shardnet \<Rightarrow> shardnet \<Rightarrow> bool" where
  "evolves tx I w w' \<longleftrightarrow> (\<forall>p. machine_ok (mach w' p))
     \<and> (\<forall>x \<in> set (inflight w'). licit tx I (fst x) (snd x))
     \<and> script w' = script w \<and> sent w' = sent w
     \<and> (\<forall>q. drift I q (txst (mach w q) tx) (txst (mach w' q) tx))"

lemma evolves_trans: "evolves tx I w w' \<Longrightarrow> evolves tx I w' w'' \<Longrightarrow> evolves tx I w w''"
  unfolding evolves_def using drift_trans by metis

lemma evolves_apply:
  assumes "\<forall>p. machine_ok (mach w p)" and "\<forall>x \<in> set (inflight w). licit tx I (fst x) (snd x)"
    and "licit tx I p c"
  shows "evolves tx I w (apply_at p c w)"
  using assms by (simp add: evolves_def apply_at_def machine_ok_applyLocked licit_drift)

lemma evolves_act:
  assumes "\<forall>p. machine_ok (mach w p)" and "\<forall>x \<in> set (inflight w). licit tx I (fst x) (snd x)"
    and "act_foreign tx a"
  shows "evolves tx I w (env_act a w)"
proof (cases a)
  case (Other p c)
  then show ?thesis using assms evolves_apply by (simp add: licit_def)
next
  case (Land i)
  show ?thesis
  proof (cases "i < length (inflight w)")
    case True
    let ?w = "w\<lparr>inflight := take i (inflight w) @ drop (Suc i) (inflight w)\<rparr>"
    have "\<forall>x \<in> set (inflight ?w). licit tx I (fst x) (snd x)"
      using assms(2) by (auto dest: in_set_takeD in_set_dropD)
    then have "evolves tx I ?w (apply_at (fst (inflight w ! i)) (snd (inflight w ! i)) ?w)"
      using assms(1,2) True by (intro evolves_apply) simp_all
    then show ?thesis using Land True by (simp add: evolves_def)
  qed (use Land assms in \<open>simp add: evolves_def\<close>)
qed

lemma evolves_acts:
  "\<forall>p. machine_ok (mach w p) \<Longrightarrow> \<forall>x \<in> set (inflight w). licit tx I (fst x) (snd x) \<Longrightarrow>
   list_all (act_foreign tx) as \<Longrightarrow> evolves tx I w (fold env_act as w)"
proof (induction as arbitrary: w)
  case (Cons a as)
  then have e: "evolves tx I w (env_act a w)" by (intro evolves_act) simp_all
  then have "\<forall>p. machine_ok (mach (env_act a w) p)"
    "\<forall>x \<in> set (inflight (env_act a w)). licit tx I (fst x) (snd x)" by (simp_all add: evolves_def)
  then have "evolves tx I (env_act a w) (fold env_act as (env_act a w))"
    using Cons.prems(3) by (intro Cons.IH) simp_all
  with e show ?case using evolves_trans by simp
qed (simp add: evolves_def)

lemma shard_call_law:
  assumes wf: "net_wf tx w" and c: "Tx c = tx" "request_of (Op c) = Some q"
    and call: "shard_call q p c w = (w', r)"
  shows "net_wf tx w' \<and> issued_to tx w' = insert (p, q) (issued_to tx w)
    \<and> (\<forall>s. drift (issued_to tx w') s (txst (mach w s) tx) (txst (mach w' s) tx))
    \<and> (r = None \<longrightarrow> (\<exists>m. machine_ok m \<and> mach w' p = fst (applyLocked c m)
         \<and> result_Err (snd (applyLocked c m)) = None))"
proof -
  let ?I = "insert (p, q) (issued_to tx w)"
  define w0 where "w0 = w\<lparr>script := tl (script w), sent := insert (p, Tx c, q) (sent w)\<rparr>"
  define w1 where "w1 = fold env_act (fst (next_delivery w)) w0"
  have I: "issued_to tx w0 = ?I" using c(1) by (auto simp: w0_def issued_to_def)
  have sf: "list_all (act_foreign tx) (fst (next_delivery w))" "script_foreign tx (script w0)"
    using wf by (cases "script w"; auto simp: net_wf_def script_foreign_def next_delivery_def w0_def)+
  have "\<forall>x \<in> set (inflight w0). licit tx ?I (fst x) (snd x)"
    using wf by (auto simp: net_wf_def w0_def licit_def)
  then have e1: "evolves tx ?I w0 w1"
    unfolding w1_def using wf sf(1) by (intro evolves_acts) (simp_all add: net_wf_def w0_def)
  have lic: "licit tx ?I p c" using c(2) by (simp add: licit_def)
  have e2: "evolves tx ?I w0 (apply_at p c w1)"
    using e1 lic by (intro evolves_trans [OF e1] evolves_apply) (simp_all add: evolves_def)
  have e3: "evolves tx ?I w0 (w1\<lparr>inflight := inflight w1 @ [(p, c)]\<rparr>)"
    using e1 lic by (auto simp: evolves_def)
  have "evolves tx ?I w0 w'"
    using call e1 e2 e3 by (auto simp: shard_call_def Let_def w0_def [symmetric] w1_def [symmetric] split: delivery.splits)
  then have "net_wf tx w'" "issued_to tx w' = ?I" "\<forall>s. drift ?I s (txst (mach w s) tx) (txst (mach w' s) tx)"
    using sf(2) I by (auto simp: evolves_def net_wf_def issued_to_def w0_def)
  moreover have "\<exists>m. machine_ok m \<and> mach w' p = fst (applyLocked c m) \<and> result_Err (snd (applyLocked c m)) = None"
    if "r = None"
    using call that e1
    by (auto simp: shard_call_def Let_def w0_def [symmetric] w1_def [symmetric] apply_at_def evolves_def
        split: delivery.splits)
  ultimately show ?thesis by simp
qed

lemma result_Err_None [simp]: "result_Err r = None \<longleftrightarrow> Code r = CodeOK"
  by (cases "Code r") (simp_all add: result_Err_def)

lemma prepared_undecided:
  "machine_ok m \<Longrightarrow> Mapping.lookup (prepared m) tx = Some p \<Longrightarrow> Mapping.lookup (decided m) tx = None"
  by (simp add: machine_ok_def prepared_ok_def)

lemma accepted_prepare:
  assumes "machine_ok m" and "Code (snd (applyLocked c m)) = CodeOK" and "Op c = OpPrepare"
  shows "txst (fst (applyLocked c m)) (Tx c) = Held"
proof -
  have "holds c (balance m (Key c)) (fst (applyLocked c m))" using assms(1,3,2) by (rule vote_holds)
  then have "machine_ok (fst (applyLocked c m))"
    "Mapping.lookup (prepared (fst (applyLocked c m))) (Tx c) = Some c" by (simp_all add: holds_def)
  then show ?thesis by (simp add: txst_def prepared_undecided)
qed

lemma accepted_commit:
  assumes "Code (snd (applyLocked c m)) = CodeOK" and "Op c = OpCommit"
  shows "txst (fst (applyLocked c m)) (Tx c) = Committed"
  by (cases rule: applyCommit_cases [of m c]) (use assms in \<open>simp_all add: applyLocked_def txst_def\<close>)

lemma accepted_abort:
  assumes "Op c = OpAbort"
  shows "txst (fst (applyLocked c m)) (Tx c) = Aborted \<or> txst (fst (applyLocked c m)) (Tx c) = Committed"
  using assms by (auto simp: applyLocked_def applyAbort_state txst_def split: option.splits)

lemma shard_request:
  assumes "net_wf tx w" and "Tx c = tx" and "request_of (Op c) = Some q"
    and "shard_call q p c w = (w', r)"
    and "\<And>m. machine_ok m \<Longrightarrow> Code (snd (applyLocked c m)) = CodeOK \<Longrightarrow> G (txst (fst (applyLocked c m)) (Tx c))"
  shows "net_wf tx w' \<and> issued_to tx w' = insert (p, q) (issued_to tx w)
    \<and> (\<forall>s. drift (issued_to tx w') s (txst (mach w s) tx) (txst (mach w' s) tx))
    \<and> (r = None \<longrightarrow> G (txst (mach w' p) tx))"
proof -
  have "G (txst (mach w' p) tx)" if r: "r = None"
  proof -
    obtain m where "machine_ok m" "mach w' p = fst (applyLocked c m)" "Code (snd (applyLocked c m)) = CodeOK"
      using shard_call_law [OF assms(1-4)] r by auto
    then show ?thesis using assms(5) [of m] assms(2) by simp
  qed
  with shard_call_law [OF assms(1-4)] show ?thesis by blast
qed

interpretation shards: participants shard_ops net_sink tx "net_wf tx" "\<lambda>w p. txst (mach w p) tx" "issued_to tx"
  for tx
proof
  show "net_wf tx w \<Longrightarrow> net_wf tx (net_sink e w)" for e w
    by (simp add: net_wf_def net_sink_def issued_to_def)
  show "(\<lambda>p. txst (mach (net_sink e w) p) tx) = (\<lambda>p. txst (mach w p) tx)" for e w
    by (simp add: net_sink_def)
  show "issued_to tx (net_sink e w) = issued_to tx w" for e w
    by (simp add: net_sink_def issued_to_def)
  show "net_wf tx w' \<and> issued_to tx w' = insert (p, RPrepare) (issued_to tx w)
      \<and> (\<forall>q. drift (issued_to tx w') q (txst (mach w q) tx) (txst (mach w' q) tx))
      \<and> (r = None \<longrightarrow> txst (mach w' p) tx = Held)"
    if "net_wf tx w" and "PPrepare shard_ops p tx k d w = (w', r)" for w p k d w' r
    by (rule shard_request [where c = "prepareCommand tx k d"])
      (use that accepted_prepare [of _ "prepareCommand tx k d"] in \<open>simp_all add: shard_ops_def command_defs\<close>)
  show "net_wf tx w' \<and> issued_to tx w' = insert (p, RCommit) (issued_to tx w)
      \<and> (\<forall>q. drift (issued_to tx w') q (txst (mach w q) tx) (txst (mach w' q) tx))
      \<and> (r = None \<longrightarrow> txst (mach w' p) tx = Committed)"
    if "net_wf tx w" and "PCommit shard_ops p tx w = (w', r)" for w p w' r
    by (rule shard_request [where c = "decideCommand OpCommit tx"])
      (use that accepted_commit [of "decideCommand OpCommit tx"] in \<open>simp_all add: shard_ops_def command_defs\<close>)
  show "net_wf tx w' \<and> issued_to tx w' = insert (p, RAbort) (issued_to tx w)
      \<and> (\<forall>q. drift (issued_to tx w') q (txst (mach w q) tx) (txst (mach w' q) tx))
      \<and> (r = None \<longrightarrow> txst (mach w' p) tx = Aborted \<or> txst (mach w' p) tx = Committed)"
    if "net_wf tx w" and "PAbort shard_ops p tx w = (w', r)" for w p w' r
    by (rule shard_request [where c = "decideCommand OpAbort tx"])
      (use that accepted_abort [of "decideCommand OpAbort tx"] in \<open>simp_all add: shard_ops_def command_defs\<close>)
qed

end
