(* ===== verification/TwoPhaseAtomic.thy ===== *)
theory TwoPhaseAtomic
  imports TwoPhaseShards
begin

text \<open>
  What the two-phase commit of the code guarantees over ledger shards, for every schedule of
  losses, delays and other clients, and where it stops: a coordinator that is replaced.
\<close>

section \<open>All or nothing\<close>

definition all_or_nothing :: "string \<Rightarrow> nat \<Rightarrow> nat \<Rightarrow> shardnet \<Rightarrow> bool" where
  "all_or_nothing tx pf pt w \<longleftrightarrow>
     (\<forall>p. txst (mach w p) tx \<noteq> Committed)
     \<or> (\<forall>p. txst (mach w p) tx \<noteq> Aborted) \<and> (\<forall>p \<in> {pf, pt}. txst (mach w p) tx \<in> {Held, Committed})"

lemma wf_acts:
  assumes "net_wf tx w" and "list_all (act_foreign tx) later"
  shows "drift (issued_to tx w) q (txst (mach w q) tx) (txst (mach (fold env_act later w) q) tx)"
proof -
  have "evolves tx (issued_to tx w) w (fold env_act later w)"
    using assms by (intro evolves_acts) (simp_all add: net_wf_def)
  then show ?thesis by (simp add: evolves_def)
qed

lemma aborting_later:
  assumes "shards.aborting tx w" and "list_all (act_foreign tx) later"
  shows "all_or_nothing tx pf pt (fold env_act later w)"
proof -
  have I: "issued_to tx w \<subseteq> UNIV \<times> {RPrepare, RAbort}" and wf: "net_wf tx w"
    and s: "txst (mach w q) tx \<noteq> Committed" for q
    using assms(1) by (simp_all add: shards.aborting_def)
  have "(q, RCommit) \<notin> issued_to tx w" for q using I by blast
  then have "txst (mach (fold env_act later w) q) tx \<noteq> Committed" for q
    using wf_acts [OF wf assms(2), of q] s [of q] unfolding drift_def by auto
  then show ?thesis by (simp add: all_or_nothing_def)
qed

lemma committing_later:
  assumes "shards.committing tx {pf, pt} D w" and "list_all (act_foreign tx) later"
  shows "all_or_nothing tx pf pt (fold env_act later w)"
proof -
  have I: "issued_to tx w \<subseteq> UNIV \<times> {RPrepare, RCommit}" and wf: "net_wf tx w"
    and s: "txst (mach w q) tx \<noteq> Aborted" for q
    using assms(1) by (simp_all add: shards.committing_def)
  have h: "txst (mach w q) tx = Held \<or> txst (mach w q) tx = Committed" if "q \<in> {pf, pt}" for q
    using assms(1) that by (auto simp: shards.committing_def)
  have n: "(q, RAbort) \<notin> issued_to tx w" for q using I by blast
  note d = wf_acts [OF wf assms(2)]
  have "txst (mach (fold env_act later w) q) tx \<noteq> Aborted" for q
    using d [of q] s [of q] n [of q] unfolding drift_def by auto
  moreover have "txst (mach (fold env_act later w) q) tx \<in> {Held, Committed}" if "q \<in> {pf, pt}" for q
    using d [of q] h [OF that] n [of q] unfolding drift_def by auto
  ultimately show ?thesis by (simp add: all_or_nothing_def)
qed

text \<open>
  C11: a transfer across shards is atomic.  Under every schedule of losses, late deliveries and
  other clients' commands, when the coordinator reports success both shards have committed; and
  whatever it reports, at no later moment is one of the shards committed while another has
  aborted: either the transaction is committed nowhere, now and later, or no shard ever aborts it
  and both accounts are held for it or have been moved.
\<close>

theorem transfer_atomic:
  assumes "net_wf tx w" and "issued_to tx w = {}" and "\<And>p. txst (mach w p) tx = Fresh"
    and "tx = tx_name (Suc (seq c))" and "esink (clog c) = net_sink"
    and "coord_Transfer shard_ops pf fromKey pt toKey amount c w = ((c', w'), r)"
    and "list_all (act_foreign tx) later"
  shows "(r = None \<longrightarrow> txst (mach w' pf) tx = Committed \<and> txst (mach w' pt) tx = Committed)
    \<and> all_or_nothing tx pf pt (fold env_act later w')"
proof -
  from shards.transfer_outcome [OF assms(1-3,5,4,6)]
  consider (finished) "r = None" "shards.committing tx {pf, pt} {pf, pt} w'"
    | (refused) "r \<noteq> None" "shards.aborting tx w'"
    | (doubt) D where "r \<noteq> None" "shards.committing tx {pf, pt} D w'"
    by blast
  then show ?thesis
  proof cases
    case finished
    then show ?thesis using committing_later [OF finished(2) assms(7)] by (simp add: shards.committing_def)
  next
    case refused
    then show ?thesis using aborting_later [OF refused(2) assms(7)] by auto
  next
    case doubt
    then show ?thesis using committing_later [OF doubt(2) assms(7)] by auto
  qed
qed

text \<open>Two shards of one account each.\<close>

definition wit_shard :: "string \<Rightarrow> i64 \<Rightarrow> machine" where
  "wit_shard k v = runLog [putCommand k v] (new_machine 0)"

definition wit_net :: "(envact list \<times> delivery) list \<Rightarrow> shardnet" where
  "wit_net s = \<lparr>mach = (\<lambda>p. if p = 0 then wit_shard ''a'' 10 else wit_shard ''b'' 1), inflight = [],
     script = s, sent = {}, events = []\<rparr>"

definition wit_coord :: "(nat, shardnet) coordinator" where
  "wit_coord = coordinator_New net_sink"

lemma wit_net_start:
  "script_foreign tx s \<Longrightarrow> net_wf tx (wit_net s)" "issued_to tx (wit_net s) = {}"
  "txst (mach (wit_net s) p) tx = Fresh" "esink (clog wit_coord) = net_sink" "seq wit_coord = 0"
proof -
  have "machine_ok (wit_shard k v)" for k v
    unfolding wit_shard_def by (rule machine_ok_runLog [OF machine_ok_new])
  then show "script_foreign tx s \<Longrightarrow> net_wf tx (wit_net s)" by (simp add: net_wf_def wit_net_def)
  have "decided (wit_shard k v) = Mapping.empty" "prepared (wit_shard k v) = Mapping.empty" for k v
    by (simp_all add: wit_shard_def applyLocked_def applyPut_def command_defs new_machine_def)
  then show "txst (mach (wit_net s) p) tx = Fresh" by (simp add: txst_def wit_net_def)
qed (simp_all add: issued_to_def wit_net_def wit_coord_def coordinator_New_def NewEmitter_def)

definition wit_schedule :: "(envact list \<times> delivery) list" where
  "wit_schedule = [([], Delivered), ([Other 1 (putCommand ''c'' 5)], Delivered), ([], Delivered), ([], Late)]"

definition wit_transfer :: "(envact list \<times> delivery) list \<Rightarrow>
    ((nat, shardnet) coordinator \<times> shardnet) \<times> goerror option" where
  "wit_transfer s = coord_Transfer shard_ops 0 ''a'' 1 ''b'' 4 wit_coord (wit_net s)"

lemma wit_tx: "tx_name (Suc 0) = ''tx1''"
  by code_simp

lemma wit_schedule_foreign: "script_foreign ''tx1'' wit_schedule"
  by code_simp

theorem transfer_atomic_witness:
  "all_or_nothing ''tx1'' 0 1 (fold env_act [Land 0] (snd (fst (wit_transfer wit_schedule))))"
proof -
  have "coord_Transfer shard_ops 0 ''a'' 1 ''b'' 4 wit_coord (wit_net wit_schedule)
      = ((fst (fst (wit_transfer wit_schedule)), snd (fst (wit_transfer wit_schedule))), snd (wit_transfer wit_schedule))"
    by (simp add: wit_transfer_def)
  from transfer_atomic [OF wit_net_start(1) [OF wit_schedule_foreign] wit_net_start(2,3) _ wit_net_start(4) this,
      of "[Land 0]"]
  show ?thesis by (simp add: wit_net_start(5) wit_tx)
qed

section \<open>A decided commit lands\<close>

lemma commit_applies:
  assumes "machine_ok m" and "txst m tx = Held \<or> txst m tx = Committed"
  shows "Code (snd (applyLocked (decideCommand OpCommit tx) m)) = CodeOK"
proof (cases rule: applyCommit_cases [of m "decideCommand OpCommit tx"])
  case (unknown r)
  then have "Mapping.lookup (decided m) tx = Some OpCommit"
    using assms(2) by (auto simp: command_defs txst_def split: option.splits if_splits)
  then show ?thesis by (simp add: applyLocked_def applyCommit_def command_defs new_lresult_def)
qed (simp_all add: applyLocked_def command_defs new_lresult_def valued_def)

lemma retry_delivered:
  assumes wf: "net_wf tx w" and held: "txst (mach w p) tx = Held \<or> txst (mach w p) tx = Committed"
    and noabort: "(p, RAbort) \<notin> issued_to tx w" and d: "snd (next_delivery w) = Delivered"
  shows "snd (retry_once shard_ops lg tx p w)"
proof -
  let ?c = "decideCommand OpCommit tx"
  define w0 where "w0 = w\<lparr>script := tl (script w), sent := insert (p, Tx ?c, RCommit) (sent w)\<rparr>"
  define w1 where "w1 = fold env_act (fst (next_delivery w)) w0"
  have I: "issued_to tx w0 = insert (p, RCommit) (issued_to tx w)"
    by (auto simp: w0_def issued_to_def command_defs)
  have sf: "list_all (act_foreign tx) (fst (next_delivery w))" "script_foreign tx (script w0)"
    using wf by (cases "script w"; auto simp: net_wf_def script_foreign_def next_delivery_def w0_def)+
  have "net_wf tx w0" using wf sf(2) I by (auto simp: net_wf_def w0_def licit_def)
  then have e: "evolves tx (issued_to tx w0) w0 w1"
    unfolding w1_def using sf(1) by (intro evolves_acts) (simp_all add: net_wf_def)
  then have "drift (issued_to tx w0) p (txst (mach w p) tx) (txst (mach w1 p) tx)"
    by (simp add: evolves_def w0_def)
  then have "txst (mach w1 p) tx = Held \<or> txst (mach w1 p) tx = Committed"
    using held noabort unfolding I drift_def by auto
  then have "Code (snd (applyLocked ?c (mach w1 p))) = CodeOK"
    using e by (intro commit_applies) (simp add: evolves_def)
  then have "snd (PCommit shard_ops p tx w) = None"
    by (simp add: shard_ops_def shard_call_def Let_def d w0_def [symmetric] w1_def [symmetric])
  then show ?thesis by (cases "PCommit shard_ops p tx w") (simp add: retry_once_def)
qed

lemma retry_call:
  assumes "esink lg = net_sink" and "retry_once shard_ops lg tx p w = (w', landed)"
  obtains w1 r where "PCommit shard_ops p tx w = (w1, r)" and "landed \<longleftrightarrow> r = None"
    and "mach w' = mach w1" "inflight w' = inflight w1" "script w' = script w1" "sent w' = sent w1"
proof -
  obtain w1 r where call: "PCommit shard_ops p tx w = (w1, r)" by fastforce
  with assms that show ?thesis
    by (cases r) (auto simp: retry_once_def Edge_def net_sink_def)
qed

lemma net_wf_cong:
  "mach w' = mach w \<Longrightarrow> inflight w' = inflight w \<Longrightarrow> script w' = script w \<Longrightarrow> sent w' = sent w \<Longrightarrow>
   net_wf tx w' = net_wf tx w \<and> issued_to tx w' = issued_to tx w"
  by (simp add: net_wf_def issued_to_def)

lemma retry_committed:
  assumes "net_wf tx w" and "esink lg = net_sink" and "retry_once shard_ops lg tx p w = (w', True)"
  shows "txst (mach w' p) tx = Committed"
proof -
  obtain w1 where "PCommit shard_ops p tx w = (w1, None)" "mach w' = mach w1"
    using retry_call [OF assms(2,3)] by metis
  then show ?thesis using shards.commit_law [OF assms(1)] by metis
qed

lemma shard_call_script: "script (fst (shard_call q p c w)) = tl (script w)"
proof -
  have "script (env_act a v) = script v" for a v by (cases a) (simp_all add: apply_at_def)
  then have "script (fold env_act as v) = script v" for as v by (induction as arbitrary: v) simp_all
  then show ?thesis by (simp add: shard_call_def Let_def apply_at_def split: delivery.splits)
qed

lemma retry_pending:
  assumes "net_wf tx w" and "txst (mach w p) tx = Held \<or> txst (mach w p) tx = Committed"
    and "\<forall>q. (q, RAbort) \<notin> issued_to tx w" and "esink lg = net_sink"
    and "retry_once shard_ops lg tx p w = (w', landed)"
  shows "net_wf tx w' \<and> (txst (mach w' p) tx = Held \<or> txst (mach w' p) tx = Committed)
    \<and> (\<forall>q. (q, RAbort) \<notin> issued_to tx w') \<and> script w' = tl (script w)"
proof -
  obtain w1 r where call: "PCommit shard_ops p tx w = (w1, r)"
    and eq: "mach w' = mach w1" "inflight w' = inflight w1" "script w' = script w1" "sent w' = sent w1"
    using retry_call [OF assms(4,5)] by metis
  have "script w1 = tl (script w)"
    using call shard_call_script by (simp add: shard_ops_def) (metis fst_conv)
  moreover have law: "net_wf tx w1" "issued_to tx w1 = insert (p, RCommit) (issued_to tx w)"
    "drift (issued_to tx w1) p (txst (mach w p) tx) (txst (mach w1 p) tx)"
    using shards.commit_law [OF assms(1) call] by blast+
  moreover have "(q, RAbort) \<notin> issued_to tx w1" for q using law(2) assms(3) by simp
  ultimately show ?thesis
    using net_wf_cong [OF eq, of tx] assms(2) eq unfolding drift_def by auto
qed

text \<open>
  C16: a decided commit is delivered in the end.  Take a transaction that a shard holds and whose
  decision is COMMIT, so that no abort was ever issued to it, and a background retry of the
  coordinator.  Whatever happens to the first attempts, if one attempt gets through then the retry
  loop ends by then and the shard has committed.
\<close>

theorem retry_settles:
  assumes "net_wf tx w" and "txst (mach w p) tx = Held \<or> txst (mach w p) tx = Committed"
    and "\<forall>q. (q, RAbort) \<notin> issued_to tx w" and "esink lg = net_sink"
    and "script w = failing @ (acts, Delivered) # rest"
  shows "case retry_loop shard_ops lg tx p (Suc (length failing)) w of
           (w', landed) \<Rightarrow> landed \<and> txst (mach w' p) tx = Committed"
  using assms(1-3,5)
proof (induction failing arbitrary: w)
  case Nil
  obtain w' where once: "retry_once shard_ops lg tx p w = (w', True)"
    using retry_delivered [OF Nil.prems(1,2), of lg] Nil.prems(3,4)
    by (cases "retry_once shard_ops lg tx p w") (simp add: next_delivery_def)
  then show ?case using retry_committed [OF Nil.prems(1) assms(4)] by simp
next
  case (Cons f failing)
  obtain w' landed where once: "retry_once shard_ops lg tx p w = (w', landed)" by fastforce
  show ?case
  proof (cases landed)
    case True
    then show ?thesis using retry_committed [OF Cons.prems(1) assms(4)] once by simp
  next
    case False
    then show ?thesis
      using Cons.IH [of w'] retry_pending [OF Cons.prems(1-3) assms(4) once] Cons.prems(4) once
      by simp
  qed
qed

text \<open>The coordinator's transaction is held at both shards and two commits to the second are lost.\<close>

definition wit_doubt :: shardnet where
  "wit_doubt = snd (fst (wit_transfer
     [([], Delivered), ([], Delivered), ([], Delivered), ([], Lost), ([], Lost), ([], Delivered)]))"

theorem retry_settles_witness:
  "case retry_loop shard_ops (clog wit_coord) ''tx1'' 1 2 wit_doubt of
     (w', landed) \<Rightarrow> landed \<and> txst (mach w' 1) ''tx1'' = Committed"
proof -
  let ?s = "[([], Delivered), ([], Delivered), ([], Delivered), ([], Lost), ([], Lost), ([], Delivered)]"
  have "script_foreign ''tx1'' ?s" by (simp add: script_foreign_def)
  moreover have "coord_Transfer shard_ops 0 ''a'' 1 ''b'' 4 wit_coord (wit_net ?s)
      = ((fst (fst (wit_transfer ?s)), wit_doubt), snd (wit_transfer ?s))"
    by (simp add: wit_transfer_def wit_doubt_def)
  moreover have held: "txst (mach wit_doubt 1) ''tx1'' = Held" by code_simp
  moreover have committed: "txst (mach wit_doubt 0) ''tx1'' = Committed" by code_simp
  ultimately have "\<exists>D. shards.committing ''tx1'' {0, 1} D wit_doubt"
    using shards.transfer_outcome [of "''tx1''" "wit_net ?s" wit_coord 0 "''a''" 1 "''b''" 4] wit_net_start wit_tx
    unfolding shards.aborting_def by metis
  then have "net_wf ''tx1'' wit_doubt" "\<forall>q. (q, RAbort) \<notin> issued_to ''tx1'' wit_doubt"
    by (auto simp: shards.committing_def)
  moreover have "script wit_doubt = [([], Lost)] @ ([], Delivered) # []" by code_simp
  ultimately show ?thesis
    using retry_settles [of "''tx1''" wit_doubt 1 "clog wit_coord" "[([], Lost)]" "[]" "[]"] held wit_net_start(4)
    by (simp add: numeral_2_eq_2)
qed

section \<open>Conservation across shards\<close>

lemma prepare_legs_invariant:
  assumes "\<And>e w. Q w \<Longrightarrow> Q (esink lg e w)"
    and "\<And>l w. l \<in> set ls \<Longrightarrow> Q w \<Longrightarrow> Q (fst (PPrepare P (leg_p l) tx (leg_key l) (leg_delta l) w))"
    and "Q w"
  shows "Q (fst (prepare_legs P lg tx ls r n w))"
  using assms(2,3)
proof (induction ls arbitrary: r n w)
  case (Cons l ls)
  have logs: "Q v \<Longrightarrow> Q (log_prepare P lg tx l v)" "Q v \<Longrightarrow> Q (log_skipped P lg l v)"
    "Q v \<Longrightarrow> Q (log_vote P lg tx l x v)" for v x
    using assms(1) by (auto simp: log_prepare_def log_skipped_def log_vote_def Edge_def emitter_emit_def
        WithTag_def Let_def split: option.splits)
  obtain w1 v where call: "PPrepare P (leg_p l) tx (leg_key l) (leg_delta l) (log_prepare P lg tx l w) = (w1, v)"
    by fastforce
  have "Q w1" using Cons.prems(1) [of l "log_prepare P lg tx l w"] logs(1) Cons.prems(2) call by simp
  then show ?case
    using Cons.IH Cons.prems logs(2,3) call by (cases r; cases v) simp_all
qed simp

lemma abort_legs_invariant:
  assumes "\<And>e w. Q w \<Longrightarrow> Q (esink lg e w)" and "\<And>l w. l \<in> set ls \<Longrightarrow> Q w \<Longrightarrow> Q (fst (PAbort P (leg_p l) tx w))"
    and "Q w"
  shows "Q (abort_legs P lg tx ls w)"
  using assms(2,3)
proof (induction ls arbitrary: w)
  case (Cons l ls)
  obtain w1 r where call: "PAbort P (leg_p l) tx w = (w1, r)" by fastforce
  then have "Q w1" using Cons.prems(1) [of l w] Cons.prems(2) by simp
  then have "Q (log_abort P lg l r w1)"
    using assms(1) by (auto simp: log_abort_def Edge_def emitter_emit_def WithTag_def Let_def split: option.splits)
  then show ?case using Cons.IH Cons.prems(1) call by simp
qed simp

lemma commit_legs_invariant:
  assumes "\<And>e w. Q w \<Longrightarrow> Q (esink lg e w)" and "\<And>l w. l \<in> set ls \<Longrightarrow> Q w \<Longrightarrow> Q (fst (PCommit P (leg_p l) tx w))"
    and "Q w"
  shows "Q (fst (commit_legs P lg tx ls U w))"
  using assms(2,3)
proof (induction ls arbitrary: U w)
  case (Cons l ls)
  obtain w1 r where call: "PCommit P (leg_p l) tx w = (w1, r)" by fastforce
  then have "Q w1" using Cons.prems(1) [of l w] Cons.prems(2) by simp
  then have "Q (log_commit P lg l r w1)"
    using assms(1) by (auto simp: log_commit_def Edge_def emitter_emit_def WithTag_def Let_def split: option.splits)
  then show ?case using Cons.IH Cons.prems(1) call by simp
qed simp

text \<open>What every event and every request of a transfer keeps, the transfer keeps.\<close>

lemma transfer_invariant:
  fixes pf pt fromKey toKey amount c
  defines "legs \<equiv> transfer_legs pf fromKey pt toKey amount" and "tx \<equiv> tx_name (Suc (seq c))"
  assumes "\<And>e w. Q w \<Longrightarrow> Q (esink (clog c) e w)"
    and "\<And>l w. l \<in> set legs \<Longrightarrow> Q w \<Longrightarrow> Q (fst (PPrepare P (leg_p l) tx (leg_key l) (leg_delta l) w))"
    and "\<And>l w. l \<in> set legs \<Longrightarrow> Q w \<Longrightarrow> Q (fst (PCommit P (leg_p l) tx w))"
    and "\<And>l w. l \<in> set legs \<Longrightarrow> Q w \<Longrightarrow> Q (fst (PAbort P (leg_p l) tx w))" and "Q w"
  shows "Q (snd (fst (coord_Transfer P pf fromKey pt toKey amount c w)))"
proof -
  let ?lg = "clog c"
  have e: "Q v \<Longrightarrow> Q (emitter_emit (Some ?lg) l m v)" for v l m
    using assms(3) by (simp add: emitter_emit_def)
  obtain w1 refusal yes where prep:
    "prepare_legs P ?lg tx legs None 0 (log_begin P ?lg tx pf fromKey pt toKey amount w) = (w1, refusal, yes)"
    by (metis prod_cases3)
  have "Q (log_begin P ?lg tx pf fromKey pt toKey amount w)" using e assms(7) by (simp add: log_begin_def)
  then have "Q (fst (prepare_legs P ?lg tx legs None 0 (log_begin P ?lg tx pf fromKey pt toKey amount w)))"
    using assms(3,4) by (intro prepare_legs_invariant [where Q = Q]) blast+
  then have w1: "Q (log_decision ?lg d tx yes legs w1)" for d using prep e by (simp add: log_decision_def)
  show ?thesis
  proof (cases refusal)
    case (Some r)
    have "Q (abort_legs P ?lg tx legs (log_decision ?lg ''ABORT'' tx yes legs w1))"
      using assms(3,6) w1 by (intro abort_legs_invariant [where Q = Q]) blast+
    then show ?thesis using prep Some by (simp add: coord_Transfer_def Let_def legs_def tx_def)
  next
    case None
    obtain w2 U where com: "commit_legs P ?lg tx legs [] (log_decision ?lg ''COMMIT'' tx yes legs w1) = (w2, U)"
      by fastforce
    have "Q (fst (commit_legs P ?lg tx legs [] (log_decision ?lg ''COMMIT'' tx yes legs w1)))"
      using assms(3,5) w1 by (intro commit_legs_invariant [where Q = Q]) blast+
    then have "Q w2" using com by simp
    then show ?thesis
      using prep None com e by (simp add: coord_Transfer_def phase_two_def Let_def legs_def tx_def)
  qed
qed

text \<open>A command of another client that moves no money into or out of a shard.\<close>

definition neutral :: "lcommand \<Rightarrow> bool" where
  "neutral c \<longleftrightarrow> Op c \<noteq> OpPut \<and> Op c \<noteq> OpCommit"

fun act_neutral :: "envact \<Rightarrow> bool" where
  "act_neutral (Other p c) = neutral c"
| "act_neutral (Land i) = True"

definition own_command :: "string \<Rightarrow> (nat \<Rightarrow> i64) \<Rightarrow> nat \<Rightarrow> lcommand \<Rightarrow> bool" where
  "own_command tx \<delta> p c \<longleftrightarrow> Tx c = tx \<and> (Op c = OpPrepare \<and> Amount c = \<delta> p \<or> Op c = OpCommit \<or> Op c = OpAbort)"

text \<open>A shard whose money differs from \<open>b\<close> by exactly the delta of \<open>tx\<close>, once committed there.\<close>

definition accounted :: "string \<Rightarrow> i64 \<Rightarrow> i64 \<Rightarrow> machine \<Rightarrow> bool" where
  "accounted tx d b m \<longleftrightarrow> machine_ok m \<and> total m = b + (if txst m tx = Committed then d else 0)
     \<and> (\<forall>c. Mapping.lookup (prepared m) tx = Some c \<longrightarrow> Amount c = d)"

lemma neutral_total:
  assumes "neutral c"
  shows "total (fst (applyLocked c m)) = total m"
proof (cases "Op c")
  case OpTransfer
  then show ?thesis
    by (cases rule: applyTransfer_cases [of c m])
      (use transfer_total [of c m] in \<open>simp_all add: applyLocked_def\<close>)
next
  case OpPrepare
  then show ?thesis
    by (cases rule: prepareLocked_cases [of m c]) (simp_all add: applyLocked_def total_def balance_def)
next
  case OpAbort
  then show ?thesis
    by (auto simp: applyLocked_def applyAbort_state total_def balance_def split: option.splits)
qed (use assms in \<open>auto simp: neutral_def applyLocked_def applyGet_def split: option.splits\<close>)

lemma accounted_foreign:
  assumes "accounted tx d b m" and "foreign tx c" and "neutral c"
  shows "accounted tx d b (fst (applyLocked c m))"
  using assms(1) foreign_keeps [OF assms(2), of m] foreign_txst [OF assms(2), of m] neutral_total [OF assms(3), of m]
  by (simp add: accounted_def machine_ok_applyLocked)

lemma accounted_own:
  assumes "accounted tx (\<delta> p) b m" and "own_command tx \<delta> p c"
  shows "accounted tx (\<delta> p) b (fst (applyLocked c m))"
proof -
  have ok: "machine_ok m" "machine_ok (fst (applyLocked c m))" using assms(1) machine_ok_applyLocked by (auto simp: accounted_def)
  consider (prep) "Op c = OpPrepare" "Amount c = \<delta> p" | (com) "Op c = OpCommit" | (ab) "Op c = OpAbort"
    using assms(2) by (auto simp: own_command_def)
  then show ?thesis
  proof cases
    case prep
    then have "total (fst (applyLocked c m)) = total m" by (intro neutral_total) (simp add: neutral_def)
    then show ?thesis using assms ok prep
      by (cases rule: prepareLocked_cases [of m c])
        (auto simp: accounted_def own_command_def applyLocked_def txst_def split: option.splits)
  next
    case com
    show ?thesis
    proof (cases rule: applyCommit_cases [of m c])
      case (committed q)
      have t: "Tx c = tx" using assms(2) by (simp add: own_command_def)
      have "Amount q = \<delta> p" "txst m tx = Held"
        using assms(1) committed(1) ok(1) t by (auto simp: accounted_def txst_def prepared_undecided)
      then show ?thesis
        using commit_adds [OF ok(1) committed(1)] assms(1) ok committed(3) com t
        by (simp add: accounted_def applyLocked_def txst_def)
    qed (use assms(1) com in \<open>simp_all add: applyLocked_def\<close>)
  next
    case ab
    then have "total (fst (applyLocked c m)) = total m" by (intro neutral_total) (simp add: neutral_def)
    moreover have "txst (fst (applyLocked c m)) tx = Committed \<longleftrightarrow> txst m tx = Committed"
      using ab assms(2) by (auto simp: own_command_def applyLocked_def applyAbort_state txst_def split: option.splits)
    moreover have "Mapping.lookup (prepared (fst (applyLocked c m))) tx = None"
      using ab assms(2) by (auto simp: own_command_def applyLocked_def applyAbort_state split: option.splits)
    ultimately show ?thesis using assms(1) ok by (simp add: accounted_def)
  qed
qed

definition settled_or_own :: "string \<Rightarrow> (nat \<Rightarrow> i64) \<Rightarrow> nat \<Rightarrow> lcommand \<Rightarrow> bool" where
  "settled_or_own tx \<delta> p c \<longleftrightarrow> foreign tx c \<and> neutral c \<or> own_command tx \<delta> p c"

definition net_accounted :: "string \<Rightarrow> (nat \<Rightarrow> i64) \<Rightarrow> (nat \<Rightarrow> i64) \<Rightarrow> shardnet \<Rightarrow> bool" where
  "net_accounted tx \<delta> b w \<longleftrightarrow> (\<forall>p. accounted tx (\<delta> p) (b p) (mach w p))
     \<and> list_all (\<lambda>x. list_all (\<lambda>a. act_foreign tx a \<and> act_neutral a) (fst x)) (script w)
     \<and> list_all (\<lambda>x. settled_or_own tx \<delta> (fst x) (snd x)) (inflight w)"

lemma net_accounted_apply:
  assumes "net_accounted tx \<delta> b w" and "settled_or_own tx \<delta> p c"
  shows "net_accounted tx \<delta> b (apply_at p c w)"
  using assms accounted_foreign accounted_own
  by (auto simp: net_accounted_def apply_at_def settled_or_own_def)

lemma net_accounted_act:
  assumes "net_accounted tx \<delta> b w" and "act_foreign tx a" and "act_neutral a"
  shows "net_accounted tx \<delta> b (env_act a w)"
proof (cases a)
  case (Other p c)
  then show ?thesis using assms net_accounted_apply by (simp add: settled_or_own_def)
next
  case (Land i)
  show ?thesis
  proof (cases "i < length (inflight w)")
    case True
    let ?w = "w\<lparr>inflight := take i (inflight w) @ drop (Suc i) (inflight w)\<rparr>"
    have "settled_or_own tx \<delta> (fst (inflight w ! i)) (snd (inflight w ! i))"
      using assms(1) True by (simp add: net_accounted_def list_all_length)
    moreover have "net_accounted tx \<delta> b ?w"
      using assms(1) by (auto simp: net_accounted_def list_all_iff dest: in_set_takeD in_set_dropD)
    ultimately show ?thesis using net_accounted_apply Land True by simp
  qed (use Land assms in simp)
qed

lemma net_accounted_call:
  assumes "net_accounted tx \<delta> b w" and "own_command tx \<delta> p c"
  shows "net_accounted tx \<delta> b (fst (shard_call q p c w))"
proof -
  define w0 where "w0 = w\<lparr>script := tl (script w), sent := insert (p, Tx c, q) (sent w)\<rparr>"
  define w1 where "w1 = fold env_act (fst (next_delivery w)) w0"
  have acts: "list_all (\<lambda>a. act_foreign tx a \<and> act_neutral a) (fst (next_delivery w))"
    using assms(1) by (cases "script w") (auto simp: net_accounted_def next_delivery_def)
  have "net_accounted tx \<delta> b w0"
    using assms(1) by (cases "script w") (auto simp: net_accounted_def w0_def)
  then have w1: "net_accounted tx \<delta> b w1"
    unfolding w1_def
    by (rule fold_invariant [where P = "net_accounted tx \<delta> b"])
      (use acts in \<open>simp_all add: net_accounted_act list_all_iff\<close>)
  have own: "settled_or_own tx \<delta> p c" using assms(2) by (simp add: settled_or_own_def)
  have "net_accounted tx \<delta> b (w1\<lparr>inflight := inflight w1 @ [(p, c)]\<rparr>)"
    using w1 own by (simp add: net_accounted_def)
  moreover note net_accounted_apply [OF w1 own]
  ultimately show ?thesis using w1
    by (simp add: shard_call_def Let_def w0_def [symmetric] w1_def [symmetric] split: delivery.splits)
qed

lemma transfer_accounts:
  assumes "net_accounted (tx_name (Suc (seq c))) \<delta> b w" and "esink (clog c) = net_sink"
    and "\<delta> pf = - amount" and "\<delta> pt = amount"
  shows "net_accounted (tx_name (Suc (seq c))) \<delta> b
    (snd (fst (coord_Transfer shard_ops pf fromKey pt toKey amount c w)))"
proof -
  let ?tx = "tx_name (Suc (seq c))"
  have own: "own_command ?tx \<delta> (leg_p l) (prepareCommand ?tx (leg_key l) (leg_delta l))"
    if "l \<in> set (transfer_legs pf fromKey pt toKey amount)" for l
    using that assms(3,4) by (auto simp: transfer_legs_def own_command_def command_defs)
  have dec: "own_command ?tx \<delta> p (decideCommand OpCommit ?tx)" "own_command ?tx \<delta> p (decideCommand OpAbort ?tx)"
    for p by (simp_all add: own_command_def command_defs)
  show ?thesis
    by (rule transfer_invariant)
      (use assms(1,2) own dec in \<open>simp_all add: shard_ops_def net_accounted_call, simp add: net_sink_def net_accounted_def\<close>)
qed

text \<open>
  C12: money moves, it is not made.  Under every schedule in which the other clients neither write
  balances nor commit transactions of their own, a transfer across two shards takes the amount
  from the first exactly if it is committed there and adds it to the second exactly if it is
  committed there; reported done, it leaves the money of the two shards together as it was.
\<close>

theorem cross_shard_conserves:
  assumes "pf \<noteq> pt" and "net_wf tx w" and "issued_to tx w = {}" and "\<And>p. txst (mach w p) tx = Fresh"
    and "tx = tx_name (Suc (seq c))" and "esink (clog c) = net_sink"
    and "list_all (\<lambda>x. list_all act_neutral (fst x)) (script w)"
    and "list_all (\<lambda>x. foreign tx (snd x) \<and> neutral (snd x)) (inflight w)"
    and "coord_Transfer shard_ops pf fromKey pt toKey amount c w = ((c', w'), r)"
  shows "total (mach w' pf) = total (mach w pf) - (if txst (mach w' pf) tx = Committed then amount else 0)
    \<and> total (mach w' pt) = total (mach w pt) + (if txst (mach w' pt) tx = Committed then amount else 0)
    \<and> (r = None \<longrightarrow> total (mach w' pf) + total (mach w' pt) = total (mach w pf) + total (mach w pt))"
proof -
  let ?d = "\<lambda>p. if p = pf then - amount else if p = pt then amount else 0" and ?b = "\<lambda>p. total (mach w p)"
  have "accounted tx (?d p) (?b p) (mach w p)" for p
  proof -
    have "Mapping.lookup (prepared (mach w p)) tx = None"
      using assms(4) [of p] by (auto simp: txst_def split: option.splits if_splits)
    then show ?thesis using assms(2) assms(4) [of p] by (simp add: accounted_def net_wf_def)
  qed
  then have "net_accounted tx ?d ?b w"
    using assms(2,7,8) by (auto simp: net_accounted_def net_wf_def script_foreign_def settled_or_own_def list_all_iff)
  then have "net_accounted tx ?d ?b w'"
    using transfer_accounts [of c ?d ?b w pf amount pt fromKey toKey] assms(1,5,6,9) by simp
  then have acc: "accounted tx (?d p) (?b p) (mach w' p)" for p by (simp add: net_accounted_def)
  have "r = None \<Longrightarrow> txst (mach w' pf) tx = Committed \<and> txst (mach w' pt) tx = Committed"
    using shards.transfer_outcome [OF assms(2-4,6,5,9)] by (auto simp: shards.committing_def)
  then show ?thesis using acc [of pf] acc [of pt] assms(1) by (auto simp: accounted_def)
qed

theorem cross_shard_conserves_witness:
  "total (mach (snd (fst (wit_transfer []))) 0) + total (mach (snd (fst (wit_transfer []))) 1)
   = total (mach (wit_net []) 0) + total (mach (wit_net []) 1)"
proof -
  have "coord_Transfer shard_ops 0 ''a'' 1 ''b'' 4 wit_coord (wit_net [])
      = ((fst (fst (wit_transfer [])), snd (fst (wit_transfer []))), None)"
  proof -
    have "snd (wit_transfer []) = None" by code_simp
    then show ?thesis unfolding wit_transfer_def by (metis prod.collapse)
  qed
  moreover have "(0 :: nat) \<noteq> 1" "script_foreign ''tx1'' []" "''tx1'' = tx_name (Suc (seq wit_coord))"
    by (simp_all add: script_foreign_def wit_net_start(5) wit_tx)
  moreover have "list_all (\<lambda>x. list_all act_neutral (fst x)) (script (wit_net []))"
    "list_all (\<lambda>x. foreign ''tx1'' (snd x) \<and> neutral (snd x)) (inflight (wit_net []))"
    by (simp_all add: wit_net_def)
  ultimately show ?thesis
    using cross_shard_conserves [OF _ wit_net_start(1) wit_net_start(2,3) _ wit_net_start(4)] by blast
qed

section \<open>A replaced coordinator\<close>

text \<open>
  C17: the guarantee ends with the coordinator.  A transfer of 4 commits on the first shard while
  its commit is lost on the way to the second; the coordinator is closed, as when the gateway
  stops, and a new one, as the gateway that reconnects to the same node processes makes, numbers
  its transactions from one again.  Its first transfer is refused by the first shard, which has
  decided a transaction of that name, and is then aborted at both: that aborts the half of the old
  transaction the second shard still held.  One shard has committed and the other has aborted, and
  of the 11 units the two accounts held together 7 are left.
\<close>

theorem replaced_coordinator_loses_money:
  "let ((c1, w1), r1) = wit_transfer [([], Delivered), ([], Delivered), ([], Delivered), ([], Lost)];
       c2 = coord_Close c1;
       ((c3, w3), r3) = coord_Transfer shard_ops 0 ''a'' 1 ''b'' 1 wit_coord w1
   in bg c1 = [(''tx1'', 1)] \<and> bg c2 = []
      \<and> txst (mach w1 0) ''tx1'' = Committed \<and> txst (mach w1 1) ''tx1'' = Held
      \<and> r3 \<noteq> None \<and> txst (mach w3 0) ''tx1'' = Committed \<and> txst (mach w3 1) ''tx1'' = Aborted
      \<and> balance (mach w1 0) ''a'' = 6 \<and> balance (mach w3 0) ''a'' = 6 \<and> balance (mach w3 1) ''b'' = 1"
  by code_simp

end
