(* ===== verification/Faults.thy ===== *)
theory Faults
  imports Ballots GoErrors
begin

text \<open>
  The fault table of \<^verbatim>\<open>src/internal/transport/faults.go\<close>: which nodes are dead and how the network is
  split.  Go's maps are a set of dead nodes and a partial function from nodes to group indices.
\<close>

record faults =
  dead :: "string set"
  group :: "string \<Rightarrow> int option"
  groups :: "string list list"

record FaultState =
  FDead :: "string list"
  FGroups :: "string list list"

definition NewFaults :: faults where
  "NewFaults = \<lparr>dead = {}, group = Map.empty, groups = []\<rparr>"

definition faults_Kill :: "string \<Rightarrow> faults \<Rightarrow> faults" where
  "faults_Kill i f = f\<lparr>dead := insert i (dead f)\<rparr>"

definition faults_Revive :: "string \<Rightarrow> faults \<Rightarrow> faults" where
  "faults_Revive i f = f\<lparr>dead := dead f - {i}\<rparr>"

definition Dead :: "faults \<Rightarrow> string \<Rightarrow> bool" where
  "Dead f i \<longleftrightarrow> i \<in> dead f"

text \<open>The loop of \<^verbatim>\<open>Partition\<close>: group \<open>i\<close> and those after it; a later mention of a node wins.\<close>

fun assign_groups :: "int \<Rightarrow> string list list \<Rightarrow> (string \<Rightarrow> int option) \<Rightarrow> (string \<Rightarrow> int option)" where
  "assign_groups i [] m = m"
| "assign_groups i (g # gs) m = assign_groups (i + 1) gs (fold (\<lambda>x m. m(x \<mapsto> i)) g m)"

definition faults_Partition :: "string list list \<Rightarrow> faults \<Rightarrow> faults" where
  "faults_Partition gs f = f\<lparr>group := assign_groups 0 gs Map.empty, groups := gs\<rparr>"

definition faults_Heal :: "faults \<Rightarrow> faults" where
  "faults_Heal f = faults_Partition [] f"

definition Partitioned :: "faults \<Rightarrow> bool" where
  "Partitioned f \<longleftrightarrow> length (groups f) > 0"

definition GroupOf :: "faults \<Rightarrow> string \<Rightarrow> int" where
  "GroupOf f i = (if groups f = [] then 0 else case group f i of Some g \<Rightarrow> g | None \<Rightarrow> -1)"

definition Check :: "faults \<Rightarrow> string \<Rightarrow> string \<Rightarrow> goerror option" where
  "Check f src dst =
     (if Dead f src then Some (Errorf [] (the_error ErrUnreachable) ('': '' @ src @ '' is down''))
      else if Dead f dst then Some (Errorf [] (the_error ErrUnreachable) ('': '' @ dst @ '' is down''))
      else if GroupOf f src \<noteq> GroupOf f dst
      then Some (Errorf [] (the_error ErrUnreachable) ('': '' @ src @ '' and '' @ dst @ '' are partitioned''))
      else None)"

definition faults_State :: "faults \<Rightarrow> FaultState" where
  "faults_State f = \<lparr>FDead = sorted_list_of_set (dead f), FGroups = groups f\<rparr>"

definition faults_Restore :: "FaultState \<Rightarrow> faults \<Rightarrow> faults" where
  "faults_Restore s f = (faults_Partition (FGroups s) f)\<lparr>dead := set (FDead s)\<rparr>"

lemmas faults_ops = faults_Kill_def faults_Revive_def faults_Partition_def faults_Heal_def faults_Restore_def

lemma Check_None [fault_simps]:
  "Check f a b = None \<longleftrightarrow> \<not> Dead f a \<and> \<not> Dead f b \<and> GroupOf f a = GroupOf f b"
  by (simp add: Check_def)

lemma GroupOf_ops [fault_simps]:
  "GroupOf (faults_Kill i f) j = GroupOf f j" "GroupOf (faults_Revive i f) j = GroupOf f j"
  "GroupOf (faults_Heal f) j = 0" "GroupOf NewFaults j = 0"
  by (simp_all add: GroupOf_def faults_ops NewFaults_def)

lemma Dead_ops [fault_simps]:
  "Dead (faults_Kill i f) j \<longleftrightarrow> i = j \<or> Dead f j" "Dead (faults_Revive i f) j \<longleftrightarrow> i \<noteq> j \<and> Dead f j"
  "Dead (faults_Heal f) j \<longleftrightarrow> Dead f j" "Dead (faults_Partition gs f) j \<longleftrightarrow> Dead f j"
  "Dead NewFaults j \<longleftrightarrow> False"
  by (auto simp: Dead_def faults_ops NewFaults_def)

section \<open>Which side a node is on\<close>

lemma fold_assign: "fold (\<lambda>x m. m(x \<mapsto> i)) g m j = (if j \<in> set g then Some i else m j)"
  by (induction g arbitrary: m) auto

lemma assign_unlisted: "\<forall>g \<in> set gs. j \<notin> set g \<Longrightarrow> assign_groups i gs m j = m j"
  by (induction gs arbitrary: i m) (simp_all add: fold_assign)

lemma assign_listed:
  "n < length gs \<Longrightarrow> j \<in> set (gs ! n) \<Longrightarrow> \<forall>k < length gs. k \<noteq> n \<longrightarrow> j \<notin> set (gs ! k) \<Longrightarrow>
   assign_groups i gs m j = Some (i + int n)"
proof (induction gs arbitrary: i m n)
  case (Cons g gs)
  show ?case
  proof (cases n)
    case 0
    have "j \<notin> set (gs ! q)" if "q < length gs" for q
      using that Cons.prems(3) [rule_format, of "Suc q"] 0 by simp
    then have "\<forall>h \<in> set gs. j \<notin> set h" by (metis in_set_conv_nth)
    then show ?thesis using 0 Cons.prems(2) by (simp add: assign_unlisted fold_assign)
  next
    case (Suc k)
    have "\<forall>q < length gs. q \<noteq> k \<longrightarrow> j \<notin> set (gs ! q)"
      using Cons.prems(3) Suc by (metis Suc_less_eq length_Cons nat.inject nth_Cons_Suc)
    with Cons.IH [of k "i + 1"] Cons.prems(1,2) Suc show ?thesis by simp
  qed
qed simp

definition disjoint_groups :: "string list list \<Rightarrow> bool" where
  "disjoint_groups gs \<longleftrightarrow> (\<forall>m < length gs. \<forall>n < length gs. m \<noteq> n \<longrightarrow> set (gs ! m) \<inter> set (gs ! n) = {})"

lemma GroupOf_listed:
  assumes "disjoint_groups gs" and "n < length gs" and "j \<in> set (gs ! n)"
  shows "GroupOf (faults_Partition gs f) j = int n"
proof -
  have "\<forall>k < length gs. k \<noteq> n \<longrightarrow> j \<notin> set (gs ! k)" using assms by (auto simp: disjoint_groups_def)
  then have "assign_groups 0 gs Map.empty j = Some (int n)"
    using assign_listed [OF assms(2,3), of 0] by simp
  then show ?thesis using assms(2) by (auto simp: GroupOf_def faults_ops)
qed

lemma GroupOf_unlisted:
  "gs \<noteq> [] \<Longrightarrow> \<forall>g \<in> set gs. j \<notin> set g \<Longrightarrow> GroupOf (faults_Partition gs f) j = -1"
  by (simp add: GroupOf_def faults_ops assign_unlisted)

lemma partition_sides:
  assumes "disjoint_groups gs" and "gs \<noteq> []" and "\<not> Dead f a" and "\<not> Dead f b"
  shows "let f' = faults_Partition gs f
         in (Check f' a b = None \<longleftrightarrow> (\<exists>g \<in> set gs. a \<in> set g \<and> b \<in> set g) \<or> (\<forall>g \<in> set gs. a \<notin> set g \<and> b \<notin> set g))
            \<and> (Check f' a b = None \<longleftrightarrow> Check f' b a = None)"
proof -
  let ?f = "faults_Partition gs f"
  let ?in = "\<lambda>x n. n < length gs \<and> x \<in> set (gs ! n)"
  have side: "(\<exists>n. ?in x n \<and> GroupOf ?f x = int n) \<or> (\<forall>g \<in> set gs. x \<notin> set g) \<and> GroupOf ?f x = -1" for x
    using GroupOf_listed [OF assms(1)] GroupOf_unlisted [OF assms(2)] by (metis in_set_conv_nth)
  have listed: "(\<exists>g \<in> set gs. a \<in> set g \<and> b \<in> set g) \<longleftrightarrow> (\<exists>n. ?in a n \<and> ?in b n)"
    by (metis in_set_conv_nth)
  have g: "?in x n \<Longrightarrow> GroupOf ?f x = int n" for x n using GroupOf_listed [OF assms(1)] by blast
  have "GroupOf ?f a = GroupOf ?f b \<longleftrightarrow>
      (\<exists>n. ?in a n \<and> ?in b n) \<or> (\<forall>g \<in> set gs. a \<notin> set g \<and> b \<notin> set g)" (is "?l = ?r")
  proof
    assume ?l
    with side [of a] side [of b] show ?r by (elim disjE exE conjE) auto
  next
    assume ?r
    then show ?l
    proof
      assume "\<exists>n. ?in a n \<and> ?in b n"
      then show ?l using g by metis
    next
      assume "\<forall>g \<in> set gs. a \<notin> set g \<and> b \<notin> set g"
      then show ?l using GroupOf_unlisted [OF assms(2)] by simp
    qed
  qed
  then show ?thesis using assms(3,4) listed by (simp add: Let_def fault_simps) metis
qed

text \<open>
  A partition into disjoint groups does what it says.  Two live nodes can exchange messages, in
  both directions, exactly when one of the groups lists both or neither is listed in any group; in
  particular a node that was not listed bridges nothing.
\<close>

theorem partition_semantics:
  assumes "disjoint_groups gs" and "gs \<noteq> []" and "\<not> Dead f a" and "\<not> Dead f b"
  shows "let f' = faults_Partition gs f
         in (Check f' a b = None \<longleftrightarrow> (\<exists>g \<in> set gs. a \<in> set g \<and> b \<in> set g) \<or> (\<forall>g \<in> set gs. a \<notin> set g \<and> b \<notin> set g))
            \<and> (Check f' a b = None \<longleftrightarrow> Check f' b a = None)"
  by (rule partition_sides [OF assms])

theorem partition_semantics_witness:
  "Check (faults_Partition [[''s0n0''], [''s0n1'', ''s0n2'']] NewFaults) ''s0n0'' ''s0n1'' \<noteq> None
   \<and> Check (faults_Partition [[''s0n0''], [''s0n1'', ''s0n2'']] NewFaults) ''s1n0'' ''s1n1'' = None"
proof -
  let ?gs = "[[''s0n0''], [''s0n1'', ''s0n2'']]"
  have "disjoint_groups ?gs" unfolding disjoint_groups_def by (simp add: less_Suc_eq)
  then show ?thesis
    using partition_semantics [of ?gs NewFaults "''s0n0''" "''s0n1''"]
      partition_semantics [of ?gs NewFaults "''s1n0''" "''s1n1''"]
    by (simp add: Let_def fault_simps)
qed

section \<open>The table as it travels\<close>

datatype operator_fault = FKill string | FRevive string | FPartition "string list list" | FHeal

fun fault_op :: "operator_fault \<Rightarrow> faults \<Rightarrow> faults" where
  "fault_op (FKill i) f = faults_Kill i f"
| "fault_op (FRevive i) f = faults_Revive i f"
| "fault_op (FPartition gs) f = faults_Partition gs f"
| "fault_op FHeal f = faults_Heal f"

definition table_ok :: "faults \<Rightarrow> bool" where
  "table_ok f \<longleftrightarrow> finite (dead f) \<and> group f = assign_groups 0 (groups f) Map.empty"

lemma table_ok_step: "table_ok f \<Longrightarrow> table_ok (fault_op x f)"
  by (cases x) (simp_all add: table_ok_def faults_ops)

text \<open>
  A node process that restores the state it was sent holds the operator's table: after any
  sequence of kills, revivals, partitions and heals, copying the table out with \<^verbatim>\<open>State\<close> and
  restoring the copy over whatever another table held gives exactly the first table, so every
  check agrees with the operator's.
\<close>

theorem Restore_State: "let f = fold fault_op ops NewFaults in faults_Restore (faults_State f) g = f"
proof -
  have "table_ok (fold fault_op ops NewFaults)"
    by (rule fold_invariant) (simp_all add: table_ok_step, simp add: table_ok_def NewFaults_def)
  then show ?thesis
    by (simp add: Let_def faults_Restore_def faults_State_def faults_Partition_def table_ok_def)
qed

end
