(* ===== verification/Commands.thy ===== *)
theory Commands
  imports Faults
begin

text \<open>
  The operator's command language, from \<^verbatim>\<open>src/internal/gateway/command.go\<close>: a line of text becomes a
  command or an error that is shown as it is.  An accepted command is well formed, can be written
  back as a line that reads the same, and an accepted partition names disjoint groups.
\<close>

section \<open>Commands\<close>

datatype verb =
  verbStatus | verbPut | verbGet | verbTransfer | verbKill | verbRevive | verbPartition | verbHeal
| verbDatastore | verbHelp | verbClear | verbDemo

fun verb_name :: "verb \<Rightarrow> string" where
  "verb_name verbStatus = ''status''"
| "verb_name verbPut = ''put''"
| "verb_name verbGet = ''get''"
| "verb_name verbTransfer = ''transfer''"
| "verb_name verbKill = ''kill''"
| "verb_name verbRevive = ''revive''"
| "verb_name verbPartition = ''partition''"
| "verb_name verbHeal = ''heal''"
| "verb_name verbDatastore = ''datastore''"
| "verb_name verbHelp = ''help''"
| "verb_name verbClear = ''clear''"
| "verb_name verbDemo = ''demo''"

definition verbs :: "verb list" where
  "verbs = [verbStatus, verbPut, verbGet, verbTransfer, verbKill, verbRevive, verbPartition, verbHeal,
     verbDatastore, verbHelp, verbClear, verbDemo]"

definition verb_of :: "string \<Rightarrow> verb option" where
  "verb_of name = find (\<lambda>v. verb_name v = name) verbs"

record command =
  Verb :: verb
  CKey :: string
  CFrom :: string
  CTo :: string
  CValue :: i64
  CNode :: string
  CGroups :: "string list list"

definition new_command :: "verb \<Rightarrow> command" where
  "new_command v = \<lparr>Verb = v, CKey = [], CFrom = [], CTo = [], CValue = 0, CNode = [], CGroups = []\<rparr>"

section \<open>Keys\<close>

definition maxKeyLen :: nat where
  "maxKeyLen = 32"

definition key_char :: "char \<Rightarrow> bool" where
  "key_char r \<longleftrightarrow> r = CHR ''-'' \<or> r = CHR ''_'' \<or> CHR ''a'' \<le> r \<and> r \<le> CHR ''z''
     \<or> CHR ''A'' \<le> r \<and> r \<le> CHR ''Z'' \<or> CHR ''0'' \<le> r \<and> r \<le> CHR ''9''"

definition parseKey :: "string \<Rightarrow> goerror + string" where
  "parseKey s =
     (if s = [] then Inl (errors_New ''key must not be empty'')
      else if length s > maxKeyLen
      then Inl (errors_New (''key must be at most '' @ itoa maxKeyLen @ '' characters''))
      else if \<not> list_all key_char s
      then Inl (errors_New (''key '' @ quote s @ '' may only contain letters, digits, - and _''))
      else Inr s)"

section \<open>Groups\<close>

text \<open>The inner loop: the ids of one chunk, after the ids seen before.\<close>

fun scan_ids :: "string list \<Rightarrow> string list \<Rightarrow> string list \<Rightarrow> goerror + string list \<times> string list" where
  "scan_ids [] seen grp = Inr (seen, grp)"
| "scan_ids (i # is) seen grp =
     (let i' = ToLower i
      in if i' \<in> set seen then Inl (errors_New (''node '' @ i' @ '' appears in more than one group''))
         else scan_ids is (i' # seen) (grp @ [i']))"

fun scan_chunks :: "string list \<Rightarrow> string list \<Rightarrow> string list list \<Rightarrow> goerror + string list list" where
  "scan_chunks [] seen gs = Inr gs"
| "scan_chunks (c # cs) seen gs =
     (case scan_ids (Fields c) seen [] of
        Inl err \<Rightarrow> Inl err
      | Inr (seen', grp) \<Rightarrow>
          if grp = [] then Inl (errors_New ''every partition group must name at least one node'')
          else scan_chunks cs seen' (gs @ [grp]))"

definition parseGroups :: "string list \<Rightarrow> goerror + string list list" where
  "parseGroups args =
     (let joined = Join '' '' args
      in if TrimSpace joined = [] then Inl (errors_New ''usage: partition <ids...> | <ids...>'')
         else case scan_chunks (Split CHR ''|'' joined) [] [] of
                Inl err \<Rightarrow> Inl err
              | Inr gs \<Rightarrow>
                  if length gs < 2 then Inl (errors_New ''partition needs at least two groups separated by |'')
                  else Inr gs)"

section \<open>Parsing\<close>

definition parse_put :: "string list \<Rightarrow> goerror + command" where
  "parse_put args =
     (if length args \<noteq> 2 then Inl (errors_New ''usage: put <key> <val>'')
      else case parseKey (args ! 0) of
             Inl err \<Rightarrow> Inl err
           | Inr key \<Rightarrow>
               (case ParseInt64 (args ! 1) of
                  None \<Rightarrow> Inl (errors_New (quote (args ! 1) @ '' is not an integer''))
                | Some v \<Rightarrow> Inr ((new_command verbPut)\<lparr>CKey := key, CValue := v\<rparr>)))"

definition parse_get :: "string list \<Rightarrow> goerror + command" where
  "parse_get args =
     (if length args \<noteq> 1 then Inl (errors_New ''usage: get <key>'')
      else case parseKey (args ! 0) of
             Inl err \<Rightarrow> Inl err
           | Inr key \<Rightarrow> Inr ((new_command verbGet)\<lparr>CKey := key\<rparr>))"

definition parse_transfer :: "string list \<Rightarrow> goerror + command" where
  "parse_transfer args =
     (if length args \<noteq> 3 then Inl (errors_New ''usage: transfer <from> <to> <amt>'')
      else case parseKey (args ! 0) of
             Inl err \<Rightarrow> Inl err
           | Inr src \<Rightarrow>
               (case parseKey (args ! 1) of
                  Inl err \<Rightarrow> Inl err
                | Inr dst \<Rightarrow>
                    if src = dst then Inl (errors_New ''cannot transfer to the same account'')
                    else case ParseInt64 (args ! 2) of
                           None \<Rightarrow> Inl (errors_New (quote (args ! 2) @ '' is not an integer''))
                         | Some amount \<Rightarrow>
                             if sint amount \<le> 0 then Inl (errors_New ''amount must be positive'')
                             else Inr ((new_command verbTransfer)\<lparr>CFrom := src, CTo := dst, CValue := amount\<rparr>)))"

definition parse_node :: "verb \<Rightarrow> string \<Rightarrow> string list \<Rightarrow> goerror + command" where
  "parse_node v name args =
     (if length args \<noteq> 1 then Inl (errors_New (''usage: '' @ name @ '' <node>''))
      else Inr ((new_command v)\<lparr>CNode := ToLower (args ! 0)\<rparr>))"

definition parse_partition :: "string list \<Rightarrow> goerror + command" where
  "parse_partition args =
     (case parseGroups args of
        Inl err \<Rightarrow> Inl err
      | Inr gs \<Rightarrow> Inr ((new_command verbPartition)\<lparr>CGroups := gs\<rparr>))"

definition parse_plain :: "verb \<Rightarrow> string \<Rightarrow> string list \<Rightarrow> goerror + command" where
  "parse_plain v name args =
     (if args \<noteq> [] then Inl (errors_New (name @ '' takes no arguments'')) else Inr (new_command v))"

text \<open>The switch of \<^verbatim>\<open>parse\<close>.\<close>

fun parse_verb :: "verb \<Rightarrow> string \<Rightarrow> string list \<Rightarrow> goerror + command" where
  "parse_verb verbPut name args = parse_put args"
| "parse_verb verbGet name args = parse_get args"
| "parse_verb verbTransfer name args = parse_transfer args"
| "parse_verb verbKill name args = parse_node verbKill name args"
| "parse_verb verbRevive name args = parse_node verbRevive name args"
| "parse_verb verbPartition name args = parse_partition args"
| "parse_verb v name args = parse_plain v name args"

definition parse :: "string \<Rightarrow> goerror + command" where
  "parse line =
     (let line' = TrimSpace line
      in if line' = [] then Inl (the_error errEmpty)
         else
           (let fields = Fields line'; name = ToLower (hd fields); args = tl fields
            in case verb_of name of
                 Some v \<Rightarrow> parse_verb v name args
               | None \<Rightarrow> Inl (errors_New (''unknown command: '' @ name))))"

section \<open>Words\<close>

definition word_ok :: "string \<Rightarrow> bool" where
  "word_ok w \<longleftrightarrow> w \<noteq> [] \<and> list_all (\<lambda>c. \<not> is_space c) w"

lemma Fields_word_ok: "w \<in> set (Fields s) \<Longrightarrow> word_ok w"
  using Fields_words [of s] by (auto simp: word_ok_def list_all_iff)

lemma fields_acc_word:
  "list_all (\<lambda>c. \<not> is_space c) w \<Longrightarrow> fields_acc u (w @ s) = fields_acc (rev w @ u) s"
  by (induction w arbitrary: u) simp_all

lemma Fields_space [simp]: "is_space c \<Longrightarrow> Fields (c # s) = Fields s"
  by (simp add: Fields_def)

lemma Fields_Nil [simp]: "Fields [] = []"
  by (simp add: Fields_def)

lemma space_is_space [simp]: "is_space CHR '' ''"
  by (simp add: is_space_def)

lemma Fields_word: "word_ok w \<Longrightarrow> Fields w = [w]"
  using fields_acc_word [of w "[]" "[]"] by (auto simp: Fields_def word_ok_def)

lemma Fields_word_space: "word_ok w \<Longrightarrow> is_space c \<Longrightarrow> Fields (w @ c # s) = w # Fields s"
  using fields_acc_word [of w "[]" "c # s"] by (auto simp: Fields_def word_ok_def)

lemma Fields_Join: "list_all word_ok ws \<Longrightarrow> Fields (Join '' '' ws) = ws"
  by (induction "'' ''" ws rule: Join.induct) (simp_all add: Fields_word Fields_word_space)

lemma Fields_Join_trail: "list_all word_ok ws \<Longrightarrow> Fields (Join '' '' ws @ '' '') = ws"
proof (induction "'' ''" ws rule: Join.induct)
  case (2 s)
  then show ?case using Fields_word_space [of s "CHR '' ''" "[]"] by simp
qed (simp_all add: Fields_word_space)

lemma fields_acc_nonempty:
  "u \<noteq> [] \<or> \<not> list_all is_space s \<Longrightarrow> fields_acc u s \<noteq> []"
  by (induction u s rule: fields_acc.induct) auto

lemma TrimSpace_hd: "TrimSpace s \<noteq> [] \<Longrightarrow> \<not> is_space (last (TrimSpace s))"
  unfolding TrimSpace_def by (metis hd_dropWhile last_rev rev_is_Nil_conv)

text \<open>\<^verbatim>\<open>fields[0]\<close> is there whenever the line is not blank.\<close>

lemma Fields_TrimSpace: "TrimSpace s \<noteq> [] \<Longrightarrow> Fields (TrimSpace s) \<noteq> []"
  unfolding Fields_def using TrimSpace_hd [of s] fields_acc_nonempty [of "[]" "TrimSpace s"]
  by (auto simp: list_all_iff dest: last_in_set)

lemma TrimSpace_word:
  assumes "s \<noteq> []" and "\<not> is_space (hd s)" and "\<not> is_space (last s)"
  shows "TrimSpace s = s"
proof -
  have "dropWhile is_space s = s" using assms(1,2) by (cases s) simp_all
  moreover have "dropWhile is_space (rev s) = rev s" using assms(1,3) by (cases "rev s") (simp_all add: last_conv_nth hd_rev flip: hd_rev)
  ultimately show ?thesis by (simp add: TrimSpace_def)
qed

lemma Join_hd: "word_ok w \<Longrightarrow> Join sep (w # ws) \<noteq> [] \<and> hd (Join sep (w # ws)) = hd w"
  by (cases ws) (simp_all add: word_ok_def)

lemma Join_last:
  "list_all word_ok ws \<Longrightarrow> ws \<noteq> [] \<Longrightarrow> Join sep ws \<noteq> [] \<and> last (Join sep ws) = last (last ws)"
  by (induction sep ws rule: Join.induct) (auto simp: word_ok_def)

lemma word_ends: "word_ok w \<Longrightarrow> \<not> is_space (hd w) \<and> \<not> is_space (last w)"
  by (auto simp: word_ok_def list_all_iff)

lemma TrimSpace_Join:
  assumes "list_all word_ok ws" and "ws \<noteq> []"
  shows "TrimSpace (Join '' '' ws) = Join '' '' ws"
proof (rule TrimSpace_word)
  obtain w vs where ws: "ws = w # vs" using assms(2) by (cases ws) auto
  then have "word_ok w" using assms(1) by simp
  then show "Join '' '' ws \<noteq> []" "\<not> is_space (hd (Join '' '' ws))"
    using Join_hd [of w "'' ''" vs] word_ends [of w] ws by simp_all
  have "word_ok (last ws)" using assms by (simp add: list_all_iff)
  then show "\<not> is_space (last (Join '' '' ws))" using Join_last [OF assms] word_ends by metis
qed

section \<open>Lower case\<close>

lemma lower_char_cases:
  obtains "lower_char c = c" "\<not> (CHR ''A'' \<le> c \<and> c \<le> CHR ''Z'')"
  | "CHR ''a'' \<le> lower_char c" "lower_char c \<le> CHR ''z''" "CHR ''A'' \<le> c" "c \<le> CHR ''Z''"
proof (cases "CHR ''A'' \<le> c \<and> c \<le> CHR ''Z''")
  case True
  then have "65 \<le> (of_char c :: nat)" "of_char c \<le> (90 :: nat)" by (simp_all add: less_eq_char_def)
  then have "CHR ''a'' \<le> lower_char c" "lower_char c \<le> CHR ''z''"
    using True by (simp_all add: lower_char_def less_eq_char_def)
  then show ?thesis using True that(2) by blast
next
  case False
  then have "lower_char c = c" unfolding lower_char_def by (rule if_not_P)
  then show ?thesis using False by (rule that(1))
qed

lemma lower_char_idem [simp]: "lower_char (lower_char c) = lower_char c"
proof (cases c rule: lower_char_cases)
  case 2
  then have "\<not> lower_char c \<le> CHR ''Z''" by (simp add: less_eq_char_def)
  then show ?thesis by (simp add: lower_char_def [of "lower_char c"])
qed simp

lemma lower_char_space [simp]: "is_space (lower_char c) = is_space c"
  by (cases c rule: lower_char_cases) (auto simp: is_space_def less_eq_char_def)

lemma lower_char_bar [simp]: "lower_char c = CHR ''|'' \<longleftrightarrow> c = CHR ''|''"
  by (cases c rule: lower_char_cases) (auto simp: less_eq_char_def)

lemma ToLower_idem [simp]: "ToLower (ToLower s) = ToLower s"
  by (simp add: ToLower_def)

lemma ToLower_word [simp]: "word_ok (ToLower w) = word_ok w"
  by (simp add: word_ok_def ToLower_def list.pred_map comp_def)

lemma ToLower_bar [simp]: "CHR ''|'' \<in> set (ToLower w) \<longleftrightarrow> CHR ''|'' \<in> set w"
proof -
  have "CHR ''|'' = lower_char x \<longleftrightarrow> x = CHR ''|''" for x using lower_char_bar [of x] by metis
  then show ?thesis by (auto simp: ToLower_def image_iff)
qed

section \<open>Well-formed commands\<close>

definition key_ok :: "string \<Rightarrow> bool" where
  "key_ok k \<longleftrightarrow> k \<noteq> [] \<and> length k \<le> maxKeyLen \<and> list_all key_char k"

definition id_ok :: "string \<Rightarrow> bool" where
  "id_ok n \<longleftrightarrow> word_ok n \<and> ToLower n = n"

definition groups_ok :: "string list list \<Rightarrow> bool" where
  "groups_ok gs \<longleftrightarrow> 2 \<le> length gs \<and> list_all (\<lambda>g. g \<noteq> []) gs \<and> distinct (concat gs)
     \<and> list_all (\<lambda>i. id_ok i \<and> CHR ''|'' \<notin> set i) (concat gs)"

fun args_ok :: "verb \<Rightarrow> command \<Rightarrow> bool" where
  "args_ok verbPut c \<longleftrightarrow> key_ok (CKey c)"
| "args_ok verbGet c \<longleftrightarrow> key_ok (CKey c)"
| "args_ok verbTransfer c \<longleftrightarrow> key_ok (CFrom c) \<and> key_ok (CTo c) \<and> CFrom c \<noteq> CTo c \<and> 0 < sint (CValue c)"
| "args_ok verbKill c \<longleftrightarrow> id_ok (CNode c)"
| "args_ok verbRevive c \<longleftrightarrow> id_ok (CNode c)"
| "args_ok verbPartition c \<longleftrightarrow> groups_ok (CGroups c)"
| "args_ok v c \<longleftrightarrow> True"

text \<open>The command with the fields its verb uses, and no others.\<close>

fun relevant :: "verb \<Rightarrow> command \<Rightarrow> command" where
  "relevant verbPut c = (new_command verbPut)\<lparr>CKey := CKey c, CValue := CValue c\<rparr>"
| "relevant verbGet c = (new_command verbGet)\<lparr>CKey := CKey c\<rparr>"
| "relevant verbTransfer c = (new_command verbTransfer)\<lparr>CFrom := CFrom c, CTo := CTo c, CValue := CValue c\<rparr>"
| "relevant verbKill c = (new_command verbKill)\<lparr>CNode := CNode c\<rparr>"
| "relevant verbRevive c = (new_command verbRevive)\<lparr>CNode := CNode c\<rparr>"
| "relevant verbPartition c = (new_command verbPartition)\<lparr>CGroups := CGroups c\<rparr>"
| "relevant v c = new_command v"

definition command_ok :: "command \<Rightarrow> bool" where
  "command_ok c \<longleftrightarrow> args_ok (Verb c) c \<and> relevant (Verb c) c = c"

lemma verb_of_name [simp]: "verb_of (verb_name v) = Some v"
  by (cases v) (simp_all add: verb_of_def verbs_def)

lemma parseKey_iff: "parseKey s = Inr k \<longleftrightarrow> s = k \<and> key_ok k"
  by (auto simp: parseKey_def key_ok_def)

lemma scan_ids_Inr:
  "scan_ids is seen grp = Inr (seen', grp') \<Longrightarrow>
     grp' = grp @ map ToLower is \<and> set seen' = set seen \<union> set (map ToLower is)
     \<and> distinct (map ToLower is) \<and> set (map ToLower is) \<inter> set seen = {}"
  by (induction "is" seen grp rule: scan_ids.induct) (auto simp: Let_def split: if_splits)

lemma scan_chunks_Inr:
  "scan_chunks cs seen gs = Inr out \<Longrightarrow>
     \<exists>new. out = gs @ new \<and> new = map (\<lambda>c. map ToLower (Fields c)) cs \<and> list_all (\<lambda>g. g \<noteq> []) new
       \<and> distinct (concat new) \<and> set (concat new) \<inter> set seen = {}"
proof (induction cs seen gs rule: scan_chunks.induct)
  case (2 c cs seen gs)
  then obtain seen' grp where s: "scan_ids (Fields c) seen [] = Inr (seen', grp)" "grp \<noteq> []"
      and r: "scan_chunks cs seen' (gs @ [grp]) = Inr out"
    by (auto split: sum.splits if_splits)
  note ids = scan_ids_Inr [OF s(1)]
  from 2(1) [OF s(1) refl s(2) r] ids s(2) show ?case by auto
qed simp

lemma Split_no_sep: "w \<in> set (Split sep s) \<Longrightarrow> sep \<notin> set w"
  by (induction sep s arbitrary: w rule: Split.induct) (auto split: if_splits list.splits)

lemma fields_acc_chars: "w \<in> set (fields_acc u s) \<Longrightarrow> set w \<subseteq> set u \<union> set s"
  by (induction u s rule: fields_acc.induct) (auto split: if_splits)

lemma Fields_chars: "w \<in> set (Fields s) \<Longrightarrow> set w \<subseteq> set s"
  using fields_acc_chars [of w "[]" s] by (simp add: Fields_def)

lemma chunk_ids_ok:
  "c \<in> set (Split CHR ''|'' s) \<Longrightarrow> w \<in> set (Fields c) \<Longrightarrow> id_ok (ToLower w) \<and> CHR ''|'' \<notin> set (ToLower w)"
  using Fields_word_ok [of w c] Split_no_sep [of c "CHR ''|''" s] Fields_chars [of w c]
  by (auto simp: id_ok_def)

lemma parseGroups_ok: "parseGroups args = Inr gs \<Longrightarrow> groups_ok gs"
  using scan_chunks_Inr [of "Split CHR ''|'' (Join '' '' args)" "[]" "[]" gs] chunk_ids_ok
  by (fastforce simp: parseGroups_def groups_ok_def Let_def list_all_iff split: if_splits sum.splits)

lemma parse_verb_ok:
  assumes "parse_verb v name args = Inr c" and "list_all word_ok args"
  shows "Verb c = v \<and> args_ok v c \<and> relevant v c = c"
proof (cases v)
  case verbPartition
  then show ?thesis using assms parseGroups_ok
    by (auto simp: parse_partition_def new_command_def split: sum.splits)
next
  case verbKill
  then show ?thesis using assms
    by (cases args) (auto simp: parse_node_def new_command_def id_ok_def split: if_splits)
next
  case verbRevive
  then show ?thesis using assms
    by (cases args) (auto simp: parse_node_def new_command_def id_ok_def split: if_splits)
next
  case verbTransfer
  then show ?thesis using assms
    by (auto simp: parse_transfer_def new_command_def parseKey_iff not_le split: sum.splits option.splits if_splits)
qed (use assms in \<open>auto simp: parse_put_def parse_get_def parse_plain_def new_command_def parseKey_iff
      split: sum.splits option.splits if_splits\<close>)

lemma parse_ok: "parse line = Inr c \<Longrightarrow> command_ok c"
proof -
  assume "parse line = Inr c"
  then obtain v where v: "parse_verb v (ToLower (hd (Fields (TrimSpace line)))) (tl (Fields (TrimSpace line))) = Inr c"
    by (auto simp: parse_def Let_def split: if_splits option.splits)
  have "list_all word_ok (tl (Fields (TrimSpace line)))"
    unfolding list_all_iff by (metis Fields_word_ok Fields_TrimSpace list.sel(2) list.set_sel(2))
  from parse_verb_ok [OF v this] show ?thesis by (simp add: command_ok_def)
qed

section \<open>Writing a command as a line\<close>

fun bars :: "string list list \<Rightarrow> string list" where
  "bars [] = []"
| "bars [g] = g"
| "bars (g # h # gs) = g @ ''|'' # bars (h # gs)"

fun render_args :: "verb \<Rightarrow> command \<Rightarrow> string list" where
  "render_args verbPut c = [CKey c, show_i64 (CValue c)]"
| "render_args verbGet c = [CKey c]"
| "render_args verbTransfer c = [CFrom c, CTo c, show_i64 (CValue c)]"
| "render_args verbKill c = [CNode c]"
| "render_args verbRevive c = [CNode c]"
| "render_args verbPartition c = bars (CGroups c)"
| "render_args v c = []"

definition render :: "command \<Rightarrow> string" where
  "render c = Join '' '' (verb_name (Verb c) # render_args (Verb c) c)"

lemma itoa_word [simp]: "word_ok (itoa n)"
proof (induction n rule: itoa.induct)
  case (1 n)
  then show ?case by (subst itoa.simps) (simp add: word_ok_def digit_not_space)
qed

lemma show_i64_word [simp]: "word_ok (show_i64 v)"
  using itoa_word by (auto simp: show_i64_def show_int_def word_ok_def is_space_def)

lemma key_char_not_space: "key_char c \<Longrightarrow> \<not> is_space c"
  by (auto simp: key_char_def is_space_def less_eq_char_def)

lemma key_ok_word: "key_ok k \<Longrightarrow> word_ok k"
  using key_char_not_space by (auto simp: key_ok_def word_ok_def list_all_iff)

lemma verb_name_word [simp]: "word_ok (verb_name v)" "ToLower (verb_name v) = verb_name v"
  by (cases v; simp add: word_ok_def is_space_def ToLower_def lower_char_def less_eq_char_def)+

lemma bars_words:
  "list_all (list_all word_ok) gs \<Longrightarrow> list_all word_ok (bars gs)"
  by (induction gs rule: bars.induct) (simp_all add: word_ok_def is_space_def)

lemma bars_not_Nil: "g \<noteq> [] \<Longrightarrow> bars (g # gs) \<noteq> []"
  by (cases gs) simp_all

lemma render_words:
  assumes "command_ok c"
  shows "list_all word_ok (verb_name (Verb c) # render_args (Verb c) c)"
proof -
  have a: "args_ok (Verb c) c" using assms by (simp add: command_ok_def)
  have "list_all word_ok (render_args (Verb c) c)"
  proof (cases "Verb c")
    case verbPartition
    then have "list_all (list_all word_ok) (CGroups c)" using a by (auto simp: groups_ok_def id_ok_def list_all_iff)
    then show ?thesis using verbPartition bars_words by simp
  qed (use a in \<open>auto simp: key_ok_word id_ok_def\<close>)
  then show ?thesis by simp
qed

lemma scan_ids_lower:
  "map ToLower is = is \<Longrightarrow> distinct is \<Longrightarrow> set is \<inter> set seen = {} \<Longrightarrow>
   scan_ids is seen grp = Inr (rev is @ seen, grp @ is)"
  by (induction "is" seen grp rule: scan_ids.induct) (auto simp: Let_def)

lemma scan_chunks_lower:
  "map Fields cs = gs \<Longrightarrow> list_all (\<lambda>g. g \<noteq> [] \<and> map ToLower g = g) gs \<Longrightarrow> distinct (concat gs) \<Longrightarrow>
   set (concat gs) \<inter> set seen = {} \<Longrightarrow> scan_chunks cs seen acc = Inr (acc @ gs)"
proof (induction cs arbitrary: gs seen acc)
  case (Cons c cs)
  then obtain rest where gs: "gs = Fields c # rest" "map Fields cs = rest" by auto
  have "scan_ids (Fields c) seen [] = Inr (rev (Fields c) @ seen, Fields c)"
    using Cons.prems gs scan_ids_lower [of "Fields c" seen "[]"] by auto
  moreover have "scan_chunks cs (rev (Fields c) @ seen) (acc @ [Fields c]) = Inr ((acc @ [Fields c]) @ rest)"
    using Cons.prems gs by (intro Cons.IH) auto
  ultimately show ?case using Cons.prems gs by simp
qed simp

lemma Split_append:
  "sep \<notin> set a \<Longrightarrow> Split sep (a @ sep # b) = a # Split sep b"
  by (induction a) auto

lemma Split_none: "sep \<notin> set a \<Longrightarrow> Split sep a = [a]"
  by (induction a) auto

lemma Join_append: "xs \<noteq> [] \<Longrightarrow> ys \<noteq> [] \<Longrightarrow> Join sep (xs @ ys) = Join sep xs @ sep @ Join sep ys"
proof (induction sep xs rule: Join.induct)
  case (2 sep s)
  then show ?case by (cases ys) simp_all
qed simp_all

lemma Join_chars: "set (Join sep ws) \<subseteq> set sep \<union> \<Union> (set ` set ws)"
  by (induction sep ws rule: Join.induct) auto

lemma Fields_blank: "pre \<in> {[], '' ''} \<Longrightarrow> Fields (pre @ s) = Fields s"
  by auto

lemma Split_bars:
  "list_all (\<lambda>g. g \<noteq> [] \<and> list_all word_ok g \<and> list_all (\<lambda>w. CHR ''|'' \<notin> set w) g) gs \<Longrightarrow> gs \<noteq> [] \<Longrightarrow>
   pre \<in> {[], '' ''} \<Longrightarrow> map Fields (Split CHR ''|'' (pre @ Join '' '' (bars gs))) = gs"
proof (induction gs arbitrary: pre rule: bars.induct)
  case (2 g)
  have "CHR ''|'' \<notin> set (pre @ Join '' '' g)" using 2 Join_chars [of "'' ''" g] by (auto simp: list_all_iff)
  then show ?case using 2 Fields_blank [of pre] by (simp add: Split_none Fields_Join)
next
  case (3 g h gs)
  let ?b = "bars (h # gs)"
  have b: "?b \<noteq> []" using 3 by (simp add: bars_not_Nil)
  have "Join '' '' (g @ [''|''] @ ?b) = Join '' '' g @ '' '' @ ''|'' @ '' '' @ Join '' '' ?b"
    using 3 b Join_append [of g "''|'' # ?b" "'' ''"] Join_append [of "[''|'']" ?b "'' ''"] by simp
  then have j: "pre @ Join '' '' (bars (g # h # gs)) = (pre @ Join '' '' g @ '' '') @ CHR ''|'' # ('' '' @ Join '' '' ?b)"
    by simp
  have "CHR ''|'' \<notin> set (pre @ Join '' '' g @ '' '')" using 3 Join_chars [of "'' ''" g] by (auto simp: list_all_iff)
  then have "Split CHR ''|'' (pre @ Join '' '' (bars (g # h # gs)))
      = (pre @ Join '' '' g @ '' '') # Split CHR ''|'' ('' '' @ Join '' '' ?b)"
    unfolding j by (rule Split_append)
  moreover have "Fields (pre @ Join '' '' g @ '' '') = g"
    using 3 Fields_blank [of pre "Join '' '' g @ '' ''"] by (simp add: Fields_Join_trail)
  moreover have "map Fields (Split CHR ''|'' ('' '' @ Join '' '' ?b)) = h # gs" using 3 by (intro 3) simp_all
  ultimately show ?case by simp
qed simp

lemma parseGroups_bars:
  assumes "groups_ok gs"
  shows "parseGroups (bars gs) = Inr gs"
proof -
  have g: "list_all (\<lambda>g. g \<noteq> [] \<and> list_all word_ok g \<and> list_all (\<lambda>w. CHR ''|'' \<notin> set w) g) gs"
    "list_all (\<lambda>g. g \<noteq> [] \<and> map ToLower g = g) gs" "gs \<noteq> []"
    using assms by (auto simp: groups_ok_def list_all_iff id_ok_def intro: map_idI)
  have w: "list_all word_ok (bars gs)" using g(1) by (intro bars_words) (simp add: list_all_iff)
  have n: "bars gs \<noteq> []" using g by (cases gs) (auto dest: bars_not_Nil)
  have "TrimSpace (Join '' '' (bars gs)) \<noteq> []" using TrimSpace_Join [OF w n] Join_last [OF w n] by simp
  moreover have "scan_chunks (Split CHR ''|'' (Join '' '' (bars gs))) [] [] = Inr ([] @ gs)"
    using Split_bars [OF g(1,3), of "[]"] assms g(2) by (intro scan_chunks_lower) (simp_all add: groups_ok_def)
  ultimately show ?thesis using assms by (simp add: parseGroups_def Let_def groups_ok_def)
qed

lemma parse_words:
  assumes "list_all word_ok (verb_name v # args)"
  shows "parse (Join '' '' (verb_name v # args)) = parse_verb v (verb_name v) args"
  using TrimSpace_Join [OF assms] Fields_Join [OF assms] Join_last [OF assms, of "'' ''"]
  by (simp add: parse_def Let_def del: Join.simps)

lemma parse_verb_render:
  "args_ok v c \<Longrightarrow> parse_verb v (verb_name v) (render_args v c) = Inr (relevant v c)"
  using parseKey_iff [THEN iffD2, OF conjI [OF refl]]
  by (cases v) (auto simp: parse_put_def parse_get_def parse_transfer_def parse_node_def parse_partition_def
      parse_plain_def parseGroups_bars ParseInt64_show id_ok_def)

lemma parse_render_ok: "command_ok c \<Longrightarrow> parse (render c) = Inr c"
  using parse_words [OF render_words] parse_verb_render [of "Verb c" c] by (simp add: render_def command_ok_def)

text \<open>
  C31: the parser accepts exactly the well-formed commands: keys of one to 32 letters, digits, dashes
  and underscores, transfers of a positive amount between different accounts, a node in lower case,
  at least two non-empty groups that share no node, and no field that the verb does not use.
\<close>

theorem parse_image: "(\<exists>line. parse line = Inr c) \<longleftrightarrow> command_ok c"
  using parse_ok parse_render_ok by blast

text \<open>
  C32: an accepted command can be written down and read again: the line made of the verb and the
  arguments, separated by single blanks and bars, parses to the same command.  The amounts are read
  back at all 64 bits.
\<close>

theorem parse_render:
  assumes "parse line = Inr c"
  shows "parse (render c) = Inr c"
  by (rule parse_render_ok [OF parse_ok [OF assms]])

theorem parse_render_witness:
  "let c = (new_command verbPartition)\<lparr>CGroups := [[''s0n0''], [''s0n1'', ''s0n2'']]\<rparr>
   in parse ''  Partition s0N0|s0n1   s0n2 '' = Inr c \<and> render c = ''partition s0n0 | s0n1 s0n2'' \<and> parse (render c) = Inr c"
proof -
  let ?c = "(new_command verbPartition)\<lparr>CGroups := [[''s0n0''], [''s0n1'', ''s0n2'']]\<rparr>"
  have "parse ''  Partition s0N0|s0n1   s0n2 '' = Inr ?c" "render ?c = ''partition s0n0 | s0n1 s0n2''" by code_simp+
  then show ?thesis using parse_render [of "''  Partition s0N0|s0n1   s0n2 ''" ?c] by simp
qed

end
