(* ===== verification/ClusterTopology.thy ===== *)
theory ClusterTopology
  imports PaxosNode LedgerMachine
begin

text \<open>
  The shape of a cluster, from \<^verbatim>\<open>src/internal/cluster/replica.go\<close>: its configuration, the names of
  replicas and how a name is read, the hash that places an account on a shard, and a replica's
  view of itself.
\<close>

record cluster_config =
  Shards :: int
  NodesPerShard :: int
  MaxKeysPerShard :: int
  Timing :: config

definition DefaultTiming :: config where
  "DefaultTiming =
     \<lparr>HeartbeatInterval = 100000000, ElectionTimeout = 700000000, RoundTimeout = 350000000\<rparr>"

definition Validate :: "cluster_config \<Rightarrow> goerror option" where
  "Validate c =
     (if Shards c < 1 \<or> Shards c > 16 then Some (errors_New ''shards must be between 1 and 16'')
      else if NodesPerShard c < 1 \<or> NodesPerShard c > 9
      then Some (errors_New ''nodes per shard must be between 1 and 9'')
      else None)"

definition cluster_withDefaults :: "cluster_config \<Rightarrow> cluster_config" where
  "cluster_withDefaults c =
     (let d = DefaultTiming; t = Timing c
      in c\<lparr>Timing :=
           \<lparr>HeartbeatInterval = (if HeartbeatInterval t \<le> 0 then HeartbeatInterval d else HeartbeatInterval t),
            ElectionTimeout = (if ElectionTimeout t \<le> 0 then ElectionTimeout d else ElectionTimeout t),
            RoundTimeout = (if RoundTimeout t \<le> 0 then RoundTimeout d else RoundTimeout t)\<rparr>\<rparr>)"

definition Quorum :: "cluster_config \<Rightarrow> int" where
  "Quorum c = NodesPerShard c div 2 + 1"

definition NodeName :: "nat \<Rightarrow> nat \<Rightarrow> NodeID" where
  "NodeName shard index = ''s'' @ itoa shard @ ''n'' @ itoa index"

definition ShardTag :: "int \<Rightarrow> string" where
  "ShardTag shard = ''[s'' @ show_int shard @ '']''"

section \<open>Reading a replica name\<close>

text \<open>
  \<^verbatim>\<open>fmt.Sscanf(name, "s%dn%d%s", ...)\<close>.  A \<^verbatim>\<open>%d\<close> skips blanks, but fails at a newline, takes an
  optional sign and the digits that follow, and fails without a digit or outside the range of
  \<^verbatim>\<open>int\<close>; a \<^verbatim>\<open>%s\<close> skips blanks and fails at the end of the input.
\<close>

fun scan_blanks :: "string \<Rightarrow> string option" where
  "scan_blanks [] = Some []"
| "scan_blanks (c # cs) =
     (if c = CHR 0x0A then None else if is_space c then scan_blanks cs else Some (c # cs))"

definition is_digit :: "char \<Rightarrow> bool" where
  "is_digit c \<longleftrightarrow> digit_val c \<noteq> None"

definition scan_sign :: "string \<Rightarrow> bool \<times> string" where
  "scan_sign s =
     (case s of
        c # cs \<Rightarrow> if c = CHR ''-'' then (True, cs) else if c = CHR ''+'' then (False, cs) else (False, s)
      | [] \<Rightarrow> (False, s))"

definition scan_int :: "string \<Rightarrow> (int \<times> string) option" where
  "scan_int s =
     (case scan_blanks s of
        None \<Rightarrow> None
      | Some s1 \<Rightarrow>
          (let (neg, s2) = scan_sign s1; ds = takeWhile is_digit s2; rest = dropWhile is_digit s2
           in if ds = [] then None
              else case digits_val 0 ds of
                     None \<Rightarrow> None
                   | Some n \<Rightarrow>
                       (let v = (if neg then - int n else int n)
                        in if - (2 ^ 63) \<le> v \<and> v < 2 ^ 63 then Some (v, rest) else None)))"

definition scan_tail :: "string \<Rightarrow> bool" where
  "scan_tail s = (case scan_blanks s of None \<Rightarrow> False | Some r \<Rightarrow> r \<noteq> [])"

text \<open>Both numbers scanned, and nothing after them.\<close>

definition Sscanf_node :: "string \<Rightarrow> (int \<times> int) option" where
  "Sscanf_node name =
     (case name of
        c # r0 \<Rightarrow>
          if c \<noteq> CHR ''s'' then None
          else (case scan_int r0 of
                  Some (shard, d # r1) \<Rightarrow>
                    if d \<noteq> CHR ''n'' then None
                    else (case scan_int r1 of
                            Some (index, r2) \<Rightarrow> if scan_tail r2 then None else Some (shard, index)
                          | None \<Rightarrow> None)
                | _ \<Rightarrow> None)
      | [] \<Rightarrow> None)"

definition ParseNode :: "string \<Rightarrow> goerror + (int \<times> int)" where
  "ParseNode name =
     (case Sscanf_node name of
        Some (shard, index) \<Rightarrow>
          if shard < 0 \<or> index < 0
          then Inl (Errorf [] (the_error ErrUnknownNode) ('': '' @ quote name @ '' (node ids look like s0n1)''))
          else Inr (shard, index)
      | None \<Rightarrow>
          Inl (Errorf [] (the_error ErrUnknownNode) ('': '' @ quote name @ '' (node ids look like s0n1)'')))"

unbundle bit_operations_syntax

section \<open>Placing an account\<close>

text \<open>FNV-1a at 32 bits, as \<^verbatim>\<open>hash/fnv\<close> defines it.\<close>

definition fnv1a :: "string \<Rightarrow> 32 word" where
  "fnv1a s = fold (\<lambda>c h. (h XOR of_nat (of_char c)) * 16777619) s 2166136261"

definition ShardFor :: "string \<Rightarrow> int \<Rightarrow> int" where
  "ShardFor key shards = (if shards \<le> 1 then 0 else uint (fnv1a key mod word_of_int shards))"

text \<open>
  Every account lives on exactly one of the shards the cluster has: for a topology that
  validates, \<^verbatim>\<open>ShardFor\<close> is an index into the list of shards.
\<close>

theorem ShardFor_bounds:
  assumes "Validate c = None"
  shows "0 \<le> ShardFor key (Shards c) \<and> ShardFor key (Shards c) < Shards c"
proof -
  have s: "1 \<le> Shards c" "Shards c \<le> 16" using assms by (auto simp: Validate_def split: if_splits)
  have "uint (word_of_int (Shards c) :: 32 word) = Shards c"
    using s by (simp add: uint_word_of_int)
  moreover have "uint (fnv1a key mod (word_of_int (Shards c) :: 32 word))
      = uint (fnv1a key) mod uint (word_of_int (Shards c) :: 32 word)" by (simp add: uint_mod)
  ultimately show ?thesis using s by (auto simp: ShardFor_def)
qed

theorem ShardFor_bounds_witness:
  "let c = \<lparr>Shards = 3, NodesPerShard = 3, MaxKeysPerShard = 0, Timing = DefaultTiming\<rparr>
   in Validate c = None \<and> ShardFor ''tushar'' 3 < 3"
  using ShardFor_bounds [of "\<lparr>Shards = 3, NodesPerShard = 3, MaxKeysPerShard = 0, Timing = DefaultTiming\<rparr>" "''tushar''"]
  by (simp add: Let_def Validate_def)

section \<open>Names and their reading\<close>

lemma is_digit_digit [simp]: "d < 10 \<Longrightarrow> is_digit (digit d)"
  by (simp add: is_digit_def)

lemma itoa_digits: "list_all is_digit (itoa n)"
proof (induction n rule: itoa.induct)
  case (1 n)
  then show ?case by (cases "n < 10") (simp_all add: itoa.simps [of n])
qed

lemma takeWhile_itoa:
  "rest = [] \<or> \<not> is_digit (hd rest) \<Longrightarrow> takeWhile is_digit (itoa n @ rest) = itoa n"
  "rest = [] \<or> \<not> is_digit (hd rest) \<Longrightarrow> dropWhile is_digit (itoa n @ rest) = rest"
  using itoa_digits [of n] by (cases rest; auto simp: list_all_iff takeWhile_append dropWhile_append)+

lemma scan_int_itoa:
  assumes "rest = [] \<or> \<not> is_digit (hd rest)" and "n < 2 ^ 63"
  shows "scan_int (itoa n @ rest) = Some (int n, rest)"
proof -
  obtain d cs where d: "d < 10" "itoa n = digit d # cs" using itoa_hd by blast
  then have "scan_blanks (itoa n @ rest) = Some (itoa n @ rest)" using digit_not_space [of d] by simp
  moreover have "scan_sign (itoa n @ rest) = (False, itoa n @ rest)"
    using d digit_not_sign [of d] by (simp add: scan_sign_def)
  moreover have "int n < 2 ^ 63" using assms(2) by (metis of_nat_less_iff of_nat_numeral of_nat_power)
  ultimately show ?thesis using takeWhile_itoa [OF assms(1)] by (simp add: scan_int_def Let_def)
qed

text \<open>
  The name of a replica is read back as its shard and its index, so the name tells the
  replicas of a cluster apart.
\<close>

theorem ParseNode_NodeName:
  assumes "s < 2 ^ 63" and "i < 2 ^ 63"
  shows "ParseNode (NodeName s i) = Inr (int s, int i)"
proof -
  have "\<not> is_digit CHR ''n''" by (simp add: is_digit_def digit_val_def less_eq_char_def)
  then have "scan_int (itoa s @ ''n'' @ itoa i) = Some (int s, ''n'' @ itoa i)"
    using assms(1) by (intro scan_int_itoa) simp_all
  moreover have "scan_int (itoa i) = Some (int i, [])" using scan_int_itoa [of "[]" i] assms(2) by simp
  ultimately show ?thesis
    by (simp add: ParseNode_def Sscanf_node_def NodeName_def scan_tail_def)
qed

theorem ParseNode_NodeName_witness: "ParseNode (NodeName 2 1) = Inr (2, 1)"
  using ParseNode_NodeName [of 2 1] by simp

section \<open>A replica's view of itself\<close>

record LogLine =
  LLSlot :: slot
  LLBallot :: string
  LLCommand :: string

record NodeInfo =
  NIID :: string
  NIRole :: string
  NIBallot :: ballot
  NIApplied :: slot
  NIAccounts :: "account list"
  NITail :: "LogLine list"

definition ballot_String :: "ballot \<Rightarrow> string" where
  "ballot_String b = itoa (Num b) @ ''.'' @ Node b"

fun Role_String :: "Role \<Rightarrow> string" where
  "Role_String Leader = ''leader''"
| "Role_String Candidate = ''candidate''"
| "Role_String Follower = ''follower''"

definition tailLen :: nat where
  "tailLen = 5"

definition log_line :: "(bytes \<Rightarrow> string + lcommand) \<Rightarrow> entry \<Rightarrow> LogLine" where
  "log_line dec e =
     \<lparr>LLSlot = Slot e, LLBallot = ballot_String (EBallot e),
      LLCommand = (if IsNoop e then ''no-op''
                   else case dec (Command e) of Inl err \<Rightarrow> ''no-op'' | Inr c \<Rightarrow> command_String c)\<rparr>"

definition describe :: "(bytes \<Rightarrow> string + lcommand) \<Rightarrow> machine node \<Rightarrow> NodeInfo" where
  "describe dec n =
     (let entries = EntriesFrom (nlog n) 1
      in \<lparr>NIID = nid n, NIRole = Role_String (role n), NIBallot = Promised (nlog n),
          NIApplied = appliedIndex n, NIAccounts = Snapshot (sm n),
          NITail = map (log_line dec)
                     (if length entries > tailLen then drop (length entries - tailLen) entries else entries)\<rparr>)"

end
