(* ===== verification/Transport.thy ===== *)
theory Transport
  imports Faults
begin

text \<open>
  How a protocol message reaches a replica and its reply the sender: the in-process network
  (\<^verbatim>\<open>transport/inproc.go\<close>), gRPC between processes (\<^verbatim>\<open>transport/grpc.go\<close>), HTTP between the banks'
  replicas (\<^verbatim>\<open>paxos/httptransport.go\<close>) and the in-memory network (\<^verbatim>\<open>paxos/memnet.go\<close>).  \<open>'s\<close> is the state of
  the replicas and \<open>h\<close> the handlers, \<^verbatim>\<open>Node.Handle\<close>.  What the scheduler, the clock and the wire decide
  is an explicit outcome.  A send returns the reply and the error, as in Go.
\<close>

type_synonym 's handlers = "NodeID \<Rightarrow> message \<Rightarrow> 's \<Rightarrow> 's \<times> message"

definition zero_message :: message where
  "zero_message = new_message (KindOther []) []"

record trace =
  TFrom :: NodeID
  TTo :: NodeID
  TReq :: message
  TReply :: message
  TErr :: string

definition slim :: "message \<Rightarrow> message" where
  "slim m = m\<lparr>Entries := [], MCommand := []\<rparr>"

definition newTrace :: "NodeID \<Rightarrow> NodeID \<Rightarrow> message \<Rightarrow> message \<Rightarrow> goerror option \<Rightarrow> trace" where
  "newTrace src dst req reply err =
     \<lparr>TFrom = src, TTo = dst, TReq = slim req, TReply = slim reply,
      TErr = (case err of None \<Rightarrow> [] | Some e \<Rightarrow> Error e)\<rparr>"

section \<open>In process\<close>

record inproc =
  ifaults :: faults
  inboxes :: "NodeID set"
  iclosed :: bool



definition inproc_Close :: "inproc \<Rightarrow> inproc" where
  "inproc_Close n = (if iclosed n then n else n\<lparr>iclosed := True\<rparr>)"

text \<open>
  Which case each of the two \<^verbatim>\<open>select\<close> statements takes.  A sender that stops waiting leaves its
  envelope in the inbox, which the receiver may (\<open>True\<close>) or may not get to serve.
\<close>

datatype enqueue = Enqueued | EnqueueDone goerror | EnqueueStop

datatype await = Replied | AwaitDone goerror bool | AwaitStop bool

definition closed_error :: goerror where
  "closed_error = errors_New ''transport closed''"

definition inproc_deliver :: "inproc \<Rightarrow> 's handlers \<Rightarrow> NodeID \<Rightarrow> NodeID \<Rightarrow> message \<Rightarrow>
    enqueue \<Rightarrow> await \<Rightarrow> faults \<Rightarrow> 's \<Rightarrow> 's \<times> message \<times> goerror option" where
  "inproc_deliver n h src dst msg enq wait faults' s =
     (case Check (ifaults n) src dst of
        Some e \<Rightarrow> (s, zero_message, Some e)
      | None \<Rightarrow>
          if iclosed n then (s, zero_message, Some closed_error)
          else if dst \<notin> inboxes n then (s, zero_message, Some (errors_New (''no replica '' @ dst)))
          else case enq of
            EnqueueDone e \<Rightarrow> (s, zero_message, Some e)
          | EnqueueStop \<Rightarrow> (s, zero_message, Some closed_error)
          | Enqueued \<Rightarrow>
              (case wait of
                 Replied \<Rightarrow>
                   (case h dst msg s of
                      (s1, reply) \<Rightarrow>
                        (case Check faults' dst src of
                           Some e \<Rightarrow> (s1, zero_message, Some e)
                         | None \<Rightarrow> (s1, reply, None)))
               | AwaitDone e served \<Rightarrow> (if served then fst (h dst msg s) else s, zero_message, Some e)
               | AwaitStop served \<Rightarrow> (if served then fst (h dst msg s) else s, zero_message, Some closed_error)))"

definition inproc_Send :: "inproc \<Rightarrow> 's handlers \<Rightarrow> (trace \<Rightarrow> 's \<Rightarrow> 's) option \<Rightarrow> NodeID \<Rightarrow> NodeID \<Rightarrow> message \<Rightarrow>
    enqueue \<Rightarrow> await \<Rightarrow> faults \<Rightarrow> 's \<Rightarrow> 's \<times> message \<times> goerror option" where
  "inproc_Send n h observer src dst msg enq wait faults' s =
     (case inproc_deliver n h src dst msg enq wait faults' s of
        (s1, reply, err) \<Rightarrow>
          (case observer of None \<Rightarrow> s1 | Some ob \<Rightarrow> ob (newTrace src dst msg reply err) s1, reply, err))"

section \<open>gRPC\<close>

text \<open>The receiving side checks its own copy of the table; \<open>Inl\<close> is the status it answers.\<close>

definition peer_handle :: "faults \<Rightarrow> 's handlers \<Rightarrow> NodeID \<Rightarrow> message \<Rightarrow> 's \<Rightarrow> 's \<times> (string + message)" where
  "peer_handle f h self msg s =
     (case Check f (From msg) self of
        Some e \<Rightarrow> (s, Inl (Error e))
      | None \<Rightarrow> (case h self msg s of (s1, reply) \<Rightarrow> (s1, Inr reply)))"

record grpc_transport =
  gself :: NodeID
  gpeers :: "NodeID \<Rightarrow> string option"
  gfaults :: faults
  gconns :: "NodeID set"


text \<open>\<open>dial\<close> is the outcome of \<^verbatim>\<open>grpc.NewClient\<close>.\<close>

definition grpc_conn :: "goerror option \<Rightarrow> NodeID \<Rightarrow> grpc_transport \<Rightarrow> grpc_transport \<times> goerror option" where
  "grpc_conn dial dst g =
     (if dst \<in> gconns g then (g, None)
      else case gpeers g dst of
             None \<Rightarrow> (g, Some (errors_New (''no address for replica '' @ dst)))
           | Some addr \<Rightarrow>
               (case dial of Some e \<Rightarrow> (g, Some e) | None \<Rightarrow> (g\<lparr>gconns := insert dst (gconns g)\<rparr>, None)))"

text \<open>
  The call: it reaches the peer and its answer returns, or the wire fails, with the peer having
  served it or not.
\<close>

datatype wire = Answered | WireFailed string bool

definition grpc_invoke :: "faults \<Rightarrow> 's handlers \<Rightarrow> NodeID \<Rightarrow> message \<Rightarrow> wire \<Rightarrow> 's \<Rightarrow> 's \<times> (string + message)" where
  "grpc_invoke peerFaults h dst msg w s =
     (case w of
        Answered \<Rightarrow> peer_handle peerFaults h dst msg s
      | WireFailed text served \<Rightarrow> (if served then fst (peer_handle peerFaults h dst msg s) else s, Inl text))"

definition grpc_send :: "faults \<Rightarrow> 's handlers \<Rightarrow> NodeID \<Rightarrow> message \<Rightarrow> goerror option \<Rightarrow> wire \<Rightarrow> faults \<Rightarrow>
    grpc_transport \<Rightarrow> 's \<Rightarrow> (grpc_transport \<times> 's) \<times> message \<times> goerror option" where
  "grpc_send peerFaults h dst msg dial w faults' g s =
     (case Check (gfaults g) (gself g) dst of
        Some e \<Rightarrow> ((g, s), zero_message, Some e)
      | None \<Rightarrow>
          (case grpc_conn dial dst g of
             (g1, Some e) \<Rightarrow> ((g1, s), zero_message, Some e)
           | (g1, None) \<Rightarrow>
               (case grpc_invoke peerFaults h dst msg w s of
                  (s1, Inl text) \<Rightarrow>
                    ((g1, s1), zero_message, Some (Errorf [] (the_error ErrUnreachable) ('': '' @ text)))
                | (s1, Inr reply) \<Rightarrow>
                    (case Check faults' dst (gself g) of
                       Some e \<Rightarrow> ((g1, s1), zero_message, Some e)
                     | None \<Rightarrow> ((g1, s1), reply, None)))))"

definition grpc_Send :: "(trace \<Rightarrow> 's \<Rightarrow> 's) option \<Rightarrow> faults \<Rightarrow> 's handlers \<Rightarrow> NodeID \<Rightarrow> message \<Rightarrow> goerror option \<Rightarrow>
    wire \<Rightarrow> faults \<Rightarrow> grpc_transport \<Rightarrow> 's \<Rightarrow> (grpc_transport \<times> 's) \<times> message \<times> goerror option" where
  "grpc_Send observer peerFaults h dst msg dial w faults' g s =
     (case grpc_send peerFaults h dst msg dial w faults' g s of
        ((g1, s1), reply, err) \<Rightarrow>
          ((g1, case observer of None \<Rightarrow> s1 | Some ob \<Rightarrow> ob (newTrace (gself g) dst msg reply err) s1), reply, err))"

definition grpc_Close :: "grpc_transport \<Rightarrow> grpc_transport" where
  "grpc_Close g = g\<lparr>gconns := {}\<rparr>"









section \<open>HTTP\<close>

text \<open>
  What the HTTP client reports: a transport error, a status other than 200, a body that does not
  decode, or a reply.  \<open>enc\<close> is \<^verbatim>\<open>json.Marshal\<close>, \<open>newReq\<close> the error of building the request.
\<close>

datatype http_outcome = DoFailed goerror | BadStatus string | BadBody goerror | HttpReply message

fun kind_name :: "MessageKind \<Rightarrow> string" where
  "kind_name KindPrepare = ''prepare''"
| "kind_name KindPromise = ''promise''"
| "kind_name KindAccept = ''accept''"
| "kind_name KindAccepted = ''accepted''"
| "kind_name KindCommit = ''commit''"
| "kind_name KindCatchUp = ''catchup''"
| "kind_name KindPing = ''ping''"
| "kind_name (KindOther s) = s"

definition http_Send :: "(NodeID \<Rightarrow> string option) \<Rightarrow> (message \<Rightarrow> goerror + bytes) \<Rightarrow> (string \<Rightarrow> goerror option) \<Rightarrow>
    (string \<Rightarrow> bytes \<Rightarrow> http_outcome) \<Rightarrow> NodeID \<Rightarrow> message \<Rightarrow> message \<times> goerror option" where
  "http_Send peers enc newReq client dst msg =
     (case peers dst of
        None \<Rightarrow> (zero_message, Some (errors_New (''paxos: no address known for replica '' @ dst)))
      | Some addr \<Rightarrow>
          (case enc msg of
             Inl e \<Rightarrow> (zero_message, Some (Errorf (''paxos: encode '' @ kind_name (Kind msg) @ '': '') e []))
           | Inr body \<Rightarrow>
               (let url = ''https://'' @ addr @ ''/paxos''
                in case newReq url of
                     Some e \<Rightarrow> (zero_message, Some e)
                   | None \<Rightarrow>
                       (case client url body of
                          DoFailed e \<Rightarrow>
                            (zero_message, Some (Errorf (''paxos: send '' @ kind_name (Kind msg) @ '' to '' @ dst @ '': '') e []))
                        | BadStatus st \<Rightarrow> (zero_message, Some (errors_New (''paxos: '' @ dst @ '' returned '' @ st)))
                        | BadBody e \<Rightarrow>
                            (zero_message, Some (Errorf (''paxos: decode reply from '' @ dst @ '': '') e []))
                        | HttpReply m \<Rightarrow> (m, None)))))"

text \<open>The endpoint: the status it answers and, for 200, the reply it encodes.\<close>

definition http_Handler :: "(bytes \<Rightarrow> message option) \<Rightarrow> 's handlers \<Rightarrow> NodeID \<Rightarrow> string \<Rightarrow> bytes \<Rightarrow> 's \<Rightarrow>
    's \<times> nat \<times> message option" where
  "http_Handler dec h self meth body s =
     (if meth \<noteq> ''POST'' then (s, 405, None)
      else case dec body of
             None \<Rightarrow> (s, 400, None)
           | Some msg \<Rightarrow> (case h self msg s of (s1, reply) \<Rightarrow> (s1, 200, Some reply)))"

section \<open>The in-memory network\<close>

record memnet =
  mnodes :: "NodeID set"
  down :: "NodeID set"
  blocked :: "NodeID \<Rightarrow> NodeID set"
  latency :: int

definition NewMemNetwork :: memnet where
  "NewMemNetwork = \<lparr>mnodes = {}, down = {}, blocked = (\<lambda>_. {}), latency = 0\<rparr>"

definition mem_Register :: "NodeID \<Rightarrow> memnet \<Rightarrow> memnet" where
  "mem_Register i m = m\<lparr>mnodes := insert i (mnodes m)\<rparr>"

definition SetLatency :: "int \<Rightarrow> memnet \<Rightarrow> memnet" where
  "SetLatency d m = m\<lparr>latency := d\<rparr>"

definition mem_Kill :: "NodeID \<Rightarrow> memnet \<Rightarrow> memnet" where
  "mem_Kill i m = m\<lparr>down := insert i (down m)\<rparr>"

definition mem_Revive :: "NodeID \<Rightarrow> memnet \<Rightarrow> memnet" where
  "mem_Revive i m = m\<lparr>down := down m - {i}\<rparr>"

definition Disconnect :: "NodeID \<Rightarrow> NodeID \<Rightarrow> memnet \<Rightarrow> memnet" where
  "Disconnect a b m = m\<lparr>blocked := (blocked m)(a := insert b (blocked m a))\<rparr>"

definition Connect :: "NodeID \<Rightarrow> NodeID \<Rightarrow> memnet \<Rightarrow> memnet" where
  "Connect a b m = m\<lparr>blocked := (blocked m)(a := blocked m a - {b})\<rparr>"

text \<open>The peers, in some order: the links are independent, so the order does not matter.\<close>

definition mem_peers :: "memnet \<Rightarrow> NodeID \<Rightarrow> NodeID list" where
  "mem_peers m i = sorted_list_of_set (mnodes m - {i})"

definition Isolate :: "NodeID \<Rightarrow> memnet \<Rightarrow> memnet" where
  "Isolate i m = fold (\<lambda>p m. Disconnect p i (Disconnect i p m)) (mem_peers m i) m"

definition mem_Heal :: "NodeID \<Rightarrow> memnet \<Rightarrow> memnet" where
  "mem_Heal i m = fold (\<lambda>p m. Connect p i (Connect i p m)) (mem_peers m i) m"

definition route :: "memnet \<Rightarrow> NodeID \<Rightarrow> NodeID \<Rightarrow> goerror + int" where
  "route m src dst =
     (if src \<in> down m \<or> dst \<in> down m then Inl (errors_New (''paxos/memnet: '' @ dst @ '' is down''))
      else if dst \<in> blocked m src
      then Inl (errors_New (''paxos/memnet: link '' @ src @ ''->'' @ dst @ '' is partitioned''))
      else if dst \<notin> mnodes m then Inl (errors_New (''paxos/memnet: no such node '' @ dst))
      else Inr (latency m))"

text \<open>\<open>expired\<close>: the context ends while the message is delayed.\<close>

definition mem_Send :: "memnet \<Rightarrow> 's handlers \<Rightarrow> NodeID \<Rightarrow> NodeID \<Rightarrow> message \<Rightarrow> goerror option \<Rightarrow> 's \<Rightarrow>
    's \<times> message \<times> goerror option" where
  "mem_Send m h src dst msg expired s =
     (case route m src dst of
        Inl e \<Rightarrow> (s, zero_message, Some e)
      | Inr delay \<Rightarrow>
          (if delay > 0 \<and> expired \<noteq> None then (s, zero_message, expired)
           else case h dst msg s of (s1, reply) \<Rightarrow> (s1, reply, None)))"

lemma fold_Disconnect:
  "blocked (fold (\<lambda>p m. Disconnect p i (Disconnect i p m)) ps m) a
     = blocked m a \<union> (if a = i then set ps else {}) \<union> (if a \<in> set ps then {i} else {})"
  by (induction ps arbitrary: m) (auto simp: Disconnect_def)

lemma fold_Connect:
  "blocked (fold (\<lambda>p m. Connect p i (Connect i p m)) ps m) a
     = blocked m a - (if a = i then set ps else {}) - (if a \<in> set ps then {i} else {})"
  by (induction ps arbitrary: m) (auto simp: Connect_def)

lemma fold_links_keep:
  "mnodes (fold (\<lambda>p m. Disconnect p i (Disconnect i p m)) ps m) = mnodes m"
  "down (fold (\<lambda>p m. Disconnect p i (Disconnect i p m)) ps m) = down m"
  "latency (fold (\<lambda>p m. Disconnect p i (Disconnect i p m)) ps m) = latency m"
  "mnodes (fold (\<lambda>p m. Connect p i (Connect i p m)) ps m) = mnodes m"
  "down (fold (\<lambda>p m. Connect p i (Connect i p m)) ps m) = down m"
  "latency (fold (\<lambda>p m. Connect p i (Connect i p m)) ps m) = latency m"
  by (induction ps arbitrary: m) (simp_all add: Disconnect_def Connect_def)

lemmas isolation = Isolate_def mem_Heal_def mem_peers_def fold_Disconnect fold_Connect fold_links_keep

lemma isolation_keeps:
  "mnodes (Isolate i m) = mnodes m" "down (Isolate i m) = down m" "latency (Isolate i m) = latency m"
  "mnodes (mem_Heal i m) = mnodes m" "down (mem_Heal i m) = down m" "latency (mem_Heal i m) = latency m"
  by (simp_all add: Isolate_def mem_Heal_def fold_links_keep)

lemma route_cong:
  "mnodes m' = mnodes m \<Longrightarrow> down m' = down m \<Longrightarrow> latency m' = latency m \<Longrightarrow>
   (b \<in> blocked m' a \<longleftrightarrow> b \<in> blocked m a) \<Longrightarrow> route m' a b = route m a b"
  by (simp add: route_def)

text \<open>
  Isolating a replica cuts exactly its own links.  No message travels between it and any other
  registered replica in either direction, every link between two other replicas is as before, and
  healing it afterwards leaves each link as healing it without the isolation would have.
\<close>

theorem Isolate_Heal:
  assumes "finite (mnodes m)" and "p \<in> mnodes m" and "p \<noteq> i" and "a \<noteq> i" and "b \<noteq> i"
  shows "isl (route (Isolate i m) i p) \<and> isl (route (Isolate i m) p i)
    \<and> route (Isolate i m) a b = route m a b
    \<and> route (mem_Heal i (Isolate i m)) x y = route (mem_Heal i m) x y"
proof -
  note same = isolation_keeps [of i m] isolation_keeps [of i "Isolate i m"]
  have "p \<in> blocked (Isolate i m) i" "i \<in> blocked (Isolate i m) p"
    using assms(1-3) by (simp_all add: isolation)
  then have "isl (route (Isolate i m) i p)" "isl (route (Isolate i m) p i)" by (simp_all add: route_def)
  moreover have "b \<in> blocked (Isolate i m) a \<longleftrightarrow> b \<in> blocked m a"
    using assms(1,4,5) by (simp add: isolation)
  then have "route (Isolate i m) a b = route m a b" using same by (intro route_cong) simp_all
  moreover have "y \<in> blocked (mem_Heal i (Isolate i m)) x \<longleftrightarrow> y \<in> blocked (mem_Heal i m) x"
    using assms(1) by (auto simp: isolation split: if_splits)
  then have "route (mem_Heal i (Isolate i m)) x y = route (mem_Heal i m) x y"
    using same by (intro route_cong) simp_all
  ultimately show ?thesis by simp
qed

theorem Isolate_Heal_witness:
  "isl (route (Isolate ''a'' (fold mem_Register [''a'', ''b'', ''c''] NewMemNetwork)) ''a'' ''b'')
   \<and> \<not> isl (route (Isolate ''a'' (fold mem_Register [''a'', ''b'', ''c''] NewMemNetwork)) ''b'' ''c'')"
proof -
  let ?m = "fold mem_Register [''a'', ''b'', ''c''] NewMemNetwork"
  have "finite (mnodes ?m)" "''b'' \<in> mnodes ?m" "\<not> isl (route ?m ''b'' ''c'')"
    by (simp_all add: mem_Register_def NewMemNetwork_def route_def)
  then show ?thesis using Isolate_Heal [of ?m "''b''" "''a''" "''b''" "''c''"] by simp
qed

end
