(* ===== verification/Engine.thy ===== *)
theory Engine
  imports ClusterTopology Transport TwoPhase
begin

text \<open>
  The engine that drives a cluster, from \<^verbatim>\<open>src/internal/cluster/engine.go\<close> and \<^verbatim>\<open>narrate.go\<close>.  The
  interface \<^verbatim>\<open>Replica\<close> is a record of calls on the world \<open>'r\<close> of replicas; in process the replicas
  read the engine's own fault table, so the calls that let them run take it.  A call also returns
  the sends observed while it ran.  A loop that polls until a deadline polls at most the number of
  times the record gives: the clock is a bound on the number of polls.
\<close>

section \<open>State\<close>

record NodeStatus =
  NSID :: string
  NSAlive :: bool
  NSRole :: string
  NSApplied :: slot

record ShardStatus =
  SSShard :: nat
  SSLeader :: string
  SSTerm :: nat
  SSAlive :: nat
  SSTotal :: int
  SSQuorum :: int
  SSNodes :: "NodeStatus list"

record AccountStatus =
  ASKey :: string
  ASShard :: nat
  ASBalance :: i64
  ASLockedBy :: string
  ASStale :: bool

record Status =
  StShards :: "ShardStatus list"
  StAccounts :: "AccountStatus list"
  StPartitions :: "string list list"

text \<open>Where events go: nowhere, to a plain sink, or to one that also takes snapshots.\<close>

datatype sinkbox = DiscardSink | PlainSink | SnapSink

datatype emission = OutEvent Event | OutState Status

record 'r engine =
  ecfg :: cluster_config
  eshards :: "NodeID list list"
  efaults :: faults
  esinkbox :: sinkbox
  eout :: "emission list"
  eacks :: "(string, nat) mapping"
  eroles :: "string \<Rightarrow> string option"
  eworld :: 'r

record 'r replica_ops =
  RPropose :: "faults \<Rightarrow> NodeID \<Rightarrow> lcommand \<Rightarrow> 'r \<Rightarrow> ('r \<times> trace list) \<times> (goerror + lresult)"
  RInfo :: "NodeID \<Rightarrow> 'r \<Rightarrow> goerror + NodeInfo"
  RCampaign :: "faults \<Rightarrow> NodeID \<Rightarrow> 'r \<Rightarrow> 'r \<times> trace list"
  RSleep :: "faults \<Rightarrow> 'r \<Rightarrow> ('r \<times> trace list) \<times> bool"   \<comment> \<open>did the watcher tick\<close>
  RPush :: "(FaultState \<Rightarrow> 'r \<Rightarrow> 'r) option"
  RDrain :: "('r \<Rightarrow> 'r \<times> trace list) option"
  settlePolls :: nat
  leaderPolls :: nat
  catchupPolls :: nat

definition newEngine :: "cluster_config \<Rightarrow> faults \<Rightarrow> NodeID list list \<Rightarrow> 'r \<Rightarrow> 'r engine" where
  "newEngine c f sh w =
     \<lparr>ecfg = c, eshards = sh, efaults = f, esinkbox = DiscardSink, eout = [], eacks = Mapping.empty,
      eroles = Map.empty, eworld = w\<rparr>"

definition emitEvent :: "Event \<Rightarrow> 'r engine \<Rightarrow> 'r engine" where
  "emitEvent ev e = (if esinkbox e = DiscardSink then e else e\<lparr>eout := eout e @ [OutEvent ev]\<rparr>)"

definition engine_emit :: "Level \<Rightarrow> string \<Rightarrow> string \<Rightarrow> 'r engine \<Rightarrow> 'r engine" where
  "engine_emit l tag msg = emitEvent (plain_event l tag msg)"

section \<open>Topology\<close>

definition replica :: "'r engine \<Rightarrow> string \<Rightarrow> goerror + (NodeID \<times> nat)" where
  "replica e name =
     (case ParseNode name of
        Inl err \<Rightarrow> Inl err
      | Inr (s, i) \<Rightarrow>
          if s \<ge> Shards (ecfg e) \<or> i \<ge> NodesPerShard (ecfg e)
          then Inl (Errorf [] (the_error ErrUnknownNode)
                 ('': '' @ name @ '' (this cluster has s0..s'' @ show_int (Shards (ecfg e) - 1)
                  @ '', n0..n'' @ show_int (NodesPerShard (ecfg e) - 1) @ '')''))
          else Inr (eshards e ! nat s ! nat i, nat s))"

definition alive :: "'r engine \<Rightarrow> NodeID \<Rightarrow> bool" where
  "alive e r \<longleftrightarrow> \<not> Dead (efaults e) r"

text \<open>
  \<^verbatim>\<open>majorityGroup\<close>: the live replicas by side, in the order of first appearance, and the largest
  side.  Go ranges over the map of sides in any order; the choice does not depend on it.
\<close>

fun add_to_group :: "int \<Rightarrow> NodeID \<Rightarrow> (int \<times> NodeID list) list \<Rightarrow> (int \<times> NodeID list) list" where
  "add_to_group g r [] = [(g, [r])]"
| "add_to_group g r ((h, rs) # gs) =
     (if g = h then (h, rs @ [r]) # gs else (h, rs) # add_to_group g r gs)"

definition side_groups :: "'r engine \<Rightarrow> nat \<Rightarrow> (int \<times> NodeID list) list" where
  "side_groups e s =
     fold (\<lambda>r gs. if alive e r then add_to_group (GroupOf (efaults e) r) r gs else gs) (eshards e ! s) []"

definition better_group :: "NodeID list \<Rightarrow> NodeID list \<Rightarrow> bool" where
  "better_group g best \<longleftrightarrow>
     length g > length best \<or> length g = length best \<and> length g > 0 \<and> hd g < hd best"

definition best_group :: "(int \<times> NodeID list) list \<Rightarrow> NodeID list" where
  "best_group gs = fold (\<lambda>(k, g) best. if better_group g best then g else best) gs []"

definition majorityGroup :: "'r engine \<Rightarrow> nat \<Rightarrow> NodeID list \<times> bool" where
  "majorityGroup e s =
     (let best = best_group (side_groups e s) in (best, int (length best) \<ge> Quorum (ecfg e)))"

definition unreachable_info :: "NodeID \<Rightarrow> NodeInfo" where
  "unreachable_info r =
     \<lparr>NIID = r, NIRole = ''unreachable'', NIBallot = zero_ballot, NIApplied = 0, NIAccounts = [], NITail = []\<rparr>"

definition infos :: "'r replica_ops \<Rightarrow> 'r engine \<Rightarrow> nat \<Rightarrow> NodeInfo list" where
  "infos R e s =
     map (\<lambda>r. case RInfo R r (eworld e) of Inl err \<Rightarrow> unreachable_info r | Inr i \<Rightarrow> i) (eshards e ! s)"

text \<open>The loop both \<^verbatim>\<open>leaderOf\<close> and \<^verbatim>\<open>leaderOfAny\<close> run: the claimant with the highest ballot.\<close>

definition claimant :: "'r replica_ops \<Rightarrow> 'r engine \<Rightarrow> NodeID \<Rightarrow> (NodeID \<times> NodeInfo) option \<Rightarrow>
    (NodeID \<times> NodeInfo) option" where
  "claimant R e r best =
     (case RInfo R r (eworld e) of
        Inl err \<Rightarrow> best
      | Inr info \<Rightarrow>
          if NIRole info \<noteq> Role_String Leader then best
          else case best of
                 None \<Rightarrow> Some (r, info)
               | Some (_, bestInfo) \<Rightarrow> if Less (NIBallot bestInfo) (NIBallot info) then Some (r, info) else best)"

definition leaderOf :: "'r replica_ops \<Rightarrow> 'r engine \<Rightarrow> nat \<Rightarrow> (NodeID \<times> NodeInfo) option" where
  "leaderOf R e s =
     (case majorityGroup e s of (grp, ok) \<Rightarrow> if \<not> ok then None else fold (claimant R e) grp None)"

definition leaderOfAny :: "'r replica_ops \<Rightarrow> 'r engine \<Rightarrow> nat \<Rightarrow> (NodeID \<times> NodeInfo) option" where
  "leaderOfAny R e s = fold (\<lambda>r best. if \<not> alive e r then best else claimant R e r best) (eshards e ! s) None"

definition inGroup :: "NodeID list \<Rightarrow> string \<Rightarrow> bool" where
  "inGroup grp i = list_ex (\<lambda>r. r = i) grp"

definition settled :: "'r replica_ops \<Rightarrow> 'r engine \<Rightarrow> nat \<Rightarrow> bool" where
  "settled R e s =
     (case majorityGroup e s of
        (grp, ok) \<Rightarrow>
          (let leaders = filter (\<lambda>i. NIRole i = Role_String Leader \<and> \<not> Dead (efaults e) (NIID i)) (infos R e s)
           in if list_ex (\<lambda>i. \<not> ok \<or> \<not> inGroup grp (NIID i)) leaders then False
              else \<not> ok \<or> length leaders \<ge> 1))"

section \<open>Status\<close>

text \<open>The scan over a shard's replicas: how many live, the highest ballot seen, the replica to read.\<close>

fun scan_infos :: "faults \<Rightarrow> NodeInfo list \<Rightarrow> nat \<times> nat \<times> NodeInfo option \<Rightarrow> nat \<times> nat \<times> NodeInfo option" where
  "scan_infos f [] acc = acc"
| "scan_infos f (i # is) (alv, term, source) =
     scan_infos f is
       (if Dead f (NIID i) then (alv, term, source)
        else (Suc alv, if Num (NIBallot i) > term then Num (NIBallot i) else term,
              case source of
                None \<Rightarrow> Some i
              | Some j \<Rightarrow> if NIApplied i > NIApplied j then Some i else source))"

definition node_status :: "faults \<Rightarrow> NodeInfo \<Rightarrow> NodeStatus" where
  "node_status f i =
     \<lparr>NSID = NIID i, NSAlive = (\<not> Dead f (NIID i)), NSRole = NIRole i, NSApplied = NIApplied i\<rparr>"

fun last_with :: "('a \<Rightarrow> bool) \<Rightarrow> 'a list \<Rightarrow> 'a option \<Rightarrow> 'a option" where
  "last_with P [] d = d"
| "last_with P (x # xs) d = last_with P xs (if P x then Some x else d)"

definition shard_status :: "'r replica_ops \<Rightarrow> 'r engine \<Rightarrow> nat \<Rightarrow> ShardStatus \<times> AccountStatus list" where
  "shard_status R e s =
     (let is = infos R e s; f = efaults e;
          (alv, term, source) = scan_infos f is (0, 0, None);
          ld = leaderOf R e s;
          ss = \<lparr>SSShard = s, SSLeader = (case ld of None \<Rightarrow> [] | Some (l, _) \<Rightarrow> l),
                SSTerm = (case ld of None \<Rightarrow> term | Some (_, li) \<Rightarrow> Num (NIBallot li)),
                SSAlive = alv, SSTotal = NodesPerShard (ecfg e), SSQuorum = Quorum (ecfg e),
                SSNodes = map (node_status f) is\<rparr>;
          src = (case ld of None \<Rightarrow> source | Some (l, _) \<Rightarrow> last_with (\<lambda>i. NIID i = l) is source)
      in (ss, case src of
                None \<Rightarrow> []
              | Some i \<Rightarrow> map (\<lambda>a. \<lparr>ASKey = AKey a, ASShard = s, ASBalance = ABalance a,
                                  ASLockedBy = LockedBy a, ASStale = (ld = None)\<rparr>) (NIAccounts i)))"

definition engine_Status :: "'r replica_ops \<Rightarrow> 'r engine \<Rightarrow> Status" where
  "engine_Status R e =
     (let rows = map (shard_status R e) [0..<length (eshards e)]
      in \<lparr>StShards = map fst rows,
          StAccounts = sort_key ASShard (sort_key ASKey (concat (map snd rows))),
          StPartitions = FGroups (faults_State (efaults e))\<rparr>)"

definition Datastore :: "'r replica_ops \<Rightarrow> 'r engine \<Rightarrow> string list" where
  "Datastore R e =
     concat (map (\<lambda>s. map (\<lambda>i.
       NIID i @ '' '' @ pad_right 8 (if Dead (efaults e) (NIID i) then ''DOWN'' else NIRole i)
       @ '' promised='' @ pad_right 7 (ballot_String (NIBallot i)) @ '' applied='' @ pad_right 3 (itoa (NIApplied i))
       @ '' {'' @ Join '' '' (map (\<lambda>a. AKey a @ ''='' @ show_i64 (ABalance a)) (NIAccounts i))
       @ ''}  log ..'' @ Join '' | '' (map (\<lambda>l. itoa (LLSlot l) @ '':'' @ LLCommand l) (NITail i)))
       (infos R e s)) [0..<length (eshards e)])"

section \<open>Narration\<close>

definition snapshot :: "'r replica_ops \<Rightarrow> 'r engine \<Rightarrow> 'r engine" where
  "snapshot R e = (if esinkbox e = SnapSink then e\<lparr>eout := eout e @ [OutState (engine_Status R e)]\<rparr> else e)"

definition ackKey :: "string \<Rightarrow> slot \<Rightarrow> string" where
  "ackKey node s = node @ ''/'' @ itoa s"

definition takeAcks :: "string \<Rightarrow> slot \<Rightarrow> 'r engine \<Rightarrow> 'r engine \<times> nat" where
  "takeAcks node s e =
     (let k = ackKey node s
      in (e\<lparr>eacks := Mapping.delete k (eacks e)\<rparr>, Mapping.lookup_default 0 (eacks e) k))"

definition count_ack :: "string \<Rightarrow> slot \<Rightarrow> 'r engine \<Rightarrow> 'r engine" where
  "count_ack node s e =
     (let acks = (if Mapping.size (eacks e) > 4096 then Mapping.empty else eacks e); k = ackKey node s
      in e\<lparr>eacks := Mapping.update k (Mapping.lookup_default 0 acks k + 1) acks\<rparr>)"

definition trace_edge :: "Level \<Rightarrow> string \<Rightarrow> string \<Rightarrow> string \<Rightarrow> string \<Rightarrow> string \<Rightarrow> 'r engine \<Rightarrow> 'r engine" where
  "trace_edge l tag src dst kind msg =
     emitEvent \<lparr>ELevel = l, ETag = tag, EMsg = msg, EFrom = src, ETo = dst, EKind = kind\<rparr>"

definition onTrace :: "trace \<Rightarrow> 'r engine \<Rightarrow> 'r engine" where
  "onTrace t e =
     (let tag = (case ParseNode (TFrom t) of Inr (s, _) \<Rightarrow> ShardTag s | Inl _ \<Rightarrow> ''[net]'');
          reason = TrimPrefix (TErr t) (sentinel_text ErrUnreachable @ '': '');
          src = TFrom t; dst = TTo t; b = ballot_String (MBallot (TReq t)); sl = itoa (MSlot (TReq t))
      in case Kind (TReq t) of
           KindPrepare \<Rightarrow>
             if TErr t \<noteq> [] then
               trace_edge NetLevel ''[net]'' src dst ''drop'' (''drop PREPARE '' @ src @ '' -> '' @ dst @ '': '' @ reason) e
             else
               (let e1 = trace_edge PaxosLevel tag src dst ''prepare'' (''PREPARE ballot='' @ b @ '' '' @ src @ '' -> '' @ dst) e
                in if OK (TReply t)
                   then trace_edge PaxosLevel tag dst src ''promise'' (''PROMISE '' @ dst @ '' -> '' @ src) e1
                   else trace_edge PaxosLevel tag dst src ''reject''
                          (''REJECT '' @ dst @ '' -> '' @ src @ '': already promised '' @ ballot_String (MBallot (TReply t))) e1)
         | KindAccept \<Rightarrow>
             if TErr t \<noteq> [] then
               trace_edge NetLevel ''[net]'' src dst ''drop''
                 (''drop ACCEPT slot='' @ sl @ '' '' @ src @ '' -> '' @ dst @ '': '' @ reason) e
             else
               (let e1 = trace_edge PaxosLevel tag src dst ''accept''
                           (''ACCEPT slot='' @ sl @ '' ballot='' @ b @ '' '' @ src @ '' -> '' @ dst) e
                in if OK (TReply t)
                   then trace_edge PaxosLevel tag dst src ''accepted''
                          (''ACCEPTED slot='' @ sl @ '' '' @ dst @ '' -> '' @ src) (count_ack src (MSlot (TReq t)) e1)
                   else trace_edge PaxosLevel tag dst src ''reject''
                          (''REJECT slot='' @ sl @ '' '' @ dst @ '' -> '' @ src @ '': promised ''
                           @ ballot_String (MBallot (TReply t))) e1)
         | _ \<Rightarrow> e)"

definition collectTraces :: "'r replica_ops \<Rightarrow> 'r engine \<Rightarrow> 'r engine" where
  "collectTraces R e =
     (case RDrain R of
        None \<Rightarrow> e
      | Some d \<Rightarrow> (case d (eworld e) of (w, ts) \<Rightarrow> fold onTrace ts (e\<lparr>eworld := w\<rparr>)))"

definition poll_role :: "nat \<Rightarrow> NodeInfo \<Rightarrow> bool \<times> 'r engine \<Rightarrow> bool \<times> 'r engine" where
  "poll_role s info acc =
     (case acc of
        (changed, e) \<Rightarrow>
          (let prev = eroles e (NIID info);
               e1 = e\<lparr>eroles := (eroles e)(NIID info \<mapsto> NIRole info)\<rparr>;
               ch = (changed \<or> (prev \<noteq> None \<and> prev \<noteq> Some (NIRole info)))
           in if prev = None \<or> prev = Some (NIRole info) \<or> Dead (efaults e) (NIID info) then (ch, e1)
              else if NIRole info = Role_String Leader
              then (ch, engine_emit LeaderLevel (ShardTag (int s))
                      (NIID info @ '' elected leader, ballot '' @ ballot_String (NIBallot info)
                       @ '' (term '' @ itoa (Num (NIBallot info)) @ '')'') e1)
              else if prev = Some (Role_String Leader)
              then (ch, engine_emit LeaderLevel (ShardTag (int s)) (NIID info @ '' stepped down'') e1)
              else (ch, e1)))"

definition pollRolesLocked :: "'r replica_ops \<Rightarrow> 'r engine \<Rightarrow> bool \<times> 'r engine" where
  "pollRolesLocked R e =
     fold (\<lambda>s acc. fold (poll_role s) (infos R (snd acc) s) acc) [0..<length (eshards e)] (False, e)"

definition pollRoles :: "'r replica_ops \<Rightarrow> 'r engine \<Rightarrow> 'r engine" where
  "pollRoles R e = (case pollRolesLocked R e of (changed, e1) \<Rightarrow> if changed then snapshot R e1 else e1)"

definition flush :: "'r replica_ops \<Rightarrow> 'r engine \<Rightarrow> 'r engine" where
  "flush R e = pollRoles R (collectTraces R e)"

text \<open>Time passes: the replicas run, their sends are observed, the watcher may tick.\<close>

definition sleep :: "'r replica_ops \<Rightarrow> 'r engine \<Rightarrow> 'r engine" where
  "sleep R e =
     (case RSleep R (efaults e) (eworld e) of
        ((w, ts), ticked) \<Rightarrow>
          (let e1 = fold onTrace ts (e\<lparr>eworld := w\<rparr>) in if ticked then flush R e1 else e1))"

definition campaign :: "'r replica_ops \<Rightarrow> NodeID \<Rightarrow> 'r engine \<Rightarrow> 'r engine" where
  "campaign R r e =
     (case RCampaign R (efaults e) r (eworld e) of (w, ts) \<Rightarrow> fold onTrace ts (e\<lparr>eworld := w\<rparr>))"

definition push :: "'r replica_ops \<Rightarrow> 'r engine \<Rightarrow> 'r engine" where
  "push R e =
     snapshot R (case RPush R of None \<Rightarrow> e | Some p \<Rightarrow> e\<lparr>eworld := p (faults_State (efaults e)) (eworld e)\<rparr>)"

definition engine_Do :: "'r replica_ops \<Rightarrow> sinkbox \<Rightarrow> ('r engine \<Rightarrow> 'r engine) \<Rightarrow> 'r engine \<Rightarrow> 'r engine" where
  "engine_Do R snk fn e = (flush R (fn (e\<lparr>esinkbox := snk\<rparr>)))\<lparr>esinkbox := DiscardSink\<rparr>"

end
