(* ===== verification/EngineOps.thy ===== *)
theory EngineOps
  imports Engine
begin

text \<open>
  The operator's commands on a cluster, from \<^verbatim>\<open>src/internal/cluster/engine.go\<close>: elections, proposals,
  reads and writes, transfers through the two-phase-commit coordinator, and the fault commands;
  with the construction of an engine (\<^verbatim>\<open>build.go\<close>) and the control service of a node process
  (\<^verbatim>\<open>remote.go\<close>).
\<close>

section \<open>Waiting and electing\<close>

fun awaitSettled :: "'r replica_ops \<Rightarrow> nat \<Rightarrow> nat list \<Rightarrow> 'r engine \<Rightarrow> 'r engine \<times> bool" where
  "awaitSettled R n ss e =
     (let all = list_all (settled R e) ss; e1 = flush R e
      in if all then (e1, True)
         else case n of 0 \<Rightarrow> (e1, False) | Suc k \<Rightarrow> awaitSettled R k ss (sleep R e1))"

definition engine_elect :: "'r replica_ops \<Rightarrow> nat \<Rightarrow> string \<Rightarrow> 'r engine \<Rightarrow> 'r engine" where
  "engine_elect R s why e =
     (let tag = ShardTag (int s)
      in case majorityGroup e s of
           (grp, ok) \<Rightarrow>
             if \<not> ok then
               fst (awaitSettled R (settlePolls R) [s]
                 (engine_emit ErrorLevel tag
                    (''no quorum: the largest reachable group has '' @ itoa (length grp) @ '' of ''
                     @ show_int (NodesPerShard (ecfg e)) @ '' replicas, needs '' @ show_int (Quorum (ecfg e))
                     @ ''. shard is leaderless; writes will fail'') e))
             else
               (let e1 = (case leaderOf R e s of
                            Some _ \<Rightarrow> e
                          | None \<Rightarrow>
                              campaign R (hd grp)
                                (engine_emit LeaderLevel tag (why @ '': '' @ hd grp
                                   @ '' campaigns, sending PREPARE under a fresh ballot'') e))
                in case awaitSettled R (settlePolls R) [s] e1 of
                     (e2, True) \<Rightarrow> e2
                   | (e2, False) \<Rightarrow>
                       engine_emit ErrorLevel tag
                         ''election did not settle yet; the replicas' own timers will retry'' e2))"

fun leader_wait :: "'r replica_ops \<Rightarrow> nat \<Rightarrow> nat \<Rightarrow> 'r engine \<Rightarrow> 'r engine \<times> (goerror + NodeID \<times> NodeInfo)" where
  "leader_wait R n s e =
     (case leaderOf R e s of
        Some l \<Rightarrow> (e, Inr l)
      | None \<Rightarrow>
          (case n of
             0 \<Rightarrow> (e, Inl (Errorf (''s'' @ itoa s @ '': '') (the_error ErrNoLeader) '' elected yet, try again''))
           | Suc k \<Rightarrow> leader_wait R k s (sleep R e)))"

definition leaderFor :: "'r replica_ops \<Rightarrow> nat \<Rightarrow> 'r engine \<Rightarrow> 'r engine \<times> (goerror + NodeID \<times> NodeInfo)" where
  "leaderFor R s e =
     (case majorityGroup e s of
        (grp, ok) \<Rightarrow>
          if \<not> ok then
            (e, Inl (Errorf (''s'' @ itoa s @ '' cannot reach a majority ('' @ itoa (length grp) @ '' of ''
               @ show_int (NodesPerShard (ecfg e)) @ '' reachable, needs '' @ show_int (Quorum (ecfg e)) @ ''): '')
               (the_error sentinel.ErrNoQuorum) []))
          else
            (case leaderOf R e s of
               Some l \<Rightarrow> (e, Inr l)
             | None \<Rightarrow>
                 leader_wait R (leaderPolls R) s
                   (campaign R (hd grp)
                     (engine_emit LeaderLevel (ShardTag (int s)) (''no leader yet; '' @ hd grp @ '' campaigns'') e))))"

declare awaitSettled.simps [simp del] leader_wait.simps [simp del]

section \<open>Proposing\<close>

definition propose_error :: "nat \<Rightarrow> lcommand \<Rightarrow> NodeID \<Rightarrow> goerror \<Rightarrow> 'r engine \<Rightarrow> 'r engine \<times> goerror" where
  "propose_error s cmd l err e =
     (if errors_Is err sentinel.ErrNoQuorum \<or> errors_Is err DeadlineExceeded then
        (engine_emit ErrorLevel (ShardTag (int s))
           (''ACCEPT did not reach '' @ show_int (Quorum (ecfg e)) @ '' of '' @ show_int (NodesPerShard (ecfg e))
            @ ''; '' @ l @ '' steps down rather than commit alone'') e,
         Errorf (''s'' @ itoa s @ '': '') (the_error sentinel.ErrNoQuorum) ('' for '' @ command_String cmd))
      else if errors_Is err sentinel.ErrNotLeader then
        (e, Errorf (''s'' @ itoa s @ '': leadership moved mid-round ('') (the_error ErrNoLeader) ''), try again'')
      else (e, err))"

definition engine_propose :: "'r replica_ops \<Rightarrow> nat \<Rightarrow> lcommand \<Rightarrow> 'r engine \<Rightarrow> 'r engine \<times> (goerror + lresult)" where
  "engine_propose R s cmd e =
     (let tag = ShardTag (int s)
      in case leaderFor R s e of
           (e1, Inl err) \<Rightarrow> (e1, Inl err)
         | (e1, Inr (l, info)) \<Rightarrow>
             (let e2 = engine_emit PaxosLevel tag (l @ '' proposes '' @ quote (command_String cmd))
                         (engine_emit PaxosLevel tag
                            (''PREPARE/PROMISE already held: '' @ l @ '' leads under ballot ''
                             @ ballot_String (NIBallot info) @ '', promised by a majority when it was elected'') e1)
              in case RPropose R (efaults e2) l cmd (eworld e2) of
                   ((w, ts), res) \<Rightarrow>
                     (let e3 = collectTraces R (fold onTrace ts (e2\<lparr>eworld := w\<rparr>))
                      in case res of
                           Inl err \<Rightarrow> (case propose_error s cmd l err e3 of (e4, err') \<Rightarrow> (e4, Inl err'))
                         | Inr r \<Rightarrow>
                             (case takeAcks l (RSlot r) e3 of
                                (e4, acks) \<Rightarrow>
                                  (engine_emit PaxosLevel tag
                                     (''COMMIT slot='' @ itoa (RSlot r) @ '' '' @ command_String cmd @ '' (accepted by ''
                                      @ itoa (acks + 1) @ ''/'' @ show_int (NodesPerShard (ecfg e)) @ '', quorum ''
                                      @ show_int (Quorum (ecfg e)) @ '')'') e4, Inr r)))))"

section \<open>Operator commands\<close>

definition Bootstrap :: "'r replica_ops \<Rightarrow> 'r engine \<Rightarrow> 'r engine" where
  "Bootstrap R e = fold (\<lambda>s. engine_elect R s ''startup'') [0..<length (eshards e)] e"

definition shard_of :: "'r engine \<Rightarrow> string \<Rightarrow> nat" where
  "shard_of e key = nat (ShardFor key (Shards (ecfg e)))"

definition run_command :: "'r replica_ops \<Rightarrow> nat \<Rightarrow> lcommand \<Rightarrow> 'r engine \<Rightarrow> 'r engine \<times> goerror option" where
  "run_command R s cmd e =
     (case engine_propose R s cmd e of
        (e1, Inl err) \<Rightarrow> (e1, Some err)
      | (e1, Inr r) \<Rightarrow> (e1, result_Err r))"

definition engine_Put :: "'r replica_ops \<Rightarrow> string \<Rightarrow> i64 \<Rightarrow> 'r engine \<Rightarrow> 'r engine \<times> goerror option" where
  "engine_Put R key v e = run_command R (shard_of e key) ((new_lcommand OpPut)\<lparr>Key := key, Amount := v\<rparr>) e"

definition engine_Get :: "'r replica_ops \<Rightarrow> string \<Rightarrow> 'r engine \<Rightarrow> 'r engine \<times> (goerror + i64)" where
  "engine_Get R key e =
     (let s = shard_of e key
      in case engine_propose R s ((new_lcommand OpGet)\<lparr>Key := key\<rparr>) e of
           (e1, Inl err) \<Rightarrow> (e1, Inl err)
         | (e1, Inr r) \<Rightarrow>
             (case result_Err r of
                Some err \<Rightarrow> (e1, Inl err)
              | None \<Rightarrow>
                  (engine_emit PaxosLevel (ShardTag (int s))
                     (''read served at slot '' @ itoa (RSlot r)
                      @ '': every write acknowledged before it is visible (linearizable)'') e1, Inr (Value r))))"

text \<open>One shard as a participant of two-phase commit.\<close>

definition participant :: "'r replica_ops \<Rightarrow> (nat, 'r engine) participant_ops" where
  "participant R =
     \<lparr>PName = (\<lambda>s. ''s'' @ itoa s),
      PPrepare = (\<lambda>s tx key delta. run_command R s ((new_lcommand OpPrepare)\<lparr>Tx := tx, Key := key, Amount := delta\<rparr>)),
      PCommit = (\<lambda>s tx. run_command R s ((new_lcommand OpCommit)\<lparr>Tx := tx\<rparr>)),
      PAbort = (\<lambda>s tx. run_command R s ((new_lcommand OpAbort)\<lparr>Tx := tx\<rparr>))\<rparr>"

type_synonym 'r cluster = "(nat, 'r engine) coordinator \<times> 'r engine"

definition engine_Transfer :: "'r replica_ops \<Rightarrow> string \<Rightarrow> string \<Rightarrow> i64 \<Rightarrow> 'r cluster \<Rightarrow> 'r cluster \<times> goerror option" where
  "engine_Transfer R src dst amount ce =
     (case ce of
        (c, e) \<Rightarrow>
          (let fs = shard_of e src; ts = shard_of e dst
           in if fs = ts then
                (case run_command R fs ((new_lcommand OpTransfer)\<lparr>Key := src, To := dst, Amount := amount\<rparr>)
                        (engine_emit TwoPCLevel ''[2PC]''
                           (''not needed: '' @ src @ '' and '' @ dst @ '' both live on s'' @ itoa fs
                            @ '', so one Paxos round moves the money atomically'') e) of
                   (e1, r) \<Rightarrow> ((c, e1), r))
              else coord_Transfer (participant R) fs src ts dst amount c e))"

definition Kill :: "'r replica_ops \<Rightarrow> string \<Rightarrow> 'r engine \<Rightarrow> 'r engine \<times> goerror option" where
  "Kill R name e =
     (case replica e name of
        Inl err \<Rightarrow> (e, Some err)
      | Inr (r, s) \<Rightarrow>
          if \<not> alive e r then (e, Some (errors_New (name @ '' is already down'')))
          else
            (let wasLeader = (case leaderOf R e s of None \<Rightarrow> False | Some (l, _) \<Rightarrow> l = name);
                 e1 = engine_emit NetLevel ''[net]'' (name @ '' killed: it stops sending and receiving'')
                        (push R (e\<lparr>efaults := faults_Kill name (efaults e)\<rparr>))
             in if \<not> wasLeader then
                  (let e2 = (if snd (majorityGroup e1 s)
                             then engine_emit InfoLevel (ShardTag (int s))
                                    (name @ '' was a follower; the leader keeps its majority'') e1
                             else engine_emit ErrorLevel (ShardTag (int s))
                                    ''that was one replica too many: no majority is left, so the leader will step down'' e1)
                   in (fst (awaitSettled R (settlePolls R) [s] e2), None))
                else
                  (engine_elect R s ''leader lost''
                     (engine_emit LeaderLevel (ShardTag (int s)) (name @ '' was the leader'') e1), None)))"

text \<open>The \<^verbatim>\<open>uint64\<close> difference of two applied indices.\<close>

definition u64_diff :: "slot \<Rightarrow> slot \<Rightarrow> nat" where
  "u64_diff a b = nat ((int a - int b) mod 2 ^ 64)"

fun catchup_wait :: "'r replica_ops \<Rightarrow> nat \<Rightarrow> string \<Rightarrow> NodeID \<Rightarrow> nat \<Rightarrow> slot \<Rightarrow> NodeID \<Rightarrow> NodeInfo \<Rightarrow>
    'r engine \<Rightarrow> 'r engine" where
  "catchup_wait R 0 name r s before l linfo e =
     engine_emit PaxosLevel (ShardTag (int s)) (name @ '' is still catching up in the background'') e"
| "catchup_wait R (Suc n) name r s before l linfo e =
     (case RInfo R r (eworld e) of
        Inr info \<Rightarrow>
          if NIApplied info \<ge> NIApplied linfo then
            (let missed = u64_diff (NIApplied info) before; at = itoa (NIApplied info)
             in engine_emit PaxosLevel (ShardTag (int s))
                  (if l = name then
                     name @ '' now leads: it adopted the '' @ itoa missed
                     @ '' slot(s) it missed from its peers' PROMISEs and re-proposed them, applied through slot '' @ at
                   else if missed = 0 then name @ '' already had every commit, through slot '' @ at
                   else name @ '' caught up from '' @ l @ '': applied through slot '' @ at
                     @ '' (missed '' @ itoa missed @ '' while down)'') e)
          else catchup_wait R n name r s before l linfo (sleep R e)
      | Inl err \<Rightarrow> catchup_wait R n name r s before l linfo (sleep R e))"

definition Revive :: "'r replica_ops \<Rightarrow> string \<Rightarrow> 'r engine \<Rightarrow> 'r engine \<times> goerror option" where
  "Revive R name e =
     (case replica e name of
        Inl err \<Rightarrow> (e, Some err)
      | Inr (r, s) \<Rightarrow>
          if alive e r then (e, Some (errors_New (name @ '' is already up'')))
          else
            (let before = (case RInfo R r (eworld e) of Inl err \<Rightarrow> 0 | Inr i \<Rightarrow> NIApplied i);
                 e1 = engine_emit NetLevel ''[net]'' (name @ '' revived: it rejoins with the log it had when it went down'')
                        (push R (e\<lparr>efaults := faults_Revive name (efaults e)\<rparr>));
                 e2 = (case leaderOf R e1 s of
                         None \<Rightarrow> engine_elect R s ''majority restored'' e1
                       | Some _ \<Rightarrow> fst (awaitSettled R (settlePolls R) [s] e1))
             in case leaderOf R e2 s of
                  None \<Rightarrow> (e2, None)
                | Some (l, linfo) \<Rightarrow>
                    if GroupOf (efaults e2) name \<noteq> GroupOf (efaults e2) l then (e2, None)
                    else (catchup_wait R (catchupPolls R) name r s before l linfo e2, None)))"

fun check_names :: "'r engine \<Rightarrow> string list \<Rightarrow> goerror option" where
  "check_names e [] = None"
| "check_names e (n # ns) = (case replica e n of Inl err \<Rightarrow> Some err | Inr _ \<Rightarrow> check_names e ns)"

definition partition_shard :: "'r replica_ops \<Rightarrow> nat \<Rightarrow> 'r engine \<Rightarrow> 'r engine" where
  "partition_shard R s e =
     (let tag = ShardTag (int s); any = leaderOfAny R e s;
          e1 = (case majorityGroup e s of
                  (grp, ok) \<Rightarrow>
                    (case any of
                       None \<Rightarrow> e
                     | Some (l, _) \<Rightarrow>
                         if \<not> ok then
                           engine_emit LeaderLevel tag
                             (l @ '' can no longer reach a majority; it steps down at its next heartbeat (check-quorum)'') e
                         else if inGroup grp l then
                           engine_emit InfoLevel tag (''leader '' @ l @ '' is on the majority side and keeps leading'') e
                         else
                           engine_emit LeaderLevel tag
                             (''leader '' @ l @ '' is cut off in a minority and will step down (check-quorum)'') e))
      in engine_elect R s ''majority side has no leader'' e1)"

fun emit_groups :: "nat \<Rightarrow> string list list \<Rightarrow> 'r engine \<Rightarrow> 'r engine" where
  "emit_groups i [] e = e"
| "emit_groups i (g # gs) e =
     emit_groups (Suc i) gs
       (engine_emit NetLevel ''[net]'' (''group '' @ itoa (Suc i) @ '': {'' @ Join '' '' g @ ''}'') e)"

definition Partition :: "'r replica_ops \<Rightarrow> string list list \<Rightarrow> 'r engine \<Rightarrow> 'r engine \<times> goerror option" where
  "Partition R gs e =
     (case check_names e (concat gs) of
        Some err \<Rightarrow> (e, Some err)
      | None \<Rightarrow>
          (let listed = set (concat gs);
               e1 = emit_groups 0 gs (push R (e\<lparr>efaults := faults_Partition gs (efaults e)\<rparr>));
               rest = filter (\<lambda>r. r \<notin> listed) (concat (eshards e));
               affected = filter (\<lambda>s. list_ex (\<lambda>r. r \<in> listed) (eshards e ! s)) [0..<length (eshards e)];
               e2 = (if rest \<noteq> []
                     then engine_emit NetLevel ''[net]''
                            (''unlisted replicas form their own group: {'' @ Join '' '' rest @ ''}'') e1
                     else e1);
               e3 = engine_emit NetLevel ''[net]'' ''messages between groups are now dropped'' e2
           in (fold (partition_shard R) affected e3, None)))"

definition Heal :: "'r replica_ops \<Rightarrow> 'r engine \<Rightarrow> 'r engine \<times> goerror option" where
  "Heal R e =
     (if \<not> Partitioned (efaults e) then (e, Some (errors_New ''the network is not partitioned''))
      else
        (let e1 = engine_emit NetLevel ''[net]'' ''network healed: every live replica can reach every other''
                    (push R (e\<lparr>efaults := faults_Heal (efaults e)\<rparr>));
             e2 = fold (\<lambda>s e. case leaderOf R e s of None \<Rightarrow> engine_elect R s ''reconnected'' e | Some _ \<Rightarrow> e)
                    [0..<length (eshards e)] e1
         in (fst (awaitSettled R (settlePolls R) [0..<nat (Shards (ecfg e))] e2), None)))"

section \<open>Building an engine\<close>

definition replica_names :: "cluster_config \<Rightarrow> NodeID list list" where
  "replica_names c = map (\<lambda>s. map (NodeName s) [0..<nat (NodesPerShard c)]) [0..<nat (Shards c)]"

text \<open>\<open>build\<close> makes and starts the replicas of the given shards.\<close>

definition NewInproc :: "'r replica_ops \<Rightarrow> (cluster_config \<Rightarrow> NodeID list list \<Rightarrow> 'r) \<Rightarrow> cluster_config \<Rightarrow>
    goerror + 'r cluster" where
  "NewInproc R build c =
     (case Validate c of
        Some err \<Rightarrow> Inl err
      | None \<Rightarrow>
          (let c1 = cluster_withDefaults c; sh = replica_names c1
           in Inr (coordinator_New emitEvent, pollRoles R (newEngine c1 NewFaults sh (build c1 sh)))))"

fun missing_address :: "(string \<Rightarrow> string option) \<Rightarrow> (string \<Rightarrow> string \<Rightarrow> goerror option) \<Rightarrow> string list \<Rightarrow> goerror option" where
  "missing_address addrs dial [] = None"
| "missing_address addrs dial (n # ns) =
     (case addrs n of
        None \<Rightarrow> Some (errors_New (''no address for '' @ n))
      | Some a \<Rightarrow>
          (case dial n a of
             Some err \<Rightarrow> Some (Errorf (''dial '' @ n @ '' at '' @ a @ '': '') err [])
           | None \<Rightarrow> missing_address addrs dial ns))"

definition NewRemote :: "'r replica_ops \<Rightarrow> (string \<Rightarrow> string option) \<Rightarrow> (string \<Rightarrow> string \<Rightarrow> goerror option) \<Rightarrow>
    cluster_config \<Rightarrow> 'r \<Rightarrow> goerror + 'r cluster" where
  "NewRemote R addrs dial c w =
     (case Validate c of
        Some err \<Rightarrow> Inl err
      | None \<Rightarrow>
          (let c1 = cluster_withDefaults c; sh = replica_names c1
           in case missing_address addrs dial (concat sh) of
                Some err \<Rightarrow> Inl err
              | None \<Rightarrow>
                  (let w1 = (case RPush R of None \<Rightarrow> w | Some p \<Rightarrow> p \<lparr>FDead = [], FGroups = []\<rparr> w);
                       w2 = (case RDrain R of None \<Rightarrow> w1 | Some d \<Rightarrow> fst (d w1))
                   in Inr (coordinator_New emitEvent, pollRoles R (newEngine c1 NewFaults sh w2)))))"

section \<open>The control service\<close>

record proposeReply =
  PRResult :: lresult
  PRErr :: string
  PRNotLeader :: bool
  PRNoQuorum :: bool

text \<open>What the node process answers to a proposal, and what the gateway makes of the answer.\<close>

definition serve_propose :: "goerror + lresult \<Rightarrow> proposeReply" where
  "serve_propose res =
     (case res of
        Inr r \<Rightarrow> \<lparr>PRResult = r, PRErr = [], PRNotLeader = False, PRNoQuorum = False\<rparr>
      | Inl err \<Rightarrow>
          \<lparr>PRResult = new_lresult, PRErr = Error err, PRNotLeader = errors_Is err sentinel.ErrNotLeader,
           PRNoQuorum = (errors_Is err sentinel.ErrNoQuorum \<or> errors_Is err DeadlineExceeded)\<rparr>)"

definition remote_Propose :: "string \<Rightarrow> goerror + proposeReply \<Rightarrow> goerror + lresult" where
  "remote_Propose i call =
     (case call of
        Inl err \<Rightarrow> Inl (Errorf (i @ '': '') err [])
      | Inr out \<Rightarrow>
          if PRNotLeader out then Inl (Errorf (i @ '': '') (the_error sentinel.ErrNotLeader) [])
          else if PRNoQuorum out then Inl (Errorf (i @ '': '') (the_error sentinel.ErrNoQuorum) [])
          else if PRErr out \<noteq> [] then Inl (errors_New (PRErr out))
          else Inr (PRResult out))"

text \<open>The trace buffer of a node process.\<close>

definition maxBufferedTraces :: nat where
  "maxBufferedTraces = 4096"

definition observe :: "trace \<Rightarrow> trace list \<Rightarrow> trace list" where
  "observe t traces = (if length traces < maxBufferedTraces then traces @ [t] else traces)"

definition drain_traces :: "trace list \<Rightarrow> trace list \<times> trace list" where
  "drain_traces traces = ([], traces)"

end
