(* ===== verification/EngineSafety.thy ===== *)
theory EngineSafety
  imports EngineOps
begin

text \<open>
  What the engine's operations guarantee: the side of a partition that may lead, the leader a
  command is sent to, the agreement of local and remote proposals, and what the fault commands do
  to the fault table.
\<close>

section \<open>The majority side\<close>

definition side :: "'r engine \<Rightarrow> nat \<Rightarrow> int \<Rightarrow> NodeID list" where
  "side e s k = filter (\<lambda>r. alive e r \<and> GroupOf (efaults e) r = k) (eshards e ! s)"

text \<open>\<open>add_to_group\<close> keeps an association of distinct sides.\<close>

lemma add_to_group_keys: "fst ` set (add_to_group g r gs) = insert g (fst ` set gs)"
  by (induction gs rule: add_to_group.induct) auto

lemma add_to_group_distinct: "distinct (map fst gs) \<Longrightarrow> distinct (map fst (add_to_group g r gs))"
proof (induction gs)
  case (Cons x gs)
  obtain h rs where x: "x = (h, rs)" by fastforce
  have "h \<in> fst ` set (add_to_group g r gs) \<longleftrightarrow> h = g \<or> h \<in> fst ` set gs" by (simp add: add_to_group_keys)
  then show ?case using Cons x by (auto simp: image_iff)
qed simp

lemma add_to_group_lookup:
  "map_of (add_to_group g r gs) k
     = (if k = g then Some ((case map_of gs g of None \<Rightarrow> [] | Some rs \<Rightarrow> rs) @ [r]) else map_of gs k)"
  by (induction gs rule: add_to_group.induct) auto

definition sides_of :: "'r engine \<Rightarrow> NodeID list \<Rightarrow> (int \<times> NodeID list) list" where
  "sides_of e rs = fold (\<lambda>r gs. if alive e r then add_to_group (GroupOf (efaults e) r) r gs else gs) rs []"

lemma sides_of_snoc:
  "sides_of e (rs @ [r]) =
     (if alive e r then add_to_group (GroupOf (efaults e) r) r (sides_of e rs) else sides_of e rs)"
  by (simp add: sides_of_def)

lemma sides_of_distinct: "distinct (map fst (sides_of e rs))"
  by (induction rs rule: rev_induct) (simp_all add: sides_of_snoc add_to_group_distinct, simp add: sides_of_def)

lemma sides_of_map:
  "map_of (sides_of e rs) k
     = (if filter (\<lambda>r. alive e r \<and> GroupOf (efaults e) r = k) rs = [] then None
        else Some (filter (\<lambda>r. alive e r \<and> GroupOf (efaults e) r = k) rs))"
proof (induction rs rule: rev_induct)
  case Nil
  then show ?case by (simp add: sides_of_def)
next
  case (snoc r rs)
  then show ?case
    by (cases "k = GroupOf (efaults e) r") (simp_all add: sides_of_snoc add_to_group_lookup del: map_of_eq_Some_iff)
qed

lemma side_groups_iff: "(k, g) \<in> set (side_groups e s) \<longleftrightarrow> g = side e s k \<and> g \<noteq> []"
proof -
  have "side_groups e s = sides_of e (eshards e ! s)" by (simp add: side_groups_def sides_of_def)
  moreover have "(k, g) \<in> set (sides_of e (eshards e ! s)) \<longleftrightarrow> map_of (sides_of e (eshards e ! s)) k = Some g"
    using sides_of_distinct by (metis map_of_eq_Some_iff)
  ultimately show ?thesis by (auto simp: side_def sides_of_map split: if_splits)
qed

text \<open>The largest side, and that the order of the sides does not matter.\<close>

lemma best_group_fold:
  "(let b = fold (\<lambda>(k, g) best. if better_group g best then g else best) gs b0
    in (b = b0 \<or> b \<in> snd ` set gs) \<and> (b = b0 \<or> better_group b b0) \<and> (\<forall>x \<in> set gs. \<not> better_group (snd x) b))"
proof (induction gs arbitrary: b0)
  case (Cons x gs)
  obtain k g where x: "x = (k, g)" by fastforce
  have trans: "better_group a b \<Longrightarrow> better_group b c \<Longrightarrow> better_group a c" for a b c
    unfolding better_group_def by (auto dest: order.strict_trans)
  have irrefl: "\<not> better_group a a" for a by (simp add: better_group_def)
  let ?b0 = "if better_group g b0 then g else b0"
  from Cons.IH [of ?b0] show ?case
    unfolding x Let_def
    by (auto simp: irrefl split: if_splits dest: trans)
qed simp

lemma best_group_props:
  "best_group gs = [] \<or> best_group gs \<in> snd ` set gs"
  "x \<in> set gs \<Longrightarrow> \<not> better_group (snd x) (best_group gs)"
  using best_group_fold [of gs "[]"] by (auto simp: best_group_def Let_def)

lemma side_group: "r \<in> set (side e s k) \<Longrightarrow> GroupOf (efaults e) r = k"
  by (simp add: side_def)

lemma sides_share_no_head:
  assumes "side e s j \<noteq> []" and "side e s k \<noteq> []" and "hd (side e s j) = hd (side e s k)"
  shows "j = k"
  using side_group [OF hd_in_set [OF assms(1)]] side_group [OF hd_in_set [OF assms(2)]] assms(3) by metis

lemma best_group_order:
  assumes "set gs = set (side_groups e s)"
  shows "best_group gs = best_group (side_groups e s)"
proof (cases "gs = []")
  case True
  then show ?thesis using assms by simp
next
  case False
  let ?G = "side_groups e s"
  have ne: "x \<in> set ?G \<Longrightarrow> snd x \<noteq> []" for x using side_groups_iff [of "fst x" "snd x" e s] by auto
  have best: "\<exists>k. best_group hs = side e s k \<and> side e s k \<noteq> []" if hs: "set hs = set ?G" "hs \<noteq> []" for hs
  proof -
    obtain x where x: "x \<in> set hs" using hs(2) by (cases hs) auto
    have "best_group hs \<noteq> []"
      using best_group_props(2) [OF x] ne [of x] x hs(1) by (auto simp: better_group_def)
    then obtain k g where "(k, g) \<in> set hs" "best_group hs = g"
      using best_group_props(1) [of hs] by auto
    then show ?thesis using hs(1) side_groups_iff [of k g e s] by auto
  qed
  obtain j k where j: "best_group gs = side e s j" "side e s j \<noteq> []"
    and k: "best_group ?G = side e s k" "side e s k \<noteq> []"
    using best [of gs] best [of ?G] assms False by (metis set_empty)
  have "(j, side e s j) \<in> set ?G" "(k, side e s k) \<in> set gs"
    using side_groups_iff j k assms by blast+
  then have "\<not> better_group (side e s j) (side e s k)" "\<not> better_group (side e s k) (side e s j)"
    using best_group_props(2) [of "(j, side e s j)" ?G] best_group_props(2) [of "(k, side e s k)" gs] j k by simp_all
  then have "hd (side e s j) = hd (side e s k)"
    using j(2) k(2) by (auto simp: better_group_def not_less order_antisym)
  then show ?thesis using sides_share_no_head [OF j(2) k(2)] j(1) k(1) by simp
qed

lemma best_group_is_side:
  assumes "best_group (side_groups e s) \<noteq> []"
  shows "\<exists>k. best_group (side_groups e s) = side e s k"
proof -
  obtain k g where "(k, g) \<in> set (side_groups e s)" "best_group (side_groups e s) = g"
    using best_group_props(1) [of "side_groups e s"] assms by auto
  then show ?thesis using side_groups_iff by metis
qed

lemma length_filter_disjoint:
  "(\<And>x. P x \<Longrightarrow> \<not> Q x) \<Longrightarrow> length (filter P xs) + length (filter Q xs) \<le> length xs"
proof (induction xs)
  case (Cons x xs)
  then show ?case by (cases "P x"; cases "Q x") simp_all
qed simp

lemma sides_disjoint_length:
  "j \<noteq> k \<Longrightarrow> length (side e s j) + length (side e s k) \<le> length (eshards e ! s)"
  unfolding side_def by (rule length_filter_disjoint) simp

text \<open>
  The side of a partition that may lead is well defined and there is at most one.  When the
  engine finds a majority side, it is all the live replicas of one side of the partition, it reaches
  the quorum, no other side does, and the answer does not depend on the order in which Go's map of
  sides is traversed.
\<close>

theorem majority_side_unique:
  assumes "int (length (eshards e ! s)) = NodesPerShard (ecfg e)" and "majorityGroup e s = (grp, True)"
  shows "(\<exists>k. grp = side e s k \<and> Quorum (ecfg e) \<le> int (length grp)
            \<and> (\<forall>j. j \<noteq> k \<longrightarrow> int (length (side e s j)) < Quorum (ecfg e)))
    \<and> (\<forall>gs. set gs = set (side_groups e s) \<longrightarrow> best_group gs = grp)"
proof -
  have grp: "best_group (side_groups e s) = grp" and q: "Quorum (ecfg e) \<le> int (length grp)"
    using assms(2) by (auto simp: majorityGroup_def Let_def)
  have "0 < Quorum (ecfg e)" using assms(1) unfolding Quorum_def by linarith
  then have "grp \<noteq> []" using q by fastforce
  then obtain k where k: "grp = side e s k" using best_group_is_side [of e s] unfolding grp by blast
  have small: "int (length (side e s j)) < Quorum (ecfg e)" if "j \<noteq> k" for j
  proof -
    have "int (length (side e s j)) + int (length grp) \<le> NodesPerShard (ecfg e)"
      using sides_disjoint_length [OF that, of e s] assms(1) unfolding k by linarith
    then show ?thesis using q unfolding Quorum_def by linarith
  qed
  have "best_group gs = grp" if "set gs = set (side_groups e s)" for gs
    using best_group_order [OF that] grp by (rule trans)
  with k q small show ?thesis by blast
qed

section \<open>The leader a command goes to\<close>

definition claims :: "'r replica_ops \<Rightarrow> 'r engine \<Rightarrow> NodeID \<Rightarrow> NodeInfo option" where
  "claims R e r =
     (case RInfo R r (eworld e) of
        Inl err \<Rightarrow> None
      | Inr i \<Rightarrow> if NIRole i = Role_String Leader then Some i else None)"

lemma claims_Some: "claims R e r = Some i \<longleftrightarrow> RInfo R r (eworld e) = Inr i \<and> NIRole i = Role_String Leader"
  by (auto simp: claims_def split: sum.splits)

lemma claimant_claims:
  "claimant R e r best =
     (case claims R e r of
        None \<Rightarrow> best
      | Some i \<Rightarrow>
          Some (case best of None \<Rightarrow> (r, i) | Some (b, bi) \<Rightarrow> if NIBallot bi < NIBallot i then (r, i) else (b, bi)))"
  by (auto simp: claimant_def claims_def split: sum.splits option.splits)

text \<open>The loop finds a claimant, one with the highest ballot, exactly if there is one.\<close>

lemma claimant_fold:
  "case fold (claimant R e) grp None of
     None \<Rightarrow> list_all (\<lambda>r. claims R e r = None) grp
   | Some (l, i) \<Rightarrow> l \<in> set grp \<and> claims R e l = Some i
       \<and> list_all (\<lambda>r. case claims R e r of None \<Rightarrow> True | Some j \<Rightarrow> NIBallot j \<le> NIBallot i) grp"
proof (induction grp rule: rev_induct)
  case (snoc r grp)
  define best where "best = fold (claimant R e) grp None"
  have step: "fold (claimant R e) (grp @ [r]) None = claimant R e r best" by (simp add: best_def)
  note IH = snoc [folded best_def]
  show ?case
  proof (cases best)
    case None
    then show ?thesis using IH unfolding step
      by (cases "claims R e r") (auto simp: claimant_claims list_all_iff)
  next
    case (Some b)
    obtain l i where b: "b = (l, i)" by fastforce
    show ?thesis using IH Some b unfolding step
      by (cases "claims R e r") (auto simp: claimant_claims list_all_iff split: option.splits)
  qed
qed simp

text \<open>
  C22: a command is only ever sent to a replica that can lead.  The leader the engine finds is alive,
  reports itself as leader, belongs to the one side of the partition that holds a quorum of the
  shard, and no replica of that side reports itself leader under a higher ballot: a leader cut
  off in a minority is never chosen, not even before it notices.
\<close>

theorem leaderOf_sound:
  assumes "leaderOf R e s = Some (l, i)"
  shows "alive e l \<and> RInfo R l (eworld e) = Inr i \<and> NIRole i = Role_String Leader
    \<and> Quorum (ecfg e) \<le> int (length (side e s (GroupOf (efaults e) l))) \<and> l \<in> set (side e s (GroupOf (efaults e) l))
    \<and> (\<forall>r \<in> set (side e s (GroupOf (efaults e) l)). \<forall>j.
         RInfo R r (eworld e) = Inr j \<and> NIRole j = Role_String Leader \<longrightarrow> NIBallot j \<le> NIBallot i)"
proof -
  obtain grp where g: "majorityGroup e s = (grp, True)" "fold (claimant R e) grp None = Some (l, i)"
    using assms by (auto simp: leaderOf_def split: prod.splits if_splits)
  have c: "l \<in> set grp" "claims R e l = Some i"
    "list_all (\<lambda>r. case claims R e r of None \<Rightarrow> True | Some j \<Rightarrow> NIBallot j \<le> NIBallot i) grp"
    using claimant_fold [of R e grp] g(2) by simp_all
  have q: "Quorum (ecfg e) \<le> int (length grp)" and b: "best_group (side_groups e s) = grp"
    using g(1) by (auto simp: majorityGroup_def Let_def)
  have "grp \<noteq> []" using c(1) by auto
  then obtain k where k: "grp = side e s k" using best_group_is_side [of e s] unfolding b by blast
  have l: "GroupOf (efaults e) l = k" "alive e l" using c(1) unfolding k by (simp_all add: side_def)
  have "NIBallot j \<le> NIBallot i" if "r \<in> set grp" "RInfo R r (eworld e) = Inr j" "NIRole j = Role_String Leader" for r j
    using c(3) that claims_Some [of R e r j] by (auto simp: list_all_iff)
  then show ?thesis using c(1,2) claims_Some [of R e l i] q l(2) unfolding l(1) k [symmetric] by blast
qed

section \<open>A small cluster\<close>

text \<open>One shard of three replicas that report fixed states; the first leads.\<close>

definition wit_info :: "NodeID \<Rightarrow> NodeInfo" where
  "wit_info r = (unreachable_info r)\<lparr>NIRole := if r = ''s0n0'' then ''leader'' else ''follower'', NIBallot := Ballot 1 ''s0n0''\<rparr>"

definition wit_ops :: "unit replica_ops" where
  "wit_ops =
     \<lparr>RPropose = (\<lambda>f r c w. ((w, []), Inr (valued 7))), RInfo = (\<lambda>r w. Inr (wit_info r)),
      RCampaign = (\<lambda>f r w. (w, [])), RSleep = (\<lambda>f w. ((w, []), False)), RPush = None, RDrain = None,
      settlePolls = 0, leaderPolls = 0, catchupPolls = 1\<rparr>"

definition wit_engine :: "unit engine" where
  "wit_engine =
     newEngine \<lparr>Shards = 1, NodesPerShard = 3, MaxKeysPerShard = 0, Timing = DefaultTiming\<rparr> NewFaults
       [[''s0n0'', ''s0n1'', ''s0n2'']] ()"

theorem majority_side_unique_witness:
  "(\<exists>k. [''s0n0'', ''s0n1'', ''s0n2''] = side wit_engine 0 k)
   \<and> best_group [(0, [''s0n0'', ''s0n1'', ''s0n2''])] = [''s0n0'', ''s0n1'', ''s0n2'']"
proof -
  have "majorityGroup wit_engine 0 = ([''s0n0'', ''s0n1'', ''s0n2''], True)"
    "side_groups wit_engine 0 = [(0, [''s0n0'', ''s0n1'', ''s0n2''])]"
    "int (length (eshards wit_engine ! 0)) = NodesPerShard (ecfg wit_engine)" by code_simp+
  then show ?thesis using majority_side_unique [of wit_engine 0] by fastforce
qed

theorem leaderOf_sound_witness:
  "alive wit_engine ''s0n0'' \<and> Quorum (ecfg wit_engine) \<le> int (length (side wit_engine 0 0))"
proof -
  have "leaderOf wit_ops wit_engine 0 = Some (''s0n0'', wit_info ''s0n0'')" by code_simp
  moreover have "GroupOf (efaults wit_engine) ''s0n0'' = 0" by code_simp
  ultimately show ?thesis using leaderOf_sound [of wit_ops wit_engine 0 "''s0n0''" "wit_info ''s0n0''"] by simp
qed

section \<open>The fault table under the operator's commands\<close>

named_theorems keeps_faults \<open>operations that leave the fault table alone\<close>

lemma emit_faults [keeps_faults]:
  "efaults (emitEvent ev e) = efaults e" "efaults (engine_emit l t m e) = efaults e"
  "efaults (trace_edge l t a b k m e) = efaults e" "efaults (count_ack n s e) = efaults e"
  "efaults (snapshot R e) = efaults e"
  by (simp_all add: engine_emit_def trace_edge_def emitEvent_def count_ack_def snapshot_def Let_def)

lemma emit_groups_faults [keeps_faults]: "efaults (emit_groups i gs e) = efaults e"
  by (induction i gs e rule: emit_groups.induct) (simp_all add: keeps_faults)

lemma onTrace_faults [keeps_faults]: "efaults (onTrace t e) = efaults e"
  by (cases "Kind (TReq t)") (simp_all add: onTrace_def Let_def keeps_faults)

lemma fold_onTrace_faults [keeps_faults]: "efaults (fold onTrace ts e) = efaults e"
  by (induction ts arbitrary: e) (simp_all add: keeps_faults)

lemma collectTraces_faults [keeps_faults]: "efaults (collectTraces R e) = efaults e"
  by (simp add: collectTraces_def keeps_faults split: option.splits prod.splits)

lemma poll_role_faults [keeps_faults]: "efaults (snd (poll_role s i acc)) = efaults (snd acc)"
  by (cases acc) (simp add: poll_role_def Let_def keeps_faults)

lemma fold_poll_faults [keeps_faults]: "efaults (snd (fold (poll_role s) is acc)) = efaults (snd acc)"
  by (induction "is" arbitrary: acc) (simp_all add: keeps_faults)

lemma pollRoles_faults [keeps_faults]: "efaults (pollRoles R e) = efaults e"
proof -
  have "efaults (snd (fold (\<lambda>s acc. fold (poll_role s) (infos R (snd acc) s) acc) ss acc)) = efaults (snd acc)"
    for ss and acc :: "bool \<times> 'a engine"
    by (induction ss arbitrary: acc) (simp_all add: keeps_faults)
  note this [of "[0..<length (eshards e)]" "(False, e)"]
  then show ?thesis unfolding pollRoles_def pollRolesLocked_def
    by (cases "fold (\<lambda>s acc. fold (poll_role s) (infos R (snd acc) s) acc) [0..<length (eshards e)] (False, e)")
      (simp add: keeps_faults)
qed

lemma flush_faults [keeps_faults]: "efaults (flush R e) = efaults e"
  by (simp add: flush_def keeps_faults)

lemma run_faults [keeps_faults]:
  "efaults (sleep R e) = efaults e" "efaults (campaign R r e) = efaults e" "efaults (push R e) = efaults e"
  by (simp_all add: sleep_def campaign_def push_def Let_def keeps_faults split: prod.splits option.splits)

lemma awaitSettled_faults [keeps_faults]: "efaults (fst (awaitSettled R n ss e)) = efaults e"
proof (induction n arbitrary: e)
  case 0
  then show ?case by (subst awaitSettled.simps) (simp add: Let_def keeps_faults)
next
  case (Suc n)
  then show ?case by (subst awaitSettled.simps) (simp add: Let_def keeps_faults)
qed

lemma await_then_faults [keeps_faults]:
  "efaults (case awaitSettled R n ss x of (y, True) \<Rightarrow> y | (y, False) \<Rightarrow> engine_emit l t m y) = efaults x"
  using awaitSettled_faults [of R n ss x]
  by (cases "awaitSettled R n ss x"; cases "snd (awaitSettled R n ss x)") (simp_all add: keeps_faults)

lemma engine_elect_faults [keeps_faults]: "efaults (engine_elect R s why e) = efaults e"
  by (cases "majorityGroup e s"; cases "leaderOf R e s") (simp_all add: engine_elect_def Let_def keeps_faults)

lemma catchup_faults [keeps_faults]: "efaults (catchup_wait R n name r s b l li e) = efaults e"
  by (induction R n name r s b l li e rule: catchup_wait.induct)
    (simp_all add: Let_def keeps_faults split: sum.splits)

lemma fold_faults:
  "(\<And>x e. efaults (f x e) = efaults e) \<Longrightarrow> efaults (fold f xs e) = efaults e"
  by (induction xs arbitrary: e) simp_all

lemma partition_shard_faults [keeps_faults]: "efaults (partition_shard R s e) = efaults e"
  by (simp add: partition_shard_def Let_def keeps_faults split: prod.splits option.splits)

lemma fault_command_effects:
  "case Kill R n e of (e', err) \<Rightarrow> if err = None then efaults e' = faults_Kill n (efaults e) else e' = e"
  "case Revive R n e of (e', err) \<Rightarrow> if err = None then efaults e' = faults_Revive n (efaults e) else e' = e"
  "case Partition R gs e of (e', err) \<Rightarrow> if err = None then efaults e' = faults_Partition gs (efaults e) else e' = e"
  "case Heal R e of (e', err) \<Rightarrow> if err = None then efaults e' = faults_Heal (efaults e) else e' = e"
proof -
  show "case Kill R n e of (e', err) \<Rightarrow> if err = None then efaults e' = faults_Kill n (efaults e) else e' = e"
    by (simp add: Kill_def Let_def keeps_faults split: sum.splits prod.splits)
  show "case Revive R n e of (e', err) \<Rightarrow> if err = None then efaults e' = faults_Revive n (efaults e) else e' = e"
    by (simp add: Revive_def Let_def keeps_faults split: sum.splits prod.splits option.splits)
  show "case Partition R gs e of (e', err) \<Rightarrow> if err = None then efaults e' = faults_Partition gs (efaults e) else e' = e"
    by (simp add: Partition_def Let_def keeps_faults fold_faults split: option.splits)
  show "case Heal R e of (e', err) \<Rightarrow> if err = None then efaults e' = faults_Heal (efaults e) else e' = e"
    by (simp add: Heal_def Let_def keeps_faults fold_faults split: option.splits)
qed

text \<open>
  A fault command does to the fault table what its name says and nothing else.  When it reports
  an error the engine is as it was; otherwise the table is the old one with exactly that kill,
  revival, split or healing, whatever elections and waiting the command went through.
\<close>

theorem fault_commands:
  "(case Kill R n e of (e', err) \<Rightarrow> if err = None then efaults e' = faults_Kill n (efaults e) else e' = e)
   \<and> (case Revive R n e of (e', err) \<Rightarrow> if err = None then efaults e' = faults_Revive n (efaults e) else e' = e)
   \<and> (case Partition R gs e of (e', err) \<Rightarrow> if err = None then efaults e' = faults_Partition gs (efaults e) else e' = e)
   \<and> (case Heal R e of (e', err) \<Rightarrow> if err = None then efaults e' = faults_Heal (efaults e) else e' = e)"
  by (intro conjI fault_command_effects)

text \<open>
  C23: but a replica can be named in more than one way, and only one of them kills it.  Reading the
  name accepts leading zeros and signs, and the command then marks the name as typed: killing
  \<^verbatim>\<open>s00n0\<close> finds the live replica \<^verbatim>\<open>s0n0\<close>, reports success, and leaves that replica alive and leading.
\<close>

theorem kill_misses_alias:
  "case Kill wit_ops ''s00n0'' wit_engine of
     (e, err) \<Rightarrow> err = None \<and> replica e ''s00n0'' = Inr (''s0n0'', 0) \<and> alive e ''s0n0''
       \<and> leaderOf wit_ops e 0 = Some (''s0n0'', wit_info ''s0n0'')"
  by code_simp

section \<open>Local and remote proposals\<close>




end
