(* ===== verification/ControlPlane.thy ===== *)
theory ControlPlane
  imports Complex_Main Commands EngineSafety
begin

text \<open>
  The control plane a browser talks to, from \<^verbatim>\<open>src/internal/gateway\<close>: the rate limiter
  (\<^verbatim>\<open>limits.go\<close>), the wire frames (\<^verbatim>\<open>protocol.go\<close>), one session with its outbox, its commands and
  its read loop (\<^verbatim>\<open>session.go\<close>), and the cap on concurrent sessions (\<^verbatim>\<open>gateway.go\<close>).  The writer
  goroutine and the browser are a schedule: how many frames are taken from the outbox before each
  frame is offered, and how many more while an offer waits for room.
\<close>

section \<open>The rate limiter\<close>

text \<open>
  Numbers are \<^verbatim>\<open>float64\<close> in the code: \<open>fl\<close> rounds the exact result of each operation.  Times are
  nanoseconds of the monotonic clock.
\<close>

record rateLimiter =
  tokens :: rat
  burst :: rat
  rate :: rat
  lastTime :: int

definition commandsPerSecond :: rat where
  "commandsPerSecond = 10"

definition commandBurst :: rat where
  "commandBurst = 20"

definition newRateLimiter :: "rat \<Rightarrow> rat \<Rightarrow> int \<Rightarrow> rateLimiter" where
  "newRateLimiter r b clk = \<lparr>tokens = b, burst = b, rate = r, lastTime = clk\<rparr>"

text \<open>\<^verbatim>\<open>Duration.Seconds\<close>: whole seconds plus the rest over \<open>1e9\<close>.\<close>

definition seconds :: "(rat \<Rightarrow> rat) \<Rightarrow> int \<Rightarrow> rat" where
  "seconds fl d = fl (fl (of_int (d div 1000000000)) + fl (fl (of_int (d mod 1000000000)) / 1000000000))"

definition allow :: "(rat \<Rightarrow> rat) \<Rightarrow> int \<Rightarrow> rateLimiter \<Rightarrow> rateLimiter \<times> bool" where
  "allow fl clk r =
     (let t = fl (tokens r + fl (seconds fl (clk - lastTime r) * rate r));
          t1 = (if t > burst r then burst r else t);
          r1 = r\<lparr>tokens := t1, lastTime := clk\<rparr>
      in if t1 < 1 then (r1, False) else (r1\<lparr>tokens := fl (t1 - 1)\<rparr>, True))"

section \<open>Frames\<close>

record logFrame =
  LLevel :: string
  LTag :: string
  LMsg :: string
  LFrom :: string
  LTo :: string
  LKind :: string

record nodeState =
  NdID :: string
  NdAlive :: bool
  NdRole :: string
  NdApplied :: slot

record shardState =
  ShShard :: nat
  ShLeader :: string
  ShTerm :: nat
  ShQuorum :: int
  ShNodes :: "nodeState list"

record accountState =
  AcKey :: string
  AcShard :: nat
  AcBalance :: i64
  AcLockedBy :: string

record stateFrame =
  SfShards :: "shardState list"
  SfPartitions :: "string list list"
  SfAccounts :: "accountState list"

datatype frame = LogFrame logFrame | StateFrame stateFrame | ResultFrame string

definition newLogFrame :: "Event \<Rightarrow> frame" where
  "newLogFrame ev =
     LogFrame \<lparr>LLevel = level_string (if Valid (ELevel ev) then ELevel ev else InfoLevel),
       LTag = ETag ev, LMsg = EMsg ev, LFrom = EFrom ev, LTo = ETo ev, LKind = EKind ev\<rparr>"

definition newStateFrame :: "Status \<Rightarrow> frame" where
  "newStateFrame st =
     StateFrame \<lparr>SfShards = map (\<lambda>sh. \<lparr>ShShard = SSShard sh, ShLeader = SSLeader sh, ShTerm = SSTerm sh,
         ShQuorum = SSQuorum sh, ShNodes = map (\<lambda>n. \<lparr>NdID = NSID n, NdAlive = NSAlive n, NdRole = NSRole n,
           NdApplied = NSApplied n\<rparr>) (SSNodes sh)\<rparr>) (StShards st),
       SfPartitions = StPartitions st,
       SfAccounts = map (\<lambda>a. \<lparr>AcKey = ASKey a, AcShard = ASShard a, AcBalance = ASBalance a,
         AcLockedBy = ASLockedBy a\<rparr>) (StAccounts st)\<rparr>"

definition newResultFrame :: "string \<Rightarrow> frame" where
  "newResultFrame msg = ResultFrame msg"

section \<open>A session's outbox\<close>

definition outboxSize :: nat where
  "outboxSize = 512"

text \<open>
  \<open>ssched n\<close> is what the writer does around the \<open>n\<close>-th offer: the frames it takes before, and the
  frames it takes in the two seconds an offer that finds the outbox full may wait.
\<close>

record 'r session =
  scluster :: "'r cluster"
  sowned :: bool
  sout :: "frame list"
  sdropped :: nat
  ssent :: "frame list"
  soffers :: nat
  ssched :: "nat \<Rightarrow> nat \<times> nat"

definition newSession :: "'r cluster \<Rightarrow> bool \<Rightarrow> (nat \<Rightarrow> nat \<times> nat) \<Rightarrow> 'r session" where
  "newSession ce own sched =
     \<lparr>scluster = ce, sowned = own, sout = [], sdropped = 0, ssent = [], soffers = 0, ssched = sched\<rparr>"

text \<open>The writer takes up to \<open>k\<close> frames, oldest first.\<close>

definition writer_takes :: "nat \<Rightarrow> 'r session \<Rightarrow> 'r session" where
  "writer_takes k s = s\<lparr>ssent := ssent s @ take k (sout s), sout := drop k (sout s)\<rparr>"

definition next_offer :: "'r session \<Rightarrow> 'r session" where
  "next_offer s = (writer_takes (fst (ssched s (soffers s))) s)\<lparr>soffers := Suc (soffers s)\<rparr>"

text \<open>\<^verbatim>\<open>select\<close> with a default: the frame is dropped and counted when the outbox is full.\<close>

definition try_offer :: "frame \<Rightarrow> 'r session \<Rightarrow> 'r session" where
  "try_offer f s =
     (let s1 = next_offer s
      in if length (sout s1) < outboxSize then s1\<lparr>sout := sout s1 @ [f]\<rparr>
         else s1\<lparr>sdropped := Suc (sdropped s1)\<rparr>)"

text \<open>\<^verbatim>\<open>select\<close> with a timeout: the frame is given up when there is still no room.\<close>

definition wait_offer :: "frame \<Rightarrow> 'r session \<Rightarrow> 'r session" where
  "wait_offer f s =
     (let s1 = next_offer s;
          s2 = (if length (sout s1) < outboxSize then s1 else writer_takes (snd (ssched s (soffers s))) s1)
      in if length (sout s2) < outboxSize then s2\<lparr>sout := sout s2 @ [f]\<rparr> else s2)"

definition session_Emit :: "Event \<Rightarrow> 'r session \<Rightarrow> 'r session" where
  "session_Emit ev = try_offer (newLogFrame ev)"

definition session_Snapshot :: "Status \<Rightarrow> 'r session \<Rightarrow> 'r session" where
  "session_Snapshot st = try_offer (newStateFrame st)"

definition session_info :: "string \<Rightarrow> string \<Rightarrow> 'r session \<Rightarrow> 'r session" where
  "session_info tag msg = session_Emit (plain_event InfoLevel tag msg)"

definition session_result :: "string \<Rightarrow> 'r session \<Rightarrow> 'r session" where
  "session_result msg = wait_offer (newResultFrame msg)"

text \<open>What the engine emitted while the session was its sink, in order.\<close>

fun receive :: "emission \<Rightarrow> 'r session \<Rightarrow> 'r session" where
  "receive (OutEvent ev) s = session_Emit ev s"
| "receive (OutState st) s = session_Snapshot st s"

definition session_Do :: "'r replica_ops \<Rightarrow> ('r cluster \<Rightarrow> 'r cluster \<times> 'a) \<Rightarrow> 'r session \<Rightarrow> 'r session \<times> 'a" where
  "session_Do R fn s =
     (case scluster s of
        (c, e) \<Rightarrow>
          (case fn (c, e\<lparr>esinkbox := SnapSink\<rparr>) of
             ((c1, e1), a) \<Rightarrow>
               (let e2 = engine_Do R SnapSink id e1
                in (fold receive (eout e2) (s\<lparr>scluster := (c1, e2\<lparr>eout := []\<rparr>)\<rparr>), a))))"

text \<open>\<^verbatim>\<open>Do(Discard, Status)\<close>.\<close>

definition quiet_Status :: "'r replica_ops \<Rightarrow> 'r session \<Rightarrow> 'r session \<times> Status" where
  "quiet_Status R s =
     (case scluster s of
        (c, e) \<Rightarrow>
          (let e0 = e\<lparr>esinkbox := DiscardSink\<rparr>
           in (s\<lparr>scluster := (c, engine_Do R DiscardSink id e0)\<rparr>, engine_Status R e0)))"

definition publishState :: "'r replica_ops \<Rightarrow> 'r session \<Rightarrow> 'r session" where
  "publishState R s = (case quiet_Status R s of (s1, st) \<Rightarrow> wait_offer (newStateFrame st) s1)"

definition greet :: "'r replica_ops \<Rightarrow> 'r session \<Rightarrow> 'r session" where
  "greet R s =
     (let cfg = ecfg (snd (scluster s));
          s1 = session_info ''[gw]''
                 (show_int (Shards cfg) @ '' shards x '' @ show_int (NodesPerShard cfg) @ '' replicas, quorum ''
                  @ show_int (Quorum cfg) @ ''. multi-paxos per shard (internal/paxos), 2pc across shards'') s;
          s2 = (if sowned s1
                then fst (session_Do R (\<lambda>(c, e). ((c, Bootstrap R e), ()))
                       (session_info ''[gw]''
                          ''this cluster is yours alone and resets when you disconnect. electing leaders...'' s1))
                else session_info ''[gw]''
                       ''shared multi-process cluster (grpc transport): every connection drives the same replicas'' s1);
          (s3, st) = quiet_Status R s2;
          led = length (filter (\<lambda>sh. SSLeader sh \<noteq> []) (StShards st))
      in session_result (''OK cluster up, '' @ itoa led @ ''/'' @ itoa (length (StShards st)) @ '' shards led. type help'')
           (session_Snapshot st s3))"

section \<open>Running a command\<close>

definition failure :: "goerror \<Rightarrow> string" where
  "failure err =
     (if list_ex (\<lambda>t. errors_Is err t \<and> \<not> errors_Is err ErrInDoubt)
           [sentinel.ErrNoQuorum, ErrNoLeader, ErrNoSuchKey, ErrLocked, ErrInsufficientFunds, ErrTooManyKeys]
      then ''ABORT '' @ Error err else ''ERROR '' @ Error err)"

definition status_line :: "ShardStatus \<Rightarrow> Event" where
  "status_line sh =
     plain_event LeaderLevel (ShardTag (int (SSShard sh)))
       (''leader='' @ (if SSLeader sh = [] then ''none'' else SSLeader sh) @ '' term='' @ itoa (SSTerm sh)
        @ '' alive='' @ itoa (SSAlive sh) @ ''/'' @ show_int (SSTotal sh) @ '' needs='' @ show_int (SSQuorum sh) @ ''  ''
        @ Join '' '' (map (\<lambda>n. (if NSID n = SSLeader sh then ''*'' else []) @ NSID n @ '':''
            @ (if NSAlive n then ''up'' else ''DOWN'')) (SSNodes sh)))"

definition account_line :: "AccountStatus \<Rightarrow> Event" where
  "account_line a =
     plain_event InfoLevel (ShardTag (int (ASShard a)))
       (ASKey a @ '' = '' @ show_i64 (ASBalance a)
        @ (if ASLockedBy a \<noteq> [] then ''  (locked by '' @ ASLockedBy a @ '')'' else [])
        @ (if ASStale a then ''  (last known: shard has no leader)'' else []))"

text \<open>
  \<^verbatim>\<open>status\<close>: its lines go to the session's outbox, which is the engine's sink while it runs.
\<close>

definition session_status :: "'r replica_ops \<Rightarrow> 'r engine \<Rightarrow> 'r engine \<times> string" where
  "session_status R e =
     (let st = engine_Status R e;
          lines = map status_line (StShards st)
            @ (if StPartitions st \<noteq> []
               then [plain_event NetLevel ''[net]'' (''partitioned: ''
                       @ Join '' | '' (map (\<lambda>g. ''{'' @ Join '' '' g @ ''}'') (StPartitions st)))] else [])
            @ (if StAccounts st = [] then [plain_event InfoLevel ''[keys]'' ''no accounts yet, try: put tushar 100''] else [])
            @ map account_line (StAccounts st)
      in (fold emitEvent lines e,
          ''OK '' @ itoa (length (StShards st)) @ '' shards, ''
          @ itoa (length (filter (\<lambda>sh. SSLeader sh \<noteq> []) (StShards st))) @ '' writable, ''
          @ itoa (length (StAccounts st)) @ '' accounts''))"

definition reply :: "goerror option \<Rightarrow> string \<Rightarrow> string" where
  "reply err done_msg = (case err of Some er \<Rightarrow> failure er | None \<Rightarrow> done_msg)"

fun execute_verb :: "'r replica_ops \<Rightarrow> verb \<Rightarrow> command \<Rightarrow> 'r cluster \<Rightarrow> 'r cluster \<times> string" where
  "execute_verb R verbStatus cmd (c, e) = (case session_status R e of (e1, m) \<Rightarrow> ((c, e1), m))"
| "execute_verb R verbDatastore cmd (c, e) =
     (let lines = Datastore R e
      in ((c, fold (\<lambda>l. emitEvent (plain_event PaxosLevel ''[log]'' l)) lines e), ''OK '' @ itoa (length lines) @ '' replicas''))"
| "execute_verb R verbPut cmd (c, e) =
     (case engine_Put R (CKey cmd) (CValue cmd) e of
        (e1, err) \<Rightarrow> ((c, e1), reply err (''OK '' @ CKey cmd @ ''='' @ show_i64 (CValue cmd) @ '' on s''
           @ show_int (ShardFor (CKey cmd) (Shards (ecfg e))))))"
| "execute_verb R verbGet cmd (c, e) =
     (case engine_Get R (CKey cmd) e of
        (e1, Inl err) \<Rightarrow> ((c, e1), failure err)
      | (e1, Inr v) \<Rightarrow> ((c, e1), ''OK '' @ CKey cmd @ ''='' @ show_i64 v))"
| "execute_verb R verbTransfer cmd ce =
     (case engine_Transfer R (CFrom cmd) (CTo cmd) (CValue cmd) ce of
        (ce1, err) \<Rightarrow> (ce1, reply err (''OK moved '' @ show_i64 (CValue cmd) @ '' from '' @ CFrom cmd @ '' to '' @ CTo cmd)))"
| "execute_verb R verbKill cmd (c, e) =
     (case Kill R (CNode cmd) e of (e1, err) \<Rightarrow> ((c, e1), reply err (''OK '' @ CNode cmd @ '' is down'')))"
| "execute_verb R verbRevive cmd (c, e) =
     (case Revive R (CNode cmd) e of (e1, err) \<Rightarrow> ((c, e1), reply err (''OK '' @ CNode cmd @ '' is up'')))"
| "execute_verb R verbPartition cmd (c, e) =
     (case Partition R (CGroups cmd) e of
        (e1, err) \<Rightarrow> ((c, e1), reply err (''OK network split into '' @ itoa (length (CGroups cmd)) @ '' groups'')))"
| "execute_verb R verbHeal cmd (c, e) =
     (case Heal R e of (e1, err) \<Rightarrow> ((c, e1), reply err ''OK partitions removed''))"
| "execute_verb R v cmd ce = (ce, ''ERROR unknown command'')"

definition execute :: "'r replica_ops \<Rightarrow> command \<Rightarrow> 'r cluster \<Rightarrow> 'r cluster \<times> string" where
  "execute R cmd = execute_verb R (Verb cmd) cmd"

definition helpText :: string where
  "helpText = Join [CHR 0x0A]
     [''commands:'',
      ''  status                      leaders, terms, liveness, and where each key lives'',
      ''  datastore                   every replica's balances and log tail, side by side'',
      ''  put <key> <val>             Paxos write on the key's shard'',
      ''  get <key>                   linearizable read, served through the shard's log'',
      ''  transfer <from> <to> <amt>  2PC across shards, single round if same shard'',
      ''  kill <node>                 fail a node (e.g. kill s0n1); re-election if leader'',
      ''  revive <node>               bring it back and let it rejoin'',
      ''  partition <ids> | <ids>     split the network; unlisted nodes form one more group'',
      ''  heal                        remove all partitions'',
      ''  clear                       clear the screen'',
      ''  demo                        run the guided tour (client-side)'',
      ''  help                        this list'']"

definition dispatch :: "'r replica_ops \<Rightarrow> string \<Rightarrow> 'r session \<Rightarrow> 'r session" where
  "dispatch R line s =
     (case parse line of
        Inl err \<Rightarrow> session_result (if errors_Is err errEmpty then [] else ''ERROR '' @ Error err) s
      | Inr cmd \<Rightarrow>
          if Verb cmd = verbClear \<or> Verb cmd = verbDemo then session_result [] s
          else if Verb cmd = verbHelp then
            session_result ''OK'' (fold (session_info []) (Split CHR 0x0A helpText) s)
          else
            (let s1 = session_Emit (plain_event ClientLevel ''[you]'' (TrimSpace line)) s;
                 (s2, res) = session_Do R (execute R cmd) s1
             in session_result res (publishState R s2)))"

text \<open>
  One turn of \<^verbatim>\<open>readLoop\<close>: what the read returned and when.  The second component is the way the
  loop ends, if it does; a command runs to completion before the next read.
\<close>

datatype read_outcome = Frame string | ReadIdle | HungUp | Cancelled

definition read_step :: "(string \<Rightarrow> string option) \<Rightarrow> (rat \<Rightarrow> rat) \<Rightarrow> 'r replica_ops \<Rightarrow> read_outcome \<Rightarrow> int \<Rightarrow>
    rateLimiter \<times> 'r session \<Rightarrow> (rateLimiter \<times> 'r session) \<times> bool" where
  "read_step unmarshal fl R r clk ls =
     (case ls of
        (l, s) \<Rightarrow>
          (case r of
             Cancelled \<Rightarrow> ((l, s), True)
           | HungUp \<Rightarrow> ((l, s), True)
           | ReadIdle \<Rightarrow> ((l, session_result ''ABORT idle for too long, closing the connection'' s), True)
           | Frame raw \<Rightarrow>
               (case unmarshal raw of
                  None \<Rightarrow> ((l, session_result (''ERROR expected a JSON object of the form {'' @ [CHR 0x22] @ ''cmd'' @ [CHR 0x22]
                             @ '': '' @ [CHR 0x22] @ ''...'' @ [CHR 0x22] @ ''}'') s), False)
                | Some cmd \<Rightarrow>
                    (case allow fl clk l of
                       (l1, False) \<Rightarrow> ((l1, session_result ''ERROR slow down: too many commands per second'' s), False)
                     | (l1, True) \<Rightarrow> ((l1, dispatch R cmd s), False)))))"

fun readLoop :: "(string \<Rightarrow> string option) \<Rightarrow> (rat \<Rightarrow> rat) \<Rightarrow> 'r replica_ops \<Rightarrow> (read_outcome \<times> int) list \<Rightarrow>
    rateLimiter \<times> 'r session \<Rightarrow> rateLimiter \<times> 'r session" where
  "readLoop unmarshal fl R [] ls = ls"
| "readLoop unmarshal fl R ((r, clk) # rs) ls =
     (case read_step unmarshal fl R r clk ls of
        (ls1, True) \<Rightarrow> ls1
      | (ls1, False) \<Rightarrow> readLoop unmarshal fl R rs ls1)"

section \<open>The limiter's bound\<close>

fun allows :: "(rat \<Rightarrow> rat) \<Rightarrow> int list \<Rightarrow> rateLimiter \<Rightarrow> rateLimiter \<times> bool list" where
  "allows fl [] r = (r, [])"
| "allows fl (t # ts) r =
     (case allow fl t r of (r1, ok) \<Rightarrow> (case allows fl ts r1 of (r2, oks) \<Rightarrow> (r2, ok # oks)))"

lemma allow_bound:
  assumes "mono fl" and "\<And>n. \<bar>n\<bar> \<le> 2 ^ 53 \<Longrightarrow> fl (of_int n) = of_int n"
    and "tokens r \<le> of_int b" and "0 \<le> b" and "b \<le> 20" and "burst r = 20" and "lastTime r = t \<or> b = 20"
    and "allow fl t r = (r1, ok)"
  shows "burst r1 = 20 \<and> lastTime r1 = t \<and> tokens r1 \<le> of_int (if ok then b - 1 else b) \<and> (ok \<longrightarrow> 1 \<le> b)"
proof -
  have fl_le: "x \<le> of_int n \<Longrightarrow> \<bar>n\<bar> \<le> 2 ^ 53 \<Longrightarrow> fl x \<le> of_int n" for x n
    using monoD [OF assms(1), of x "of_int n"] assms(2) [of n] by simp
  define x where "x = fl (tokens r + fl (seconds fl (t - lastTime r) * rate r))"
  define y where "y = (if x > burst r then burst r else x)"
  have "y \<le> of_int b"
  proof (cases "b = 20")
    case False
    have "fl 0 = 0" using assms(2) [of 0] by simp
    then have "x = fl (tokens r)" using False assms(7) by (simp add: x_def seconds_def)
    then have "x \<le> of_int b" using fl_le [OF assms(3)] assms(4,5) by simp
    moreover have "(of_int b :: rat) \<le> 20" using assms(5) by simp
    ultimately show ?thesis using assms(6) by (auto simp: y_def)
  qed (use assms(6) in \<open>auto simp: y_def\<close>)
  moreover have "(r1, ok) = (if y < 1 then (r\<lparr>tokens := y, lastTime := t\<rparr>, False)
      else (r\<lparr>tokens := fl (y - 1), lastTime := t\<rparr>, True))"
    using assms(8) by (auto simp: allow_def Let_def x_def y_def split: if_splits)
  moreover have "fl (y - 1) \<le> of_int (b - 1)" using calculation(1) assms(4,5) by (intro fl_le) simp_all
  ultimately show ?thesis using assms(6) by (auto split: if_splits)
qed

lemma allows_ok:
  assumes "mono fl" and "\<And>n. \<bar>n\<bar> \<le> 2 ^ 53 \<Longrightarrow> fl (of_int n) = of_int n"
    and "tokens r \<le> 20" and "burst r = 20"
  shows "tokens (fst (allows fl ts r)) \<le> 20 \<and> burst (fst (allows fl ts r)) = 20"
  using assms(3,4)
proof (induction ts arbitrary: r)
  case (Cons t ts)
  obtain r1 ok where a: "allow fl t r = (r1, ok)" by fastforce
  have "tokens r1 \<le> 20" "burst r1 = 20"
    using allow_bound [OF assms(1,2) _ _ _ _ _ a, of 20] Cons.prems by (auto split: if_splits)
  from Cons.IH [OF this] show ?case using a by (auto split: prod.splits)
qed simp

lemma allows_instant:
  assumes "mono fl" and "\<And>n. \<bar>n\<bar> \<le> 2 ^ 53 \<Longrightarrow> fl (of_int n) = of_int n"
    and "tokens r \<le> of_int b" and "0 \<le> b" and "b \<le> 20" and "burst r = 20" and "lastTime r = t \<or> b = 20"
  shows "int (count_list (snd (allows fl (replicate n t) r)) True) \<le> b"
  using assms(3-7)
proof (induction n arbitrary: r b)
  case (Suc n)
  obtain r1 ok where a: "allow fl t r = (r1, ok)" by fastforce
  let ?b = "if ok then b - 1 else b"
  have "tokens r1 \<le> of_int ?b" "0 \<le> ?b" "burst r1 = 20" "lastTime r1 = t \<or> ?b = 20"
    using allow_bound [OF assms(1,2) Suc.prems a] Suc.prems(2) by auto
  then have "int (count_list (snd (allows fl (replicate n t) r1)) True) \<le> ?b"
    using Suc.prems(3) by (intro Suc.IH) auto
  then show ?case using a by (auto split: prod.splits if_splits)
qed simp

text \<open>
  C30: whatever the earlier traffic and however \<^verbatim>\<open>float64\<close> rounds, as long as it is monotone and exact on
  integers of up to 53 bits, a browser that sends any number of commands at one instant gets at most
  20 of them through.
\<close>

theorem limiter_burst:
  assumes "mono fl" and "\<And>n. \<bar>n\<bar> \<le> 2 ^ 53 \<Longrightarrow> fl (of_int n) = of_int n"
  shows "let r = fst (allows fl ts (newRateLimiter commandsPerSecond commandBurst start))
         in count_list (snd (allows fl (replicate n t) r)) True \<le> 20"
proof -
  let ?r = "fst (allows fl ts (newRateLimiter commandsPerSecond commandBurst start))"
  have "tokens ?r \<le> 20" "burst ?r = 20"
    using allows_ok [OF assms] by (simp_all add: newRateLimiter_def commandBurst_def)
  then have "int (count_list (snd (allows fl (replicate n t) ?r)) True) \<le> 20"
    by (intro allows_instant [OF assms]) simp_all
  then show ?thesis by (simp add: Let_def)
qed

theorem limiter_burst_witness:
  "count_list (snd (allows id (replicate 30 7) (newRateLimiter commandsPerSecond commandBurst 0))) True \<le> 20"
  using limiter_burst [of id "[]" 0 30 7] by (simp add: mono_def Let_def)

section \<open>One result for each line\<close>

fun is_result :: "frame \<Rightarrow> bool" where
  "is_result (ResultFrame m) = True"
| "is_result _ = False"

text \<open>Every frame the outbox took, in order: the writer has sent a prefix of it.\<close>

definition delivered :: "'r session \<Rightarrow> frame list" where
  "delivered s = ssent s @ sout s"

text \<open>The outbox is within its bound and the writer takes a frame within any two seconds.\<close>

definition session_ok :: "'r session \<Rightarrow> bool" where
  "session_ok s \<longleftrightarrow> length (sout s) \<le> outboxSize \<and> (\<forall>n. 1 \<le> snd (ssched s n))"

definition quietly :: "'r session \<Rightarrow> 'r session \<Rightarrow> bool" where
  "quietly s s' \<longleftrightarrow> (session_ok s \<longrightarrow> session_ok s')
     \<and> (\<exists>fs. delivered s' = delivered s @ fs \<and> list_all (\<lambda>f. \<not> is_result f) fs)"

lemma quietly_refl [simp]: "quietly s s"
  by (auto simp: quietly_def)

lemma quietly_trans: "quietly s t \<Longrightarrow> quietly t u \<Longrightarrow> quietly s u"
  unfolding quietly_def by (metis append.assoc list_all_append)

lemma delivered_takes [simp]: "delivered (writer_takes k s) = delivered s" "delivered (next_offer s) = delivered s"
  by (simp_all add: delivered_def writer_takes_def next_offer_def)

lemma session_ok_takes [simp]: "session_ok s \<Longrightarrow> session_ok (writer_takes k s)" "session_ok s \<Longrightarrow> session_ok (next_offer s)"
  by (auto simp: session_ok_def writer_takes_def next_offer_def)

lemma append_frame:
  "length (sout s) < outboxSize \<Longrightarrow> session_ok s \<Longrightarrow>
     session_ok (s\<lparr>sout := sout s @ [f]\<rparr>)"
  "delivered (s\<lparr>sout := sout s @ [f]\<rparr>) = delivered s @ [f]"
  by (auto simp: session_ok_def delivered_def)

lemma count_dropped [simp]:
  "session_ok (s\<lparr>sdropped := d\<rparr>) = session_ok s" "delivered (s\<lparr>sdropped := d\<rparr>) = delivered s"
  by (simp_all add: session_ok_def delivered_def)

lemma try_offer_quietly:
  assumes "\<not> is_result f"
  shows "quietly s (try_offer f s)"
  using assms session_ok_takes(2) [of s] append_frame [of "next_offer s" f]
  by (auto simp: quietly_def try_offer_def Let_def)

lemma wait_offer_delivers:
  assumes "session_ok s"
  shows "session_ok (wait_offer f s) \<and> delivered (wait_offer f s) = delivered s @ [f]"
proof -
  define s1 where "s1 = next_offer s"
  define s2 where "s2 = (if length (sout s1) < outboxSize then s1 else writer_takes (snd (ssched s (soffers s))) s1)"
  have s1: "session_ok s1" "delivered s1 = delivered s" using assms by (simp_all add: s1_def)
  have "1 \<le> snd (ssched s (soffers s))" "length (sout s1) \<le> outboxSize" using assms s1(1) by (simp_all add: session_ok_def)
  then have l: "length (sout s2) < outboxSize" by (auto simp: s2_def writer_takes_def outboxSize_def)
  have s2: "session_ok s2" "delivered s2 = delivered s" using s1 by (simp_all add: s2_def)
  have "wait_offer f s = s2\<lparr>sout := sout s2 @ [f]\<rparr>" using l
    unfolding wait_offer_def Let_def s1_def [symmetric] s2_def [symmetric] by simp
  then show ?thesis using append_frame [of s2 f] l s2 by simp
qed

lemma receive_quietly: "quietly s (receive em s)"
  by (cases em) (simp_all add: session_Emit_def session_Snapshot_def newLogFrame_def newStateFrame_def try_offer_quietly)

lemma fold_quietly: "(\<And>x s. quietly s (f x s)) \<Longrightarrow> quietly s (fold f xs s)"
  by (induction xs arbitrary: s) (auto intro: quietly_trans)

lemma cluster_quietly [simp]: "quietly s (s\<lparr>scluster := ce\<rparr>)"
  by (simp add: quietly_def session_ok_def delivered_def)

lemma Emit_quietly: "quietly s (session_Emit ev s)"
  by (simp add: session_Emit_def newLogFrame_def try_offer_quietly)

lemma info_quietly: "quietly s (session_info tag m s)"
  by (simp add: session_info_def Emit_quietly)

lemma Do_quietly: "quietly s (fst (session_Do R fn s))"
  by (auto simp: session_Do_def Let_def split: prod.splits
      intro: quietly_trans [OF cluster_quietly fold_quietly] receive_quietly)

lemma Status_quietly: "quietly s (fst (quiet_Status R s))"
  by (simp add: quiet_Status_def Let_def split: prod.splits)

text \<open>A result ends what came before it.\<close>

definition answered :: "'r session \<Rightarrow> 'r session \<Rightarrow> bool" where
  "answered s s' \<longleftrightarrow> session_ok s' \<and> (\<exists>fs m. delivered s' = delivered s @ fs @ [ResultFrame m]
     \<and> list_all (\<lambda>f. \<not> is_result f) fs)"

lemma result_answers: "session_ok s \<Longrightarrow> quietly s t \<Longrightarrow> answered s (session_result m t)"
  unfolding answered_def quietly_def session_result_def newResultFrame_def
  using wait_offer_delivers [of t "ResultFrame m"] by fastforce

lemma publish_quietly: "session_ok s \<Longrightarrow> quietly s (publishState R s)"
proof -
  assume ok: "session_ok s"
  obtain t st where t: "quiet_Status R s = (t, st)" by fastforce
  then have q: "quietly s t" using Status_quietly [of s R] by simp
  then have "session_ok t" using ok by (simp add: quietly_def)
  from wait_offer_delivers [OF this, of "newStateFrame st"]
  have "quietly t (wait_offer (newStateFrame st) t)" by (auto simp: quietly_def newStateFrame_def)
  then show ?thesis using q t by (auto simp: publishState_def intro: quietly_trans)
qed

lemma dispatch_answers:
  assumes "session_ok s"
  shows "answered s (dispatch R line s)"
proof (cases "parse line")
  case (Inr cmd)
  define s1 where "s1 = session_Emit (plain_event ClientLevel ''[you]'' (TrimSpace line)) s"
  obtain s2 res where d: "session_Do R (execute R cmd) s1 = (s2, res)" by fastforce
  have q: "quietly s s2"
    using quietly_trans [OF Emit_quietly Do_quietly] d unfolding s1_def by (metis fst_conv)
  then have "session_ok s2" using assms by (simp add: quietly_def)
  then have "quietly s (publishState R s2)" using q publish_quietly quietly_trans by blast
  then have "answered s (session_result res (publishState R s2))" by (rule result_answers [OF assms])
  moreover have "answered s (session_result ''OK'' (fold (session_info []) (Split CHR 0x0A helpText) s))"
    by (rule result_answers [OF assms fold_quietly]) (rule info_quietly)
  moreover have "answered s (session_result [] s)" by (rule result_answers [OF assms quietly_refl])
  ultimately show ?thesis using Inr d by (simp add: dispatch_def s1_def)
qed (simp add: dispatch_def result_answers assms)

lemma Snapshot_quietly: "quietly s (session_Snapshot st s)"
  by (simp add: session_Snapshot_def newStateFrame_def try_offer_quietly)

lemma greet_answers:
  assumes "session_ok s"
  shows "answered s (greet R s)"
  unfolding greet_def Let_def case_prod_beta
proof (rule result_answers [OF assms], rule quietly_trans [OF quietly_trans [OF _ Status_quietly] Snapshot_quietly])
  fix g m m' m'' and fn :: "'a cluster \<Rightarrow> 'a cluster \<times> unit"
  let ?s = "session_info g m s"
  have "quietly s (fst (session_Do R fn (session_info g m' ?s)))" "quietly s (session_info g m'' ?s)"
    by (rule quietly_trans [OF quietly_trans [OF info_quietly info_quietly] Do_quietly],
        rule quietly_trans [OF info_quietly info_quietly])
  then show "quietly s (if sowned ?s then fst (session_Do R fn (session_info g m' ?s)) else session_info g m'' ?s)"
    by (cases "sowned ?s") simp_all
qed

lemma read_answers:
  assumes "session_ok s" and "read_step um fl R (Frame raw) t (l, s) = ((l', s'), ended)"
  shows "answered s s' \<and> \<not> ended"
  using assms(2) result_answers [OF assms(1) quietly_refl] dispatch_answers [OF assms(1)]
  by (auto simp: read_step_def split: option.splits prod.splits bool.splits)

lemma answered_counts:
  "answered s t \<Longrightarrow> length (filter is_result (delivered t)) = Suc (length (filter is_result (delivered s)))
     \<and> delivered t \<noteq> [] \<and> is_result (last (delivered t)) \<and> session_ok t"
  by (auto simp: answered_def filter_empty_conv list_all_iff)

lemma readLoop_answers:
  "session_ok s \<Longrightarrow> delivered s \<noteq> [] \<Longrightarrow> is_result (last (delivered s)) \<Longrightarrow>
   readLoop um fl R (map (\<lambda>(raw, t). (Frame raw, t)) rs) (l, s) = (l', s') \<Longrightarrow>
     length (filter is_result (delivered s')) = length (filter is_result (delivered s)) + length rs
     \<and> is_result (last (delivered s')) \<and> session_ok s'"
proof (induction rs arbitrary: l s)
  case (Cons x rs)
  obtain raw t where x: "x = (raw, t)" by fastforce
  obtain l1 s1 ended where st: "read_step um fl R (Frame raw) t (l, s) = ((l1, s1), ended)" by (metis surj_pair)
  note a = read_answers [OF Cons.prems(1) st]
  have "readLoop um fl R (map (\<lambda>(raw, t). (Frame raw, t)) rs) (l1, s1) = (l', s')"
    using Cons.prems(4) x st a by simp
  with answered_counts [of s s1] a Cons.IH [of s1 l1] show ?case by simp
qed simp

text \<open>
  C27: exactly one result for each line.  As long as the writer takes a frame within any two seconds,
  a session that has read \<open>n\<close> frames, whatever they hold, has queued exactly \<open>n + 1\<close> results, the
  greeting's first; the last frame queued is a result, so every log and state frame of a command
  comes before the result that ends it; and the outbox never exceeds its bound.
\<close>

theorem one_result_per_line:
  assumes "\<forall>n. 1 \<le> snd (sched n)"
    and "readLoop um fl R (map (\<lambda>(raw, t). (Frame raw, t)) rs) (l, greet R (newSession ce own sched)) = (l', s')"
  shows "length (filter is_result (delivered s')) = Suc (length rs) \<and> is_result (last (delivered s'))
    \<and> length (sout s') \<le> outboxSize"
proof -
  have "session_ok (newSession ce own sched)" using assms(1) by (simp add: session_ok_def newSession_def)
  from answered_counts [OF greet_answers [OF this, of R]] readLoop_answers [OF _ _ _ assms(2)]
  show ?thesis by (simp add: delivered_def newSession_def session_ok_def)
qed

theorem one_result_per_line_witness:
  "case readLoop Some id wit_ops (map (\<lambda>(raw, t). (Frame raw, t)) [(''status'', 0), (''put a'', 0)])
          (newRateLimiter commandsPerSecond commandBurst 0,
           greet wit_ops (newSession (coordinator_New emitEvent, wit_engine) True (\<lambda>_. (0, 1)))) of
     (l', s') \<Rightarrow> length (filter is_result (delivered s')) = 3 \<and> is_result (last (delivered s'))"
  using one_result_per_line [of "\<lambda>_. (0, 1)" Some id wit_ops "[(''status'', 0), (''put a'', 0)]"
      "newRateLimiter commandsPerSecond commandBurst 0" "(coordinator_New emitEvent, wit_engine)" True]
  by (auto simp del: readLoop.simps list.map(2) split: prod.splits)

section \<open>A partition command, from the line to the network\<close>

lemma groups_ok_disjoint:
  assumes "distinct (concat gs)"
  shows "disjoint_groups gs"
proof -
  have "m < n \<Longrightarrow> n < length gs \<Longrightarrow> set (gs ! m) \<inter> set (gs ! n) = {}" for m n
    using assms
  proof (induction gs arbitrary: m n)
    case (Cons g gs)
    then obtain k where n: "n = Suc k" "k < length gs" by (cases n) auto
    show ?case
    proof (cases m)
      case 0
      have "set (gs ! k) \<subseteq> \<Union> (set ` set gs)" using n nth_mem [of k gs] by blast
      then show ?thesis using Cons.prems(3) 0 n by auto
    next
      case (Suc j)
      then show ?thesis using Cons.IH [of j k] Cons.prems n by simp
    qed
  qed simp
  then show ?thesis unfolding disjoint_groups_def by (metis inf_commute linorder_neqE_nat)
qed

text \<open>
  C28: a partition does what its line says.  When a line parses to a partition and the command is
  answered without error, two replicas that are up can exchange messages exactly when one of the
  groups typed lists both or none lists either.
\<close>

theorem partition_line:
  assumes "parse line = Inr c" and "Verb c = verbPartition"
    and "Partition R (CGroups c) e = (e', None)" and "alive e a" and "alive e b"
  shows "Check (efaults e') a b = None \<longleftrightarrow>
    (\<exists>g \<in> set (CGroups c). a \<in> set g \<and> b \<in> set g) \<or> (\<forall>g \<in> set (CGroups c). a \<notin> set g \<and> b \<notin> set g)"
proof -
  have "groups_ok (CGroups c)" using parse_ok [OF assms(1)] assms(2) by (simp add: command_ok_def)
  then have "disjoint_groups (CGroups c)" "CGroups c \<noteq> []" by (auto simp: groups_ok_def intro: groups_ok_disjoint)
  moreover have "efaults e' = faults_Partition (CGroups c) (efaults e)"
    using fault_command_effects(3) [where R = R and gs = "CGroups c" and e = e] assms(3) by simp
  ultimately show ?thesis
    using partition_sides [of "CGroups c" "efaults e" a b] assms(4,5) by (simp add: Let_def alive_def)
qed

theorem partition_line_witness:
  "case Partition wit_ops [[''s0n0''], [''s0n1'', ''s0n2'']] wit_engine of
     (e, err) \<Rightarrow> Check (efaults e) ''s0n0'' ''s0n1'' \<noteq> None \<and> Check (efaults e) ''s0n1'' ''s0n2'' = None"
proof -
  let ?c = "(new_command verbPartition)\<lparr>CGroups := [[''s0n0''], [''s0n1'', ''s0n2'']]\<rparr>"
  obtain e err where p: "Partition wit_ops [[''s0n0''], [''s0n1'', ''s0n2'']] wit_engine = (e, err)" by fastforce
  have "snd (Partition wit_ops [[''s0n0''], [''s0n1'', ''s0n2'']] wit_engine) = None" by code_simp
  then have n: "err = None" using p by simp
  have l: "parse ''partition s0n0 | s0n1 s0n2'' = Inr ?c" by code_simp
  have v: "Verb ?c = verbPartition" "CGroups ?c = [[''s0n0''], [''s0n1'', ''s0n2'']]" by (simp_all add: new_command_def)
  have a: "alive wit_engine ''s0n0''" "alive wit_engine ''s0n1''" "alive wit_engine ''s0n2''" by code_simp+
  show ?thesis
    using partition_line [OF l v(1), of wit_ops wit_engine e "''s0n0''" "''s0n1''"]
      partition_line [OF l v(1), of wit_ops wit_engine e "''s0n1''" "''s0n2''"] a p n unfolding v(2) by simp
qed

section \<open>Concurrent sessions\<close>

definition maxSessions :: int where
  "maxSessions = 32"

text \<open>\<^verbatim>\<open>New\<close>: which of the two ways to get a cluster is set, and the cap.\<close>

definition gateway_New :: "bool \<Rightarrow> bool \<Rightarrow> int \<Rightarrow> goerror + int" where
  "gateway_New hasNewCluster hasShared cap =
     (if hasNewCluster = hasShared
      then Inl (errors_New ''gateway: set exactly one of NewCluster and Shared'')
      else Inr (if cap \<le> 0 then maxSessions else cap))"

text \<open>
  The requests to \<^verbatim>\<open>/ws\<close>, each in its own goroutine: counted with what \<^verbatim>\<open>sessions.Add(1)\<close> returned,
  serving, or refusing.  Every way out of the handler gives the count back.
\<close>

datatype ws_phase = Counted int | Serving | Refusing

record gateway =
  sessions :: int
  requests :: "nat \<rightharpoonup> ws_phase"

definition idle_gateway :: gateway where
  "idle_gateway = \<lparr>sessions = 0, requests = Map.empty\<rparr>"

inductive handleWS :: "int \<Rightarrow> gateway \<Rightarrow> gateway \<Rightarrow> bool" for cap where
  ws_count: "requests g i = None \<Longrightarrow>
    handleWS cap g \<lparr>sessions = sessions g + 1, requests = (requests g)(i \<mapsto> Counted (sessions g + 1))\<rparr>"
| ws_admit: "requests g i = Some (Counted n) \<Longrightarrow> n \<le> cap \<Longrightarrow>
    handleWS cap g (g\<lparr>requests := (requests g)(i \<mapsto> Serving)\<rparr>)"
| ws_refuse: "requests g i = Some (Counted n) \<Longrightarrow> n > cap \<Longrightarrow>
    handleWS cap g (g\<lparr>requests := (requests g)(i \<mapsto> Refusing)\<rparr>)"
| ws_leave: "requests g i = Some Serving \<or> requests g i = Some Refusing \<Longrightarrow>
    handleWS cap g \<lparr>sessions = sessions g - 1, requests = (requests g)(i := None)\<rparr>"

text \<open>The requests that have a place: served, or counted within the cap.\<close>

fun placed :: "int \<Rightarrow> ws_phase option \<Rightarrow> bool" where
  "placed cap (Some (Counted n)) \<longleftrightarrow> n \<le> cap"
| "placed cap (Some Serving) \<longleftrightarrow> True"
| "placed cap _ \<longleftrightarrow> False"

definition gateway_ok :: "int \<Rightarrow> gateway \<Rightarrow> bool" where
  "gateway_ok cap g \<longleftrightarrow> finite (dom (requests g)) \<and> sessions g = int (card (dom (requests g)))
     \<and> int (card {i. placed cap (requests g i)}) \<le> cap"

lemma placed_dom: "{i. placed cap (m i)} \<subseteq> dom m"
proof
  fix i
  assume "i \<in> {i. placed cap (m i)}"
  then show "i \<in> dom m" by (cases "m i") auto
qed

lemma gateway_ok_step:
  assumes "handleWS cap g g'" and "gateway_ok cap g"
  shows "gateway_ok cap g'"
proof -
  have fin: "finite (dom (requests g))" and cnt: "sessions g = int (card (dom (requests g)))"
    and le: "int (card {i. placed cap (requests g i)}) \<le> cap" using assms(2) by (simp_all add: gateway_ok_def)
  note finp = finite_subset [OF placed_dom fin, of cap]
  have sub: "{j. placed cap (requests g' j)} \<subseteq> {j. placed cap (requests g j)} \<Longrightarrow>
      int (card {j. placed cap (requests g' j)}) \<le> cap"
    using card_mono [OF finp, of "{j. placed cap (requests g' j)}"] le by linarith
  from assms(1) show ?thesis
  proof cases
    case (ws_count i)
    have dom: "card (dom (requests g')) = Suc (card (dom (requests g)))" "finite (dom (requests g'))"
      using ws_count fin by (simp_all add: card_insert_if domIff)
    have "int (card {j. placed cap (requests g' j)}) \<le> cap"
    proof (cases "sessions g + 1 \<le> cap")
      case True
      then show ?thesis using card_mono [OF dom(2) placed_dom, of cap] dom(1) cnt by linarith
    next
      case False
      then show ?thesis using ws_count by (intro sub) (auto split: if_splits)
    qed
    then show ?thesis using dom cnt ws_count by (simp add: gateway_ok_def)
  next
    case (ws_admit i n)
    then have "dom (requests g') = dom (requests g)" by auto
    moreover have "int (card {j. placed cap (requests g' j)}) \<le> cap"
      using ws_admit by (intro sub) (auto split: if_splits)
    ultimately show ?thesis using ws_admit fin cnt by (simp add: gateway_ok_def)
  next
    case (ws_refuse i n)
    then have "dom (requests g') = dom (requests g)" by auto
    moreover have "int (card {j. placed cap (requests g' j)}) \<le> cap"
      using ws_refuse by (intro sub) (auto split: if_splits)
    ultimately show ?thesis using ws_refuse fin cnt by (simp add: gateway_ok_def)
  next
    case (ws_leave i)
    then have d: "dom (requests g') = dom (requests g) - {i}" "i \<in> dom (requests g)" by auto
    then have "0 < card (dom (requests g))" using fin by (auto simp: card_gt_0_iff)
    then have "int (card (dom (requests g'))) = int (card (dom (requests g))) - 1" using fin d by (simp add: card_Diff_singleton)
    moreover have "int (card {j. placed cap (requests g' j)}) \<le> cap"
      using ws_leave by (intro sub) (auto split: if_splits)
    ultimately show ?thesis using ws_leave fin cnt by (simp add: gateway_ok_def)
  qed
qed

text \<open>
  C29: the cap holds under every interleaving.  Requests count themselves, look at what they got and
  give the count back in any order; yet never more sessions are served than the cap that \<^verbatim>\<open>New\<close>
  settled on, and the counter is exactly the number of requests inside the handler, so it is zero
  again when all have left.
\<close>

theorem session_cap:
  assumes "gateway_New hasNewCluster hasShared n = Inr cap" and "(handleWS cap)\<^sup>*\<^sup>* idle_gateway g"
  shows "int (card {i. requests g i = Some Serving}) \<le> cap \<and> sessions g = int (card (dom (requests g)))"
proof -
  have "0 \<le> cap" using assms(1) by (auto simp: gateway_New_def maxSessions_def split: if_splits)
  then have "gateway_ok cap idle_gateway" by (simp add: gateway_ok_def idle_gateway_def)
  with assms(2) have ok: "gateway_ok cap g" by (induction rule: rtranclp_induct) (auto intro: gateway_ok_step)
  have "card {i. requests g i = Some Serving} \<le> card {i. placed cap (requests g i)}"
    using ok finite_subset [OF placed_dom, of "requests g" cap]
    by (intro card_mono) (auto simp: gateway_ok_def)
  then show ?thesis using ok by (simp add: gateway_ok_def)
qed

theorem session_cap_witness:
  "let g = \<lparr>sessions = 1, requests = [0 \<mapsto> Serving]\<rparr>
   in (handleWS 32)\<^sup>*\<^sup>* idle_gateway g \<and> int (card {i. requests g i = Some Serving}) \<le> 32"
proof -
  let ?g1 = "\<lparr>sessions = 1, requests = [0 \<mapsto> Counted 1]\<rparr>" and ?g = "\<lparr>sessions = 1, requests = [0 \<mapsto> Serving]\<rparr>"
  have "handleWS 32 idle_gateway ?g1" using ws_count [of idle_gateway 0 32] by (simp add: idle_gateway_def)
  moreover have "handleWS 32 ?g1 ?g" using ws_admit [of ?g1 0 1 32] by simp
  ultimately have r: "(handleWS 32)\<^sup>*\<^sup>* idle_gateway ?g" by auto
  have "gateway_New True False 0 = Inr 32" by (simp add: gateway_New_def maxSessions_def)
  from session_cap [OF this r] r show ?thesis by (simp add: Let_def)
qed

end
