(* ===== verification/Money.thy ===== *)
theory Money
  imports Complex_Main GoErrors
begin

text \<open>
  Money as the banks keep it, a \<^verbatim>\<open>float64\<close>, and the status codes of gRPC.  A \<^verbatim>\<open>float64\<close> is a rational,
  an infinity or a NaN; the sign of zero is not kept.  Rounding to a \<^verbatim>\<open>float64\<close> and \<^verbatim>\<open>ParseFloat\<close> are
  parameters, with what the code relies on as a hypothesis; formatting to two decimals is defined.
\<close>

datatype float64 = Finite rat | PosInf | NegInf | NaN

record floats =
  rounded :: "rat \<Rightarrow> float64"
  ParseFloat :: "string \<Rightarrow> goerror + float64"

fun f_add :: "floats \<Rightarrow> float64 \<Rightarrow> float64 \<Rightarrow> float64" where
  "f_add F NaN y = NaN"
| "f_add F x NaN = NaN"
| "f_add F PosInf y = (if y = NegInf then NaN else PosInf)"
| "f_add F NegInf y = (if y = PosInf then NaN else NegInf)"
| "f_add F (Finite a) PosInf = PosInf"
| "f_add F (Finite a) NegInf = NegInf"
| "f_add F (Finite a) (Finite b) = rounded F (a + b)"

fun f_neg :: "float64 \<Rightarrow> float64" where
  "f_neg (Finite a) = Finite (- a)"
| "f_neg PosInf = NegInf"
| "f_neg NegInf = PosInf"
| "f_neg NaN = NaN"

definition f_sub :: "floats \<Rightarrow> float64 \<Rightarrow> float64 \<Rightarrow> float64" where
  "f_sub F x y = f_add F x (f_neg y)"

text \<open>Comparisons: every one with a NaN is false, also \<open>==\<close>.\<close>

fun f_less :: "float64 \<Rightarrow> float64 \<Rightarrow> bool" where
  "f_less (Finite a) (Finite b) \<longleftrightarrow> a < b"
| "f_less NegInf y \<longleftrightarrow> y = PosInf \<or> (\<exists>b. y = Finite b)"
| "f_less (Finite a) y \<longleftrightarrow> y = PosInf"
| "f_less x y \<longleftrightarrow> False"

definition f_eq :: "float64 \<Rightarrow> float64 \<Rightarrow> bool" where
  "f_eq x y \<longleftrightarrow> x = y \<and> x \<noteq> NaN"

definition f_le :: "float64 \<Rightarrow> float64 \<Rightarrow> bool" where
  "f_le x y \<longleftrightarrow> f_less x y \<or> f_eq x y"

lemma f_less_NegInf_code [code]:
  "f_less NegInf y = (case y of PosInf \<Rightarrow> True | Finite b \<Rightarrow> True | _ \<Rightarrow> False)"
  "f_less (Finite a) (Finite b) = (a < b)" "f_less (Finite a) PosInf = True" "f_less (Finite a) NegInf = False"
  "f_less (Finite a) NaN = False" "f_less PosInf y = False" "f_less NaN y = False"
  by (simp_all split: float64.splits)

section \<open>Two decimals\<close>

definition round_half_even :: "rat \<Rightarrow> int" where
  "round_half_even q =
     (let f = \<lfloor>q\<rfloor>; d = q - of_int f
      in if d < 1 / 2 then f else if d > 1 / 2 then f + 1 else if even f then f else f + 1)"

text \<open>\<^verbatim>\<open>FormatFloat(x, 'f', 2, 64)\<close>, which is also \<^verbatim>\<open>%.2f\<close>: the exact value rounded half to even.\<close>

fun fmt2 :: "float64 \<Rightarrow> string" where
  "fmt2 NaN = ''NaN''"
| "fmt2 PosInf = ''+Inf''"
| "fmt2 NegInf = ''-Inf''"
| "fmt2 (Finite x) =
     (let n = nat (round_half_even (100 * \<bar>x\<bar>))
      in (if x < 0 then ''-'' else []) @ itoa (n div 100) @ ''.'' @ itoa (n mod 100 div 10) @ itoa (n mod 10))"

text \<open>The value that is left in the file.\<close>

definition cents :: "rat \<Rightarrow> rat" where
  "cents x = (if x < 0 then - 1 else 1) * of_int (round_half_even (100 * \<bar>x\<bar>)) / 100"

lemma round_half_even_int [simp]: "round_half_even (of_int n) = n"
  by (simp add: round_half_even_def Let_def)

lemma cents_int [simp]: "cents (of_int n) = of_int n"
proof -
  have "round_half_even (100 * \<bar>of_int n :: rat\<bar>) = 100 * \<bar>n\<bar>"
    using round_half_even_int [of "100 * \<bar>n\<bar>"] by simp
  then show ?thesis by (simp add: cents_def)
qed

text \<open>
  What the code relies on: integers of 53 bits are \<^verbatim>\<open>float64\<close>s, and a number of at most 53 bits
  written with two decimals is read back as the \<^verbatim>\<open>float64\<close> nearest to those decimals.
\<close>

definition floats_ok :: "floats \<Rightarrow> bool" where
  "floats_ok F \<longleftrightarrow> (\<forall>n :: int. \<bar>n\<bar> \<le> 2 ^ 53 \<longrightarrow> rounded F (of_int n) = Finite (of_int n))
     \<and> (\<forall>x. \<bar>x\<bar> \<le> 2 ^ 53 \<longrightarrow> ParseFloat F (fmt2 (Finite x)) = Inr (rounded F (cents x)))"

text \<open>Whole units within 53 bits.\<close>

definition units :: "int \<Rightarrow> float64" where
  "units n = Finite (of_int n)"

definition fits :: "int \<Rightarrow> bool" where
  "fits n \<longleftrightarrow> \<bar>n\<bar> \<le> 2 ^ 53"

lemma units_inject [simp]: "units m = units n \<longleftrightarrow> m = n" "units n \<noteq> NaN" "f_eq (units m) (units n) \<longleftrightarrow> m = n"
  by (simp_all add: units_def f_eq_def)

lemma units_compare [simp]:
  "f_less (units m) (units n) \<longleftrightarrow> m < n" "f_le (units m) (units n) \<longleftrightarrow> m \<le> n"
  by (auto simp: units_def f_le_def f_eq_def)

lemma f_le_zero [simp]: "f_le (units m) (Finite 0) \<longleftrightarrow> m \<le> 0"
  using units_compare(2) [of m 0] by (simp add: units_def)

lemma f_neg_units [simp]: "f_neg (units n) = units (- n)"
  by (simp add: units_def)

lemma f_add_units [simp]:
  assumes "floats_ok F" and "fits (m + n)"
  shows "f_add F (units m) (units n) = units (m + n)"
proof -
  have "rounded F (of_int (m + n)) = Finite (of_int (m + n))"
    using assms unfolding floats_ok_def fits_def by blast
  then show ?thesis by (simp add: units_def)
qed

lemma f_sub_units [simp]: "floats_ok F \<Longrightarrow> fits (m - n) \<Longrightarrow> f_sub F (units m) (units n) = units (m - n)"
  by (simp add: f_sub_def)

lemma parse_units [simp]:
  assumes "floats_ok F" and "fits n"
  shows "ParseFloat F (fmt2 (units n)) = Inr (units n)"
proof -
  have "\<bar>of_int n :: rat\<bar> \<le> 2 ^ 53"
    using assms(2) of_int_le_iff [of "\<bar>n\<bar>" "2 ^ 53", where 'a = rat] by (simp add: fits_def)
  then have "ParseFloat F (fmt2 (Finite (of_int n))) = Inr (rounded F (cents (of_int n)))"
    using assms(1) unfolding floats_ok_def by blast
  moreover have "rounded F (of_int n) = Finite (of_int n)" using assms unfolding floats_ok_def fits_def by blast
  ultimately show ?thesis by (simp add: units_def del: fmt2.simps)
qed

section \<open>Arithmetic that rounds nothing\<close>

text \<open>
  A concrete instance for evaluation: exact sums, and \<^verbatim>\<open>ParseFloat\<close> on what \<open>fmt2\<close> writes.
\<close>

definition cut_point :: "string \<Rightarrow> string \<times> string" where
  "cut_point s = (takeWhile (\<lambda>c. c \<noteq> CHR ''.'') s, drop 1 (dropWhile (\<lambda>c. c \<noteq> CHR ''.'') s))"

definition parse_exact :: "string \<Rightarrow> float64 option" where
  "parse_exact s =
     (let (neg, t) = (case s of c # cs \<Rightarrow> if c = CHR ''-'' then (True, cs) else (False, s) | [] \<Rightarrow> (False, []));
          (a, b) = cut_point t
      in case (digits_val 0 a, digits_val 0 b) of
           (Some m, Some n) \<Rightarrow>
             Some (Finite ((if neg then - 1 else 1) * (of_nat m + of_nat n / 10 ^ length b)))
         | _ \<Rightarrow> None)"

definition exact_floats :: floats where
  "exact_floats =
     \<lparr>rounded = Finite,
      ParseFloat = (\<lambda>s. case parse_exact s of
        Some x \<Rightarrow> Inr x
      | None \<Rightarrow> Inl (errors_New (''strconv.ParseFloat: parsing '' @ quote s @ '': invalid syntax'')))\<rparr>"

lemma itoa_digit: "n < 10 \<Longrightarrow> itoa n = [digit n]"
  by (subst itoa.simps) simp

lemma digit_not_point: "d < 10 \<Longrightarrow> digit d \<noteq> CHR ''.'' \<and> digit d \<noteq> CHR ''-''"
proof -
  assume "d < 10"
  then have "of_char (digit d) \<noteq> (46 :: nat)" "of_char (digit d) \<noteq> (45 :: nat)" using of_char_digit by simp_all
  then show ?thesis by auto
qed

lemma itoa_no_point: "CHR ''.'' \<notin> set (itoa n)"
proof (induction n rule: itoa.induct)
  case (1 n)
  have "digit (n mod 10) \<noteq> CHR ''.''" "n < 10 \<Longrightarrow> digit n \<noteq> CHR ''.''" using digit_not_point by simp_all
  then show ?case using 1 by (subst itoa.simps) auto
qed

lemma cut_point_itoa: "cut_point (itoa n @ CHR ''.'' # t) = (itoa n, t)"
proof -
  have p: "\<forall>c \<in> set (itoa n). c \<noteq> CHR ''.''" using itoa_no_point by metis
  then have "takeWhile (\<lambda>c. c \<noteq> CHR ''.'') (itoa n @ CHR ''.'' # t) = itoa n"
    "dropWhile (\<lambda>c. c \<noteq> CHR ''.'') (itoa n @ CHR ''.'' # t) = CHR ''.'' # t"
    by (simp_all add: takeWhile_append2 dropWhile_append2)
  then show ?thesis by (simp add: cut_point_def)
qed

lemma parse_exact_neg:
  "cut_point t = (a, b) \<Longrightarrow> digits_val 0 a = Some m \<Longrightarrow> digits_val 0 b = Some n \<Longrightarrow>
   parse_exact (CHR ''-'' # t) = Some (Finite (- (of_nat m + of_nat n / 10 ^ length b)))"
  by (simp add: parse_exact_def)

lemma parse_exact_pos:
  "cut_point (c # t) = (a, b) \<Longrightarrow> c \<noteq> CHR ''-'' \<Longrightarrow> digits_val 0 a = Some m \<Longrightarrow> digits_val 0 b = Some n \<Longrightarrow>
   parse_exact (c # t) = Some (Finite (of_nat m + of_nat n / 10 ^ length b))"
  by (simp add: parse_exact_def)

lemma two_digits:
  "i < 10 \<Longrightarrow> j < 10 \<Longrightarrow> digits_val 0 (itoa i @ itoa j) = Some (10 * i + j) \<and> length (itoa i @ itoa j) = 2"
  by (simp add: itoa_digit)

lemma two_decimals:
  "digits_val 0 (itoa (n mod 100 div 10) @ itoa (n mod 10)) = Some (n mod 100)
   \<and> length (itoa (n mod 100 div 10) @ itoa (n mod 10)) = 2"
proof -
  define m where "m = n mod 100"
  have "m mod 10 = n mod 10" unfolding m_def by (rule mod_mod_cancel) simp
  then have "10 * (m div 10) + n mod 10 = m" using mult_div_mod_eq [of 10 m] by simp
  moreover have "m < 10 * 10" by (simp add: m_def)
  then have "m div 10 < 10" by (rule less_mult_imp_div_less)
  moreover have "n mod 10 < 10" by simp
  ultimately show ?thesis using two_digits [of "m div 10" "n mod 10"] unfolding m_def [symmetric] by metis
qed

lemma hundredths: "of_nat (n div 100) + of_nat (n mod 100) / 10 ^ 2 = (of_nat n / 100 :: rat)"
proof -
  have "(of_nat n :: rat) = of_nat (100 * (n div 100) + n mod 100)" by simp
  then show ?thesis by (simp only: of_nat_add of_nat_mult) (simp add: field_simps)
qed

lemma parse_exact_fmt2: "parse_exact (fmt2 (Finite x)) = Some (Finite (cents x))"
proof -
  define n where "n = nat (round_half_even (100 * \<bar>x\<bar>))"
  have "0 \<le> round_half_even (100 * \<bar>x\<bar>)" by (simp add: round_half_even_def Let_def)
  then have n: "of_int (round_half_even (100 * \<bar>x\<bar>)) = (of_nat n :: rat)" by (simp add: n_def)
  define b where "b = itoa (n mod 100 div 10) @ itoa (n mod 10)"
  have b: "digits_val 0 b = Some (n mod 100)" "length b = 2" using two_decimals [of n] unfolding b_def by blast+
  obtain d cs where d: "d < 10" "itoa (n div 100) = digit d # cs" using itoa_hd by blast
  have t: "fmt2 (Finite x) = (if x < 0 then ''-'' else []) @ itoa (n div 100) @ CHR ''.'' # b"
    by (simp add: n_def b_def Let_def)
  note c = cut_point_itoa [of "n div 100" b]
  have "parse_exact (CHR ''-'' # itoa (n div 100) @ CHR ''.'' # b) = Some (Finite (- (of_nat n / 100)))"
    using parse_exact_neg [OF c digits_val_itoa b(1)] unfolding b(2) hundredths .
  moreover have "parse_exact (itoa (n div 100) @ CHR ''.'' # b) = Some (Finite (of_nat n / 100))"
    using parse_exact_pos [OF c [unfolded d(2) append_Cons], of "n div 100" "n mod 100"] digit_not_point [OF d(1)]
      digits_val_itoa [of "n div 100"] b(1) unfolding b(2) hundredths d(2) append_Cons by simp
  ultimately show ?thesis unfolding t by (simp add: cents_def n)
qed

lemma exact_floats_ok: "floats_ok exact_floats"
  by (simp add: floats_ok_def exact_floats_def parse_exact_fmt2 del: fmt2.simps)

section \<open>Statuses\<close>

datatype codes =
  GOK | GInvalidArgument | GNotFound | GAlreadyExists | GPermissionDenied | GUnauthenticated
| GFailedPrecondition | GAborted | GUnavailable | GDeadlineExceeded | GResourceExhausted
| GInternal | GDataLoss | GUnimplemented | GUnknown

record gstatus =
  SCode :: codes
  SMessage :: string

definition status_Error :: "codes \<Rightarrow> string \<Rightarrow> gstatus" where
  "status_Error c m = \<lparr>SCode = c, SMessage = m\<rparr>"

end
