(* ===== verification/Accounts.thy ===== *)
theory Accounts
  imports Money
begin

text \<open>
  The account file of a bank, from \<^verbatim>\<open>src/internal/accounts/accounts.go\<close>.  The file is the list of the
  records that \<^verbatim>\<open>encoding/csv\<close> reads from it, one record to a line; a write goes to a temporary file and replaces the file
  in one step, or fails and leaves it.  Each operation takes the error the operating system returns
  for opening or writing, if any.
\<close>

section \<open>The file\<close>

record acct =
  AcctID :: string
  AcctUser :: string
  AcctPass :: string
  AcctBank :: string
  AcctBalance :: float64

record store =
  storePath :: string
  storeFile :: "string list list option"

definition Header :: "string list" where
  "Header = [''AccountId'', ''username'', ''password'', ''bank_name'', ''balance'']"

text \<open>\<^verbatim>\<open>csv.Reader.ReadAll\<close> insists that every record has as many fields as the first.\<close>

fun bad_record :: "nat \<Rightarrow> nat \<Rightarrow> string list list \<Rightarrow> nat option" where
  "bad_record n line [] = None"
| "bad_record n line (r # rs) = (if length r \<noteq> n then Some line else bad_record n (Suc line) rs)"

definition ReadAll :: "string list list \<Rightarrow> goerror + string list list" where
  "ReadAll rows =
     (case rows of
        [] \<Rightarrow> Inr []
      | r # rs \<Rightarrow>
          (case bad_record (length r) 2 rs of
             Some line \<Rightarrow> Inl (errors_New (''record on line '' @ itoa line @ '': wrong number of fields''))
           | None \<Rightarrow> Inr rows))"

fun parse_rows :: "floats \<Rightarrow> string \<Rightarrow> nat \<Rightarrow> string list list \<Rightarrow> goerror + acct list" where
  "parse_rows F path i [] = Inr []"
| "parse_rows F path i (row # rows) =
     (if i = 0 \<or> length row < length Header then parse_rows F path (Suc i) rows
      else case ParseFloat F (row ! 4) of
             Inl err \<Rightarrow>
               Inl (Errorf (path @ '' line '' @ itoa (Suc i) @ '': bad balance '' @ quote (row ! 4) @ '': '') err [])
           | Inr b \<Rightarrow>
               (case parse_rows F path (Suc i) rows of
                  Inl err \<Rightarrow> Inl err
                | Inr as \<Rightarrow>
                    Inr (\<lparr>AcctID = row ! 0, AcctUser = row ! 1, AcctPass = row ! 2, AcctBank = row ! 3,
                          AcctBalance = b\<rparr> # as)))"

definition store_read :: "floats \<Rightarrow> goerror option \<Rightarrow> store \<Rightarrow> goerror + acct list" where
  "store_read F oe s =
     (case oe of
        Some err \<Rightarrow> Inl err
      | None \<Rightarrow>
          (case storeFile s of
             None \<Rightarrow> Inl (errors_New (''open '' @ storePath s @ '': no such file or directory''))
           | Some rows \<Rightarrow>
               (case ReadAll rows of
                  Inl err \<Rightarrow> Inl err
                | Inr rs \<Rightarrow> parse_rows F (storePath s) 0 rs)))"

definition acct_row :: "acct \<Rightarrow> string list" where
  "acct_row a = [AcctID a, AcctUser a, AcctPass a, AcctBank a, fmt2 (AcctBalance a)]"

definition store_write :: "goerror option \<Rightarrow> acct list \<Rightarrow> store \<Rightarrow> store \<times> goerror option" where
  "store_write we as s =
     (case we of
        Some err \<Rightarrow> (s, Some err)
      | None \<Rightarrow> (s\<lparr>storeFile := Some (Header # map acct_row as)\<rparr>, None))"

section \<open>Operations\<close>

definition NewStore :: "goerror option \<Rightarrow> string \<Rightarrow> string list list option \<Rightarrow> goerror + store" where
  "NewStore we path file =
     (let s = \<lparr>storePath = path, storeFile = file\<rparr>
      in case file of
           Some rows \<Rightarrow> Inr s
         | None \<Rightarrow>
             (case store_write we [] s of
                (s1, Some err) \<Rightarrow> Inl (Errorf (''create '' @ path @ '': '') err [])
              | (s1, None) \<Rightarrow> Inr s1))"

definition store_List :: "floats \<Rightarrow> goerror option \<Rightarrow> store \<Rightarrow> goerror + acct list" where
  "store_List F oe s = store_read F oe s"

definition store_Balance :: "floats \<Rightarrow> goerror option \<Rightarrow> string \<Rightarrow> store \<Rightarrow> goerror + float64" where
  "store_Balance F oe i s =
     (case store_read F oe s of
        Inl err \<Rightarrow> Inl err
      | Inr as \<Rightarrow>
          (case find (\<lambda>a. AcctID a = i) as of
             Some a \<Rightarrow> Inr (AcctBalance a)
           | None \<Rightarrow> Inl (the_error ErrNotFound)))"

definition store_Exists :: "floats \<Rightarrow> goerror option \<Rightarrow> string \<Rightarrow> store \<Rightarrow> goerror + bool" where
  "store_Exists F oe i s =
     (case store_Balance F oe i s of
        Inr b \<Rightarrow> Inr True
      | Inl err \<Rightarrow> if errors_Is err ErrNotFound then Inr False else Inl err)"

text \<open>The loop of \<^verbatim>\<open>AddDelta\<close>: the first account with the id.\<close>

fun add_to :: "floats \<Rightarrow> string \<Rightarrow> float64 \<Rightarrow> acct list \<Rightarrow> (acct list \<times> float64) option" where
  "add_to F i d [] = None"
| "add_to F i d (a # as) =
     (if AcctID a = i
      then (let b = f_add F (AcctBalance a) d in Some (a\<lparr>AcctBalance := b\<rparr> # as, b))
      else case add_to F i d as of None \<Rightarrow> None | Some (as1, b) \<Rightarrow> Some (a # as1, b))"

definition AddDelta :: "floats \<Rightarrow> goerror option \<Rightarrow> goerror option \<Rightarrow> string \<Rightarrow> float64 \<Rightarrow> store \<Rightarrow>
    store \<times> (goerror + float64)" where
  "AddDelta F oe we i d s =
     (case store_read F oe s of
        Inl err \<Rightarrow> (s, Inl err)
      | Inr as \<Rightarrow>
          (case add_to F i d as of
             None \<Rightarrow> (s, Inl (the_error ErrNotFound))
           | Some (as1, b) \<Rightarrow>
               (case store_write we as1 s of
                  (s1, Some err) \<Rightarrow> (s1, Inl err)
                | (s1, None) \<Rightarrow> (s1, Inr b))))"

definition store_Create :: "floats \<Rightarrow> goerror option \<Rightarrow> goerror option \<Rightarrow> acct \<Rightarrow> store \<Rightarrow> store \<times> goerror option" where
  "store_Create F oe we a s =
     (case store_read F oe s of
        Inl err \<Rightarrow> (s, Some err)
      | Inr as \<Rightarrow>
          (case find (\<lambda>x. AcctID x = AcctID a) as of
             Some x \<Rightarrow>
               if AcctUser x = AcctUser a \<and> AcctPass x = AcctPass a then (s, None)
               else (s, Some (errors_New (''account '' @ AcctID a @ '' already registered to a different user'')))
           | None \<Rightarrow> store_write we (as @ [a]) s))"

section \<open>Stores in whole units\<close>

text \<open>
  The file holds exactly these accounts, and each balance is a whole number within 53 bits.
\<close>

definition whole :: "acct \<Rightarrow> bool" where
  "whole a \<longleftrightarrow> (\<exists>n. AcctBalance a = units n \<and> fits n)"

definition stored :: "acct list \<Rightarrow> store \<Rightarrow> bool" where
  "stored as s \<longleftrightarrow> storeFile s = Some (Header # map acct_row as) \<and> list_all whole as"

lemma bad_record_None: "list_all (\<lambda>r. length r = n) rs \<Longrightarrow> bad_record n line rs = None"
  by (induction rs arbitrary: line) simp_all

lemma parse_rows_written:
  assumes "floats_ok F" and "list_all whole as"
  shows "parse_rows F path (Suc i) (map acct_row as) = Inr as"
  using assms(2)
proof (induction as arbitrary: i)
  case (Cons a as)
  then obtain n where n: "AcctBalance a = units n" "fits n" by (auto simp: whole_def)
  show ?case using Cons n assms(1) by (simp add: acct_row_def Header_def del: fmt2.simps)
qed simp

lemma read_stored:
  assumes "floats_ok F" and "stored as s"
  shows "store_read F None s = Inr as"
proof -
  have rows: "storeFile s = Some (Header # map acct_row as)" using assms(2) by (simp add: stored_def)
  have "bad_record (length Header) 2 (map acct_row as) = None"
    by (rule bad_record_None) (simp add: list_all_iff acct_row_def Header_def)
  then have "ReadAll (Header # map acct_row as) = Inr (Header # map acct_row as)"
    by (simp add: ReadAll_def)
  then show ?thesis
    using parse_rows_written [OF assms(1), of as "storePath s" 0] assms(2) rows by (simp add: store_read_def stored_def)
qed

lemma write_stored:
  "list_all whole as \<Longrightarrow> \<exists>s1. store_write None as s = (s1, None) \<and> stored as s1 \<and> storePath s1 = storePath s"
  by (simp add: store_write_def stored_def)

text \<open>The balance of an account by its id: the first record counts.\<close>

definition funds_of :: "acct list \<Rightarrow> string \<Rightarrow> int option" where
  "funds_of as i = map_option (\<lambda>a. THE n. AcctBalance a = units n) (find (\<lambda>a. AcctID a = i) as)"

lemma the_units [simp]: "(THE m. units n = units m) = n"
  by simp

lemma funds_of_simps [simp]:
  "funds_of [] i = None"
  "funds_of (a # as) i = (if AcctID a = i then Some (THE n. AcctBalance a = units n) else funds_of as i)"
  by (simp_all add: funds_of_def)

lemma Balance_stored:
  assumes "floats_ok F" and "stored as s"
  shows "store_Balance F None i s =
    (case funds_of as i of Some n \<Rightarrow> Inr (units n) | None \<Rightarrow> Inl (the_error ErrNotFound))"
proof (cases "find (\<lambda>a. AcctID a = i) as")
  case (Some a)
  then have "a \<in> set as" by (auto simp: find_Some_iff)
  then obtain n where "AcctBalance a = units n" using assms(2) by (auto simp: stored_def list_all_iff whole_def)
  then show ?thesis using Some read_stored [OF assms] by (simp add: store_Balance_def funds_of_def)
qed (simp add: store_Balance_def funds_of_def read_stored [OF assms])

lemma add_to_stored:
  assumes "floats_ok F" and "list_all whole as"
  shows "case funds_of as i of
      None \<Rightarrow> add_to F i (units d) as = None
    | Some n \<Rightarrow> fits (n + d) \<longrightarrow> (\<exists>as1. add_to F i (units d) as = Some (as1, units (n + d)) \<and> list_all whole as1
        \<and> (\<forall>j. funds_of as1 j = (if j = i then Some (n + d) else funds_of as j)))"
  using assms(2)
proof (induction as)
  case (Cons a as)
  then obtain m where m: "AcctBalance a = units m" by (auto simp: whole_def)
  show ?case
  proof (cases "AcctID a = i")
    case True
    have "list_all whole as" using Cons.prems by simp
    moreover have "fits (m + d) \<Longrightarrow> whole (a\<lparr>AcctBalance := units (m + d)\<rparr>)" by (auto simp: whole_def)
    ultimately show ?thesis using True m assms(1) by (auto simp: Let_def)
  next
    case False
    then have f: "funds_of (a # as) i = funds_of as i" by simp
    show ?thesis
    proof (cases "funds_of as i")
      case (Some n)
      show ?thesis unfolding f Some option.case
      proof
        assume "fits (n + d)"
        then obtain as1 where as1: "add_to F i (units d) as = Some (as1, units (n + d))" "list_all whole as1"
            "\<And>j. funds_of as1 j = (if j = i then Some (n + d) else funds_of as j)"
          using Cons Some by auto
        have "funds_of (a # as1) j = (if j = i then Some (n + d) else funds_of (a # as) j)" for j
          using as1(3) [of j] False by auto
        then show "\<exists>as1. add_to F i (units d) (a # as) = Some (as1, units (n + d)) \<and> list_all whole as1
            \<and> (\<forall>j. funds_of as1 j = (if j = i then Some (n + d) else funds_of (a # as) j))"
          using as1 False Cons.prems by (intro exI [of _ "a # as1"]) simp
      qed
    qed (use Cons False f in simp)
  qed
qed simp

text \<open>
  Adding to an account changes exactly that account, on disk, and reading it back gives the sum.
\<close>

lemma AddDelta_stored:
  assumes "floats_ok F" and "stored as s" and "funds_of as i = Some n" and "fits (n + d)"
  shows "\<exists>s1 as1. AddDelta F None None i (units d) s = (s1, Inr (units (n + d))) \<and> stored as1 s1
    \<and> (\<forall>j. funds_of as1 j = (if j = i then Some (n + d) else funds_of as j))"
proof -
  obtain as1 where as1: "add_to F i (units d) as = Some (as1, units (n + d))" "list_all whole as1"
      "\<forall>j. funds_of as1 j = (if j = i then Some (n + d) else funds_of as j)"
    using add_to_stored [OF assms(1), of as i d] assms(2-4) by (auto simp: stored_def)
  then show ?thesis using read_stored [OF assms(1,2)] by (auto simp: AddDelta_def store_write_def stored_def)
qed

lemma AddDelta_missing:
  assumes "floats_ok F" and "stored as s" and "funds_of as i = None"
  shows "AddDelta F None None i (units d) s = (s, Inl (the_error ErrNotFound))"
  using add_to_stored [OF assms(1), of as i d] assms read_stored [OF assms(1,2)]
  by (simp add: AddDelta_def stored_def)

section \<open>Fractions of a cent\<close>

lemma half_floors: "\<lfloor>19975 / 2 :: rat\<rfloor> = 9987" "\<lfloor>10075 / 2 :: rat\<rfloor> = 5037"
  by (rule floor_unique; simp)+

lemma cents_written:
  "fmt2 (Finite (799 / 8)) = ''99.88''" "fmt2 (Finite (2497 / 25)) = ''99.88''"
  "fmt2 (Finite (403 / 8)) = ''50.38''" "fmt2 (Finite 50) = ''50.00''"
proof -
  have "round_half_even (100 * \<bar>799 / 8\<bar>) = 9988" "round_half_even (100 * \<bar>403 / 8\<bar>) = 5038"
    "round_half_even (100 * \<bar>2497 / 25\<bar>) = 9988" "round_half_even (100 * \<bar>50\<bar>) = 5000"
    by (simp_all add: round_half_even_def Let_def half_floors)
  moreover have "itoa 99 = ''99''" "itoa 50 = ''50''" "itoa 8 = ''8''" "itoa 3 = ''3''" "itoa 0 = ''0''" by code_simp+
  ultimately show "fmt2 (Finite (799 / 8)) = ''99.88''" "fmt2 (Finite (2497 / 25)) = ''99.88''"
    "fmt2 (Finite (403 / 8)) = ''50.38''" "fmt2 (Finite 50) = ''50.00''"
    unfolding fmt2.simps Let_def by simp_all
qed

lemma cents_read:
  "ParseFloat exact_floats ''100.25'' = Inr (Finite (401 / 4))" "ParseFloat exact_floats ''50.00'' = Inr (Finite 50)"
  "ParseFloat exact_floats ''99.88'' = Inr (Finite (2497 / 25))" "ParseFloat exact_floats ''50.38'' = Inr (Finite (2519 / 50))"
proof -
  have "digits_val 0 ''100'' = Some 100" "digits_val 0 ''25'' = Some 25" "digits_val 0 ''50'' = Some 50"
    "digits_val 0 ''00'' = Some 0" "digits_val 0 ''99'' = Some 99" "digits_val 0 ''88'' = Some 88"
    "digits_val 0 ''38'' = Some 38" by code_simp+
  then show "ParseFloat exact_floats ''100.25'' = Inr (Finite (401 / 4))" "ParseFloat exact_floats ''50.00'' = Inr (Finite 50)"
    "ParseFloat exact_floats ''99.88'' = Inr (Finite (2497 / 25))" "ParseFloat exact_floats ''50.38'' = Inr (Finite (2519 / 50))"
    by (simp_all add: exact_floats_def parse_exact_def cut_point_def)
qed

lemma exact_add: "f_add exact_floats (Finite x) (Finite y) = Finite (x + y)"
  by (simp add: exact_floats_def)

text \<open>
  The file keeps two decimals and nothing restricts an amount to them, so moving a fraction of a
  cent can make money.  With sums that round nothing at all, an account of 100.25 debited by 0.375
  and one of 50.00 credited with it are left at 99.88 and 50.38, a cent more than before.
\<close>

theorem fraction_makes_a_cent:
  "let s = \<lparr>storePath = ''x'', storeFile = Some [Header, [''A'', [], [], [], ''100.25''], [''B'', [], [], [], ''50.00'']]\<rparr>;
       s1 = fst (AddDelta exact_floats None None ''A'' (Finite (- (3 / 8))) s);
       s2 = fst (AddDelta exact_floats None None ''B'' (Finite (3 / 8)) s1)
   in store_Balance exact_floats None ''A'' s2 = Inr (Finite (2497 / 25))
      \<and> store_Balance exact_floats None ''B'' s2 = Inr (Finite (2519 / 50))
      \<and> 2497 / 25 + 2519 / 50 = (10025 / 100 + 50 + 1 / 100 :: rat)"
  by (simp add: Let_def AddDelta_def store_Balance_def store_read_def ReadAll_def store_write_def acct_row_def
      Header_def cents_read cents_written exact_add del: fmt2.simps f_add.simps)

text \<open>
  A record that lost a field, as a torn line would, makes the whole file unreadable: the reader
  refuses it before the loop that would have skipped it.
\<close>

lemma short_record_blocks_file:
  "store_List exact_floats None
     \<lparr>storePath = ''x'', storeFile = Some [Header, [''A'', [], [], [], ''1.00''], [''B'', []]]\<rparr>
   = Inl (errors_New ''record on line 3: wrong number of fields'')"
  by code_simp

end
