(* ===== verification/Bank.thy ===== *)
theory Bank
  imports Accounts
begin

text \<open>
  One replica of a bank, from \<^verbatim>\<open>src/bank\<close>: the transaction ledger (\<^verbatim>\<open>ledger.go\<close>), the participant of
  two-phase commit with its reservations (\<^verbatim>\<open>twopc.go\<close>), the state machine that Paxos drives
  (\<^verbatim>\<open>statemachine.go\<close>), the gRPC handlers (\<^verbatim>\<open>service.go\<close>) and the up/down switch (\<^verbatim>\<open>health.go\<close>).
  Each call takes what the operating system and the runtime decide: errors of the files, and the
  order in which Go ranges over the map of reservations.
\<close>

section \<open>The ledger\<close>

record ledger =
  ledgerPath :: string
  ledgerFile :: string
  ledgerApplied :: "string set"

definition newline :: char where
  "newline = CHR 0x0A"

text \<open>The key a line records: what comes before its first comma.\<close>

definition line_key :: "string \<Rightarrow> string option" where
  "line_key line =
     (let t = TrimSpace line
      in if t = [] \<or> CHR '','' \<notin> set t then None else Some (takeWhile (\<lambda>c. c \<noteq> CHR '','') t))"

text \<open>A line longer than the buffer of \<^verbatim>\<open>bufio.Scanner\<close> ends the scan with an error.\<close>

definition openLedger :: "goerror option \<Rightarrow> string \<Rightarrow> string \<Rightarrow> goerror + ledger" where
  "openLedger oe path file =
     (case oe of
        Some err \<Rightarrow> Inl (Errorf (''open ledger '' @ path @ '': '') err [])
      | None \<Rightarrow>
          if list_ex (\<lambda>line. length line \<ge> 65536) (Split newline file)
          then Inl (errors_New ''bufio.Scanner: token too long'')
          else Inr \<lparr>ledgerPath = path, ledgerFile = file,
                    ledgerApplied = set (List.map_filter line_key (Split newline file))\<rparr>)"

definition ledger_has :: "string \<Rightarrow> ledger \<Rightarrow> bool" where
  "ledger_has key l \<longleftrightarrow> key \<in> ledgerApplied l"

definition ledger_record :: "goerror option \<Rightarrow> string \<Rightarrow> string \<Rightarrow> string \<Rightarrow> string \<Rightarrow> float64 \<Rightarrow> ledger \<Rightarrow>
    ledger \<times> goerror option" where
  "ledger_record le key src dst oper amount l =
     (case le of
        Some err \<Rightarrow> (l, Some err)
      | None \<Rightarrow>
          (l\<lparr>ledgerFile := ledgerFile l @ key @ '','' @ src @ '','' @ dst @ '','' @ fmt2 amount @ '','' @ oper @ [newline],
             ledgerApplied := insert key (ledgerApplied l)\<rparr>, None))"

section \<open>The participant\<close>

datatype operation = opDebit | opCredit | opOther string

fun operation_string :: "operation \<Rightarrow> string" where
  "operation_string opDebit = ''debit''"
| "operation_string opCredit = ''credit''"
| "operation_string (opOther s) = s"

record reservation =
  resOp :: operation
  resAccount :: string
  resCounterparty :: string
  resAmount :: float64
  resSettled :: bool

text \<open>The map of reservations as an association list with distinct keys.\<close>

type_synonym reservations = "(string \<times> reservation) list"

definition put_res :: "string \<Rightarrow> reservation \<Rightarrow> reservations \<Rightarrow> reservations" where
  "put_res k r rs = (k, r) # filter (\<lambda>x. fst x \<noteq> k) rs"

definition del_res :: "string \<Rightarrow> reservations \<Rightarrow> reservations" where
  "del_res k rs = filter (\<lambda>x. fst x \<noteq> k) rs"

record bank =
  bstore :: store
  bledger :: ledger
  bprepared :: reservations

record benv =
  rangeOrder :: "reservations \<Rightarrow> reservations"
  openErr :: "goerror option"
  writeErr :: "goerror option"
  ledgerErr :: "goerror option"

definition newParticipant :: "store \<Rightarrow> ledger \<Rightarrow> bank" where
  "newParticipant s l = \<lparr>bstore = s, bledger = l, bprepared = []\<rparr>"

definition reservedLocked :: "floats \<Rightarrow> benv \<Rightarrow> string \<Rightarrow> bank \<Rightarrow> float64" where
  "reservedLocked F v a b =
     fold (\<lambda>(k, r) t. if resOp r = opDebit \<and> resAccount r = a \<and> \<not> resSettled r then f_add F t (resAmount r) else t)
       (rangeOrder v (bprepared b)) (Finite 0)"

definition same_details :: "reservation \<Rightarrow> operation \<Rightarrow> string \<Rightarrow> string \<Rightarrow> float64 \<Rightarrow> bool" where
  "same_details r oper a cp amount \<longleftrightarrow>
     resOp r = oper \<and> resAccount r = a \<and> resCounterparty r = cp \<and> f_eq (resAmount r) amount"

definition prepare :: "floats \<Rightarrow> benv \<Rightarrow> string \<Rightarrow> operation \<Rightarrow> string \<Rightarrow> string \<Rightarrow> float64 \<Rightarrow> bank \<Rightarrow>
    bank \<times> gstatus option" where
  "prepare F v key oper a cp amount b =
     (let reserve = (\<lambda>st. b\<lparr>bprepared := put_res key \<lparr>resOp = oper, resAccount = a, resCounterparty = cp,
                              resAmount = amount, resSettled = st\<rparr> (bprepared b)\<rparr>)
      in if a = cp then (b, Some (status_Error GInvalidArgument ''self-transfer is not allowed''))
         else if f_le amount (Finite 0)
         then (b, Some (status_Error GInvalidArgument (''amount must be positive, got '' @ fmt2 amount)))
         else if ledger_has key (bledger b) then (reserve True, None)
         else
           (case store_Balance F (openErr v) a (bstore b) of
              Inl err \<Rightarrow>
                (b, Some (if errors_Is err ErrNotFound
                   then status_Error GNotFound (''account '' @ a @ '' does not exist at this bank'')
                   else status_Error GInternal (''read account '' @ a @ '': '' @ Error err)))
            | Inr balance \<Rightarrow>
                (case map_of (bprepared b) key of
                   Some r \<Rightarrow>
                     if same_details r oper a cp amount then (b, None)
                     else (b, Some (status_Error GAlreadyExists
                            (''transaction '' @ key @ '' is already prepared with different details'')))
                 | None \<Rightarrow>
                     (let available = f_sub F balance (reservedLocked F v a b)
                      in if oper = opDebit \<and> f_less available amount
                         then (b, Some (status_Error GFailedPrecondition (''insufficient funds in '' @ a @ '': ''
                                @ fmt2 available @ '' available, '' @ fmt2 amount @ '' requested'')))
                         else (reserve False, None)))))"

definition release :: "string \<Rightarrow> bank \<Rightarrow> bank" where
  "release key b = b\<lparr>bprepared := del_res key (bprepared b)\<rparr>"

definition apply_leg :: "floats \<Rightarrow> benv \<Rightarrow> string \<Rightarrow> operation \<Rightarrow> string \<Rightarrow> string \<Rightarrow> float64 \<Rightarrow> bank \<Rightarrow>
    bank \<times> (gstatus + bool)" where
  "apply_leg F v key oper a cp amount b =
     (let delta = (if oper = opDebit then f_neg amount else amount)
      in case AddDelta F (openErr v) (writeErr v) a delta (bstore b) of
           (s1, Inl err) \<Rightarrow>
             if errors_Is err ErrNotFound
             then (release key (b\<lparr>bstore := s1\<rparr>),
                   Inl (status_Error GNotFound (''account '' @ a @ '' disappeared before commit'')))
             else (b\<lparr>bstore := s1\<rparr>, Inl (status_Error GInternal (''update account '' @ a @ '': '' @ Error err)))
         | (s1, Inr _) \<Rightarrow>
             (let (src, dst) = (if oper = opCredit then (cp, a) else (a, cp))
              in case ledger_record (ledgerErr v) key src dst (operation_string oper) amount (bledger b) of
                   (l1, Some err) \<Rightarrow>
                     (release key (b\<lparr>bstore := s1, bledger := l1\<rparr>),
                      Inl (status_Error GDataLoss (operation_string oper @ '' applied to '' @ a
                             @ '' but the ledger write failed: '' @ Error err)))
                 | (l1, None) \<Rightarrow> (release key (b\<lparr>bstore := s1, bledger := l1\<rparr>), Inr False)))"

definition commit :: "floats \<Rightarrow> benv \<Rightarrow> string \<Rightarrow> operation \<Rightarrow> string \<Rightarrow> string \<Rightarrow> float64 \<Rightarrow> bank \<Rightarrow>
    bank \<times> (gstatus + bool)" where
  "commit F v key oper a cp amount b =
     (if ledger_has key (bledger b) then (release key b, Inr True)
      else
        (case map_of (bprepared b) key of
           None \<Rightarrow>
             (b, Inl (status_Error GAborted (''no prepared transaction '' @ key
                    @ ''; it was never prepared or has been aborted'')))
         | Some r \<Rightarrow>
             if \<not> same_details r oper a cp amount
             then (b, Inl (status_Error GInvalidArgument (''commit for '' @ key @ '' does not match what was prepared'')))
             else if resSettled r then (release key b, Inr True)
             else apply_leg F v key oper a cp amount b))"

definition abort :: "string \<Rightarrow> bank \<Rightarrow> bank" where
  "abort key b = release key b"

definition transactionKey :: "string \<Rightarrow> operation \<Rightarrow> string" where
  "transactionKey tid oper = tid @ ''-'' @ operation_string oper"

section \<open>The state machine\<close>

datatype cmdKind = cmdPrepare | cmdCommit | cmdAbort | cmdOther string

record bcommand =
  bcKind :: cmdKind
  bcKey :: string
  bcOp :: operation
  bcAccount :: string
  bcCounterparty :: string
  bcAmount :: float64

record applyResult =
  arCode :: codes
  arMessage :: string
  arSettled :: bool

definition result_OK :: "bool \<Rightarrow> applyResult" where
  "result_OK settled = \<lparr>arCode = GOK, arMessage = [], arSettled = settled\<rparr>"

definition result_status :: "gstatus \<Rightarrow> applyResult" where
  "result_status st = \<lparr>arCode = SCode st, arMessage = SMessage st, arSettled = False\<rparr>"

definition applyResult_err :: "applyResult \<Rightarrow> gstatus option" where
  "applyResult_err r = (if arCode r = GOK then None else Some (status_Error (arCode r) (arMessage r)))"

text \<open>\<^verbatim>\<open>json.Marshal\<close> refuses NaN and the infinities, and \<^verbatim>\<open>encodeCommand\<close> then panics.\<close>

fun marshals :: "float64 \<Rightarrow> bool" where
  "marshals (Finite x) = True"
| "marshals _ = False"

definition apply_cmd :: "floats \<Rightarrow> benv \<Rightarrow> bcommand \<Rightarrow> bank \<Rightarrow> bank \<times> applyResult" where
  "apply_cmd F v c b =
     (case bcKind c of
        cmdPrepare \<Rightarrow>
          (case prepare F v (bcKey c) (bcOp c) (bcAccount c) (bcCounterparty c) (bcAmount c) b of
             (b1, Some st) \<Rightarrow> (b1, result_status st)
           | (b1, None) \<Rightarrow> (b1, result_OK False))
      | cmdCommit \<Rightarrow>
          (case commit F v (bcKey c) (bcOp c) (bcAccount c) (bcCounterparty c) (bcAmount c) b of
             (b1, Inl st) \<Rightarrow> (b1, result_status st)
           | (b1, Inr settled) \<Rightarrow> (b1, result_OK settled))
      | cmdAbort \<Rightarrow> (abort (bcKey c) b, result_OK False)
      | cmdOther k \<Rightarrow>
          (b, result_status (status_Error GInternal (''unknown command kind '' @ quote k))))"

definition bank_Apply :: "(string \<Rightarrow> goerror + bcommand) \<Rightarrow> floats \<Rightarrow> benv \<Rightarrow> string \<Rightarrow> bank \<Rightarrow> bank \<times> applyResult" where
  "bank_Apply dec F v raw b =
     (case dec raw of
        Inl err \<Rightarrow> (b, result_status (status_Error GInternal (''decode command: '' @ Error err)))
      | Inr c \<Rightarrow> apply_cmd F v c b)"

section \<open>The service\<close>

record health =
  healthName :: string
  healthActive :: bool

definition newHealth :: "string \<Rightarrow> health" where
  "newHealth name = \<lparr>healthName = name, healthActive = True\<rparr>"

definition health_check :: "health \<Rightarrow> gstatus option" where
  "health_check h =
     (if \<not> healthActive h then Some (status_Error GUnavailable (''bank '' @ healthName h @ '' is offline'')) else None)"

text \<open>One line typed at a bank's console.\<close>

definition health_console :: "string \<Rightarrow> health \<Rightarrow> health" where
  "health_console line h =
     (let w = ToLower (TrimSpace line)
      in if w = ''down'' then h\<lparr>healthActive := False\<rparr>
         else if w = ''up'' then h\<lparr>healthActive := True\<rparr> else h)"

text \<open>\<^verbatim>\<open>healthGate\<close>: the Paxos endpoint of a replica that is down answers 503.\<close>

definition healthGate :: "health \<Rightarrow> ('w \<Rightarrow> 'w \<times> 'a) \<Rightarrow> 'w \<Rightarrow> 'w \<times> (nat \<times> string + 'a)" where
  "healthGate h handler w =
     (case health_check h of
        Some st \<Rightarrow> (w, Inl (503, ''rpc error: code = Unavailable desc = '' @ SMessage st))
      | None \<Rightarrow> (case handler w of (w1, a) \<Rightarrow> (w1, Inr a)))"

record legRequest =
  lrAccount :: string
  lrAmount :: float64
  lrTransaction :: string
  lrCounterparty :: string

text \<open>
  \<^verbatim>\<open>propose\<close>: replication is a parameter on the world of the replicas that returns the result of
  applying the command or the error of the Paxos node.  \<open>None\<close> is the panic that ends the process.
\<close>

definition bank_propose :: "(bcommand \<Rightarrow> 'w \<Rightarrow> 'w \<times> (goerror + applyResult)) \<Rightarrow> string \<Rightarrow> bcommand \<Rightarrow> 'w \<Rightarrow>
    ('w \<times> (gstatus + applyResult)) option" where
  "bank_propose prop name c w =
     (if \<not> marshals (bcAmount c) then None
      else
        (case prop c w of
           (w1, Inl err) \<Rightarrow> Some (w1, Inl (status_Error GUnavailable (''bank '' @ name @ '': '' @ Error err)))
         | (w1, Inr r) \<Rightarrow> Some (w1, case applyResult_err r of Some st \<Rightarrow> Inl st | None \<Rightarrow> Inr r)))"

definition leg_command :: "cmdKind \<Rightarrow> legRequest \<Rightarrow> operation \<Rightarrow> bcommand" where
  "leg_command k req oper =
     \<lparr>bcKind = k, bcKey = transactionKey (lrTransaction req) oper, bcOp = oper, bcAccount = lrAccount req,
      bcCounterparty = lrCounterparty req, bcAmount = lrAmount req\<rparr>"

definition service_prepare :: "(bcommand \<Rightarrow> 'w \<Rightarrow> 'w \<times> (goerror + applyResult)) \<Rightarrow> health \<Rightarrow> operation \<Rightarrow>
    legRequest \<Rightarrow> 'w \<Rightarrow> ('w \<times> (gstatus + string)) option" where
  "service_prepare prop h oper req w =
     (case health_check h of
        Some st \<Rightarrow> Some (w, Inl st)
      | None \<Rightarrow>
          (case bank_propose prop (healthName h) (leg_command cmdPrepare req oper) w of
             None \<Rightarrow> None
           | Some (w1, Inl st) \<Rightarrow> Some (w1, Inl st)
           | Some (w1, Inr r) \<Rightarrow> Some (w1, Inr (operation_string oper @ '' prepared''))))"

definition service_commit :: "(bcommand \<Rightarrow> 'w \<Rightarrow> 'w \<times> (goerror + applyResult)) \<Rightarrow> health \<Rightarrow> operation \<Rightarrow>
    legRequest \<Rightarrow> 'w \<Rightarrow> ('w \<times> (gstatus + string)) option" where
  "service_commit prop h oper req w =
     (case health_check h of
        Some st \<Rightarrow> Some (w, Inl st)
      | None \<Rightarrow>
          (case bank_propose prop (healthName h) (leg_command cmdCommit req oper) w of
             None \<Rightarrow> None
           | Some (w1, Inl st) \<Rightarrow> Some (w1, Inl st)
           | Some (w1, Inr r) \<Rightarrow>
               Some (w1, Inr (operation_string oper @ (if arSettled r then '' already processed'' else '' committed'')))))"

definition service_abort :: "(bcommand \<Rightarrow> 'w \<Rightarrow> 'w \<times> (goerror + applyResult)) \<Rightarrow> health \<Rightarrow> operation \<Rightarrow>
    legRequest \<Rightarrow> 'w \<Rightarrow> ('w \<times> (gstatus + string)) option" where
  "service_abort prop h oper req w =
     (case bank_propose prop (healthName h) (leg_command cmdAbort req oper) w of
        None \<Rightarrow> None
      | Some (w1, Inl st) \<Rightarrow> Some (w1, Inl st)
      | Some (w1, Inr r) \<Rightarrow> Some (w1, Inr (operation_string oper @ '' aborted'')))"

definition GetBalance :: "floats \<Rightarrow> goerror option \<Rightarrow> health \<Rightarrow> bool \<Rightarrow> string \<Rightarrow> store \<Rightarrow> gstatus + float64" where
  "GetBalance F oe h isLeader a s =
     (case health_check h of
        Some st \<Rightarrow> Inl st
      | None \<Rightarrow>
          if \<not> isLeader
          then Inl (status_Error GUnavailable (''bank '' @ healthName h @ '': this replica is not the leader''))
          else
            (case store_Balance F oe a s of
               Inr b \<Rightarrow> Inr b
             | Inl err \<Rightarrow>
                 Inl (if errors_Is err ErrNotFound
                      then status_Error GNotFound (''account '' @ a @ '' does not exist at '' @ healthName h)
                      else status_Error GInternal (''read account '' @ a @ '': '' @ Error err))))"

section \<open>Start-up\<close>

text \<open>\<^verbatim>\<open>parsePeers\<close>: the entries of the \<^verbatim>\<open>-peers\<close> flag, the last one for an id counts.\<close>

definition cut_at :: "char \<Rightarrow> string \<Rightarrow> (string \<times> string) option" where
  "cut_at c s = (if c \<in> set s then Some (takeWhile (\<lambda>x. x \<noteq> c) s, drop 1 (dropWhile (\<lambda>x. x \<noteq> c) s)) else None)"

fun peers_of :: "string list \<Rightarrow> (string \<rightharpoonup> string) \<Rightarrow> goerror + (string \<rightharpoonup> string)" where
  "peers_of [] m = Inr m"
| "peers_of (p # ps) m =
     (let part = TrimSpace p
      in if part = [] then peers_of ps m
         else case cut_at CHR ''='' part of
                Some (i, addr) \<Rightarrow>
                  if i = [] \<or> addr = []
                  then Inl (errors_New (''invalid -peers entry '' @ quote part @ ''; want id=host:port''))
                  else peers_of ps (m(i \<mapsto> addr))
              | None \<Rightarrow> Inl (errors_New (''invalid -peers entry '' @ quote part @ ''; want id=host:port'')))"

definition parsePeers :: "string \<Rightarrow> goerror + (string \<rightharpoonup> string)" where
  "parsePeers raw = peers_of (Split CHR '','' raw) Map.empty"

text \<open>
  A replica that starts again opens the files it finds; its reservations are gone until the
  committed part of the Paxos log is applied once more.
\<close>

definition restart :: "bank \<Rightarrow> goerror + bank" where
  "restart b =
     (case NewStore None (storePath (bstore b)) (storeFile (bstore b)) of
        Inl err \<Rightarrow> Inl (Errorf ''open account store: '' err [])
      | Inr s \<Rightarrow>
          (case openLedger None (ledgerPath (bledger b)) (ledgerFile (bledger b)) of
             Inl err \<Rightarrow> Inl (Errorf ''open ledger: '' err [])
           | Inr l \<Rightarrow> Inr (newParticipant s l)))"

end
