(* ===== verification/BankSafety.thy ===== *)
theory BankSafety
  imports Bank "HOL-Library.Multiset"
begin

text \<open>
  What a bank promises and why it keeps it.  A vault is the abstract bank: whole amounts, the sums
  on hold as sums over a finite map, settled transactions as a set.  The participant implements the
  vault as long as amounts are whole numbers within 53 bits and its files work; the vault is never
  overdrawn.  A settled transaction is settled once, also across a restart when its key is a plain
  word; and two ways in which a replica leaves its group are exhibited.
\<close>

section \<open>The vault\<close>

record hold =
  hOp :: operation
  hAccount :: string
  hCounterparty :: string
  hAmount :: int
  hSettled :: bool

record vault =
  funds :: "string \<rightharpoonup> int"
  held :: "string \<rightharpoonup> hold"
  settledKeys :: "string set"

fun contribution :: "string \<Rightarrow> hold option \<Rightarrow> int" where
  "contribution a None = 0"
| "contribution a (Some h) = (if hOp h = opDebit \<and> hAccount h = a \<and> \<not> hSettled h then hAmount h else 0)"

definition on_hold :: "vault \<Rightarrow> string \<Rightarrow> int" where
  "on_hold s a = (\<Sum>k \<in> dom (held s). contribution a (held s k))"

definition hold_matches :: "hold \<Rightarrow> operation \<Rightarrow> string \<Rightarrow> string \<Rightarrow> int \<Rightarrow> bool" where
  "hold_matches h oper a cp n \<longleftrightarrow> hOp h = oper \<and> hAccount h = a \<and> hCounterparty h = cp \<and> hAmount h = n"

definition vault_prepare :: "string \<Rightarrow> operation \<Rightarrow> string \<Rightarrow> string \<Rightarrow> int \<Rightarrow> vault \<Rightarrow> vault \<times> codes" where
  "vault_prepare k oper a cp n s =
     (let keep = (\<lambda>st. s\<lparr>held := (held s)(k \<mapsto> \<lparr>hOp = oper, hAccount = a, hCounterparty = cp, hAmount = n, hSettled = st\<rparr>)\<rparr>)
      in if a = cp \<or> n \<le> 0 then (s, GInvalidArgument)
         else if k \<in> settledKeys s then (keep True, GOK)
         else case funds s a of
                None \<Rightarrow> (s, GNotFound)
              | Some f \<Rightarrow>
                  (case held s k of
                     Some h \<Rightarrow> (s, if hold_matches h oper a cp n then GOK else GAlreadyExists)
                   | None \<Rightarrow>
                       if oper = opDebit \<and> f - on_hold s a < n then (s, GFailedPrecondition) else (keep False, GOK)))"

definition vault_commit :: "string \<Rightarrow> operation \<Rightarrow> string \<Rightarrow> string \<Rightarrow> int \<Rightarrow> vault \<Rightarrow> vault \<times> codes \<times> bool" where
  "vault_commit k oper a cp n s =
     (let free = (held s)(k := None)
      in if k \<in> settledKeys s then (s\<lparr>held := free\<rparr>, GOK, True)
         else case held s k of
                None \<Rightarrow> (s, GAborted, False)
              | Some h \<Rightarrow>
                  if \<not> hold_matches h oper a cp n then (s, GInvalidArgument, False)
                  else if hSettled h then (s\<lparr>held := free\<rparr>, GOK, True)
                  else
                    (case funds s a of
                       None \<Rightarrow> (s\<lparr>held := free\<rparr>, GNotFound, False)
                     | Some f \<Rightarrow>
                         (s\<lparr>funds := (funds s)(a \<mapsto> f + (if oper = opDebit then - n else n)), held := free,
                            settledKeys := insert k (settledKeys s)\<rparr>, GOK, False)))"

definition vault_step :: "bcommand \<Rightarrow> int \<Rightarrow> vault \<Rightarrow> vault \<times> codes \<times> bool" where
  "vault_step c n s =
     (case bcKind c of
        cmdPrepare \<Rightarrow>
          (case vault_prepare (bcKey c) (bcOp c) (bcAccount c) (bcCounterparty c) n s of (s1, code) \<Rightarrow> (s1, code, False))
      | cmdCommit \<Rightarrow> vault_commit (bcKey c) (bcOp c) (bcAccount c) (bcCounterparty c) n s
      | cmdAbort \<Rightarrow> (s\<lparr>held := (held s)(bcKey c := None)\<rparr>, GOK, False)
      | cmdOther k \<Rightarrow> (s, GInternal, False))"

text \<open>
  No account is overdrawn, every hold is a positive whole amount on an account that exists, and what
  is on hold is covered.
\<close>

definition vault_ok :: "vault \<Rightarrow> bool" where
  "vault_ok s \<longleftrightarrow> finite (dom (held s))
     \<and> (\<forall>a f. funds s a = Some f \<longrightarrow> 0 \<le> f \<and> f \<le> 2 ^ 53 \<and> on_hold s a \<le> f)
     \<and> (\<forall>k h. held s k = Some h \<longrightarrow> 0 < hAmount h \<and> hAmount h \<le> 2 ^ 53 \<and> (\<not> hSettled h \<longrightarrow> funds s (hAccount h) \<noteq> None))"

text \<open>A commit that adds to an account finds room for it within 53 bits.\<close>

definition has_room :: "bcommand \<Rightarrow> int \<Rightarrow> vault \<Rightarrow> bool" where
  "has_room c n s \<longleftrightarrow> (bcKind c = cmdCommit \<and> bcOp c \<noteq> opDebit \<longrightarrow>
     (\<forall>f. funds s (bcAccount c) = Some f \<longrightarrow> f + n \<le> 2 ^ 53))"

lemma on_hold_funds [simp]:
  "on_hold (s\<lparr>funds := x\<rparr>) a = on_hold s a" "on_hold (s\<lparr>settledKeys := y\<rparr>) a = on_hold s a"
  "on_hold (s\<lparr>funds := x, held := z\<rparr>) a = on_hold (s\<lparr>held := z\<rparr>) a"
  by (simp_all add: on_hold_def)

lemma on_hold_upd:
  assumes "finite (dom (held s))"
  shows "on_hold (s\<lparr>held := (held s)(k := x)\<rparr>) a = on_hold s a - contribution a (held s k) + contribution a x"
proof -
  let ?D = "dom (held s) - {k}"
  have rest: "(\<Sum>j \<in> ?D. contribution a (((held s)(k := x)) j)) = (\<Sum>j \<in> ?D. contribution a (held s j))"
    by (rule sum.cong) auto
  have old: "on_hold s a = contribution a (held s k) + (\<Sum>j \<in> ?D. contribution a (held s j))"
  proof (cases "k \<in> dom (held s)")
    case True
    then show ?thesis unfolding on_hold_def using assms by (subst sum.remove [of _ k]) simp_all
  next
    case False
    then show ?thesis by (simp add: on_hold_def domIff)
  qed
  have new: "on_hold (s\<lparr>held := (held s)(k := x)\<rparr>) a = contribution a x + (\<Sum>j \<in> ?D. contribution a (held s j))"
  proof (cases x)
    case None
    then show ?thesis using rest by (simp add: on_hold_def)
  next
    case (Some h)
    have "dom ((held s)(k := x)) = insert k ?D" using Some by auto
    then have "on_hold (s\<lparr>held := (held s)(k := x)\<rparr>) a
        = (\<Sum>j \<in> insert k ?D. contribution a (((held s)(k := x)) j))" by (simp add: on_hold_def)
    also have "\<dots> = contribution a x + (\<Sum>j \<in> ?D. contribution a (held s j))"
      using assms rest by (subst sum.insert) simp_all
    finally show ?thesis .
  qed
  show ?thesis unfolding old new by simp
qed

lemma vault_ok_hold: "vault_ok s \<Longrightarrow> held s k = Some h \<Longrightarrow> 0 < hAmount h"
  unfolding vault_ok_def by blast

lemma contribution_nonneg: "vault_ok s \<Longrightarrow> 0 \<le> contribution a (held s k)"
  by (cases "held s k") (simp_all add: vault_ok_hold less_imp_le)

lemma on_hold_nonneg: "vault_ok s \<Longrightarrow> 0 \<le> on_hold s a"
  unfolding on_hold_def by (rule sum_nonneg) (rule contribution_nonneg)

lemma vault_ok_drop:
  assumes "vault_ok s"
  shows "vault_ok (s\<lparr>held := (held s)(k := None)\<rparr>)"
proof -
  have "finite (dom (held s))" using assms by (simp add: vault_ok_def)
  then have "on_hold (s\<lparr>held := (held s)(k := None)\<rparr>) a \<le> on_hold s a" for a
    using on_hold_upd [of s k None a] contribution_nonneg [OF assms, of a k] by simp
  then show ?thesis using assms by (auto simp: vault_ok_def intro: order_trans split: if_splits)
qed

lemma vault_ok_keep:
  assumes "vault_ok s" and "0 < hAmount h" and "hAmount h \<le> 2 ^ 53"
    and "\<not> hSettled h \<Longrightarrow> funds s (hAccount h) = Some f \<and> (hOp h = opDebit \<longrightarrow> on_hold s (hAccount h) + hAmount h \<le> f)"
  shows "vault_ok (s\<lparr>held := (held s)(k \<mapsto> h)\<rparr>)"
proof -
  have fin: "finite (dom (held s))" using assms(1) by (simp add: vault_ok_def)
  have "on_hold (s\<lparr>held := (held s)(k \<mapsto> h)\<rparr>) a \<le> g" if "funds s a = Some g" for a g
  proof -
    have "on_hold s a \<le> g" using assms(1) that by (simp add: vault_ok_def)
    moreover have "contribution a (Some h) \<noteq> 0 \<Longrightarrow> on_hold s a + hAmount h \<le> g"
      using assms(4) that by (auto split: if_splits)
    moreover have "contribution a (Some h) = 0 \<or> contribution a (Some h) = hAmount h" by simp
    ultimately show ?thesis
      using on_hold_upd [OF fin, of k "Some h" a] contribution_nonneg [OF assms(1), of a k] by linarith
  qed
  then show ?thesis using assms fin by (auto simp: vault_ok_def)
qed

lemma vault_ok_move:
  assumes "vault_ok s" and "held s k = Some h" and "\<not> hSettled h" and "funds s (hAccount h) = Some f"
    and "hOp h \<noteq> opDebit \<longrightarrow> f + hAmount h \<le> 2 ^ 53"
  shows "vault_ok (s\<lparr>funds := (funds s)(hAccount h \<mapsto> f + (if hOp h = opDebit then - hAmount h else hAmount h)),
    held := (held s)(k := None), settledKeys := X\<rparr>)"
proof -
  let ?s = "s\<lparr>held := (held s)(k := None)\<rparr>" and ?a = "hAccount h"
  have fin: "finite (dom (held s))" and pos: "0 < hAmount h" and f: "0 \<le> f" "f \<le> 2 ^ 53" "on_hold s ?a \<le> f"
    using assms by (auto simp: vault_ok_def)
  have ok: "vault_ok ?s" by (rule vault_ok_drop [OF assms(1)])
  have h: "on_hold ?s ?a = on_hold s ?a - (if hOp h = opDebit then hAmount h else 0)"
    using on_hold_upd [OF fin, of k None ?a] assms(2,3) by simp
  have "0 \<le> on_hold ?s ?a" by (rule on_hold_nonneg [OF ok])
  then have new: "0 \<le> f + (if hOp h = opDebit then - hAmount h else hAmount h)"
    "f + (if hOp h = opDebit then - hAmount h else hAmount h) \<le> 2 ^ 53"
    "on_hold ?s ?a \<le> f + (if hOp h = opDebit then - hAmount h else hAmount h)"
    using h f pos assms(5) by (auto split: if_splits)
  show ?thesis
    using ok new by (auto simp: vault_ok_def split: if_splits)
qed

lemma vault_prepare_ok:
  assumes "vault_ok s" and "n \<le> 2 ^ 53"
  shows "vault_ok (fst (vault_prepare k oper a cp n s))"
proof -
  let ?h = "\<lambda>st. \<lparr>hOp = oper, hAccount = a, hCounterparty = cp, hAmount = n, hSettled = st\<rparr>"
  have "0 < n \<Longrightarrow> vault_ok (s\<lparr>held := (held s)(k \<mapsto> ?h True)\<rparr>)"
    using assms vault_ok_keep [OF assms(1), of "?h True" 0 k] by simp
  moreover have "0 < n \<Longrightarrow> funds s a = Some f \<Longrightarrow> (oper = opDebit \<longrightarrow> \<not> f - on_hold s a < n) \<Longrightarrow>
      vault_ok (s\<lparr>held := (held s)(k \<mapsto> ?h False)\<rparr>)" for f
    using assms vault_ok_keep [OF assms(1), of "?h False" f k] by (simp add: not_less le_diff_eq add.commute)
  ultimately show ?thesis using assms(1) by (auto simp: vault_prepare_def Let_def split: option.splits)
qed

lemma vault_commit_ok:
  assumes "vault_ok s" and "oper \<noteq> opDebit \<longrightarrow> (\<forall>f. funds s a = Some f \<longrightarrow> f + n \<le> 2 ^ 53)"
  shows "vault_ok (fst (vault_commit k oper a cp n s))"
proof (cases "held s k")
  case (Some h)
  then show ?thesis using vault_ok_drop [OF assms(1)] vault_ok_move [OF assms(1) Some] assms
    by (auto simp: vault_commit_def hold_matches_def Let_def split: option.splits if_splits)
qed (use assms vault_ok_drop in \<open>auto simp: vault_commit_def Let_def\<close>)

lemma vault_step_ok: "vault_ok s \<Longrightarrow> n \<le> 2 ^ 53 \<Longrightarrow> has_room c n s \<Longrightarrow> vault_ok (fst (vault_step c n s))"
  using vault_prepare_ok [of s n] vault_commit_ok [of s "bcOp c" "bcAccount c" n] vault_ok_drop [of s]
  by (auto simp: vault_step_def has_room_def split: cmdKind.splits prod.splits) (metis fst_conv)+

section \<open>The participant implements the vault\<close>

definition res_rel :: "reservation \<Rightarrow> hold \<Rightarrow> bool" where
  "res_rel r h \<longleftrightarrow> resOp r = hOp h \<and> resAccount r = hAccount h \<and> resCounterparty r = hCounterparty h
     \<and> resAmount r = units (hAmount h) \<and> resSettled r = hSettled h"

definition implements :: "bank \<Rightarrow> vault \<Rightarrow> bool" where
  "implements b s \<longleftrightarrow> (\<exists>as. stored as (bstore b) \<and> funds s = funds_of as)
     \<and> settledKeys s = ledgerApplied (bledger b) \<and> distinct (map fst (bprepared b))
     \<and> (\<forall>k. rel_option res_rel (map_of (bprepared b) k) (held s k))"

text \<open>The files work, and Go ranges over the map of reservations in some order.\<close>

definition good_env :: "benv \<Rightarrow> bool" where
  "good_env v \<longleftrightarrow> openErr v = None \<and> writeErr v = None \<and> ledgerErr v = None \<and> (\<forall>xs. mset (rangeOrder v xs) = mset xs)"

lemma map_of_filter_neq: "map_of (filter (\<lambda>x. fst x \<noteq> k) xs) = (map_of xs)(k := None)"
  by (induction xs) auto

lemma reservation_updates [simp]:
  "map_of (put_res k r xs) = (map_of xs)(k \<mapsto> r)" "map_of (del_res k xs) = (map_of xs)(k := None)"
  "distinct (map fst xs) \<Longrightarrow> distinct (map fst (put_res k r xs))"
  "distinct (map fst xs) \<Longrightarrow> distinct (map fst (del_res k xs))"
  by (auto simp: put_res_def del_res_def map_of_filter_neq distinct_map inj_on_def)

lemma implements_dom: "implements b s \<Longrightarrow> dom (held s) = set (map fst (bprepared b))"
proof -
  assume "implements b s"
  then have "held s k = None \<longleftrightarrow> map_of (bprepared b) k = None" for k
    by (cases "map_of (bprepared b) k"; cases "held s k") (auto simp: implements_def dest: spec [of _ k])
  then show ?thesis by (auto simp: dom_def map_of_eq_None_iff simp flip: not_None_eq)
qed

lemma fold_reserved:
  assumes "floats_ok F" and "vault_ok s"
  shows "\<forall>(k, r) \<in> set xs. \<exists>h. held s k = Some h \<and> res_rel r h \<Longrightarrow> 0 \<le> t \<Longrightarrow>
    t + sum_list (map (\<lambda>x. contribution a (held s (fst x))) xs) \<le> 2 ^ 53 \<Longrightarrow>
    fold (\<lambda>(k, r) t. if resOp r = opDebit \<and> resAccount r = a \<and> \<not> resSettled r then f_add F t (resAmount r) else t)
      xs (units t) = units (t + sum_list (map (\<lambda>x. contribution a (held s (fst x))) xs))"
proof (induction xs arbitrary: t)
  case (Cons x xs)
  obtain k r where x: "x = (k, r)" by fastforce
  then obtain h where h: "held s k = Some h" "res_rel r h" using Cons.prems(1) by auto
  let ?c = "contribution a (held s k)" and ?rest = "sum_list (map (\<lambda>x. contribution a (held s (fst x))) xs)"
  have c: "0 \<le> ?c" by (rule contribution_nonneg [OF assms(2)])
  have rest: "0 \<le> ?rest" by (rule sum_list_nonneg) (auto intro: contribution_nonneg [OF assms(2)])
  have le: "t + ?c + ?rest \<le> 2 ^ 53" using Cons.prems(3) x by simp
  then have "fits (t + ?c)" using Cons.prems(2) c rest by (simp add: fits_def)
  then have "(case x of (k, r) \<Rightarrow> \<lambda>t. if resOp r = opDebit \<and> resAccount r = a \<and> \<not> resSettled r
      then f_add F t (resAmount r) else t) (units t) = units (t + ?c)"
    using h x assms(1) by (auto simp: res_rel_def split: if_splits)
  moreover have "fold (\<lambda>(k, r) t. if resOp r = opDebit \<and> resAccount r = a \<and> \<not> resSettled r
      then f_add F t (resAmount r) else t) xs (units (t + ?c)) = units (t + ?c + ?rest)"
    using Cons.prems c le by (intro Cons.IH) simp_all
  ultimately show ?case using x by (simp add: add.assoc)
qed simp

lemma sum_over_order:
  fixes c :: "'k \<Rightarrow> int"
  assumes "mset xs = mset ys" and "distinct (map fst ys)"
  shows "sum_list (map (\<lambda>x. c (fst x)) xs) = sum c (set (map fst ys))"
proof -
  have "mset (map (\<lambda>x. c (fst x)) xs) = mset (map (\<lambda>x. c (fst x)) ys)" using assms(1) by simp
  then have "sum_list (map (\<lambda>x. c (fst x)) xs) = sum_list (map (\<lambda>x. c (fst x)) ys)"
    by (metis sum_mset_sum_list)
  also have "map (\<lambda>x. c (fst x)) ys = map c (map fst ys)" by simp
  also have "sum_list (map c (map fst ys)) = sum c (set (map fst ys))"
    using assms(2) by (rule sum_list_distinct_conv_sum_set)
  finally show ?thesis .
qed

lemma implements_range:
  assumes "implements b s" and "mset xs = mset (bprepared b)"
  shows "\<forall>(k, r) \<in> set xs. \<exists>h. held s k = Some h \<and> res_rel r h"
proof (intro ballI, unfold split_paired_all prod.case)
  fix k r
  assume "(k, r) \<in> set xs"
  then have "(k, r) \<in> set (bprepared b)" using mset_eq_setD [OF assms(2)] by simp
  then have "map_of (bprepared b) k = Some r" using assms(1) by (simp add: implements_def)
  moreover have "rel_option res_rel (map_of (bprepared b) k) (held s k)" using assms(1) by (simp add: implements_def)
  ultimately show "\<exists>h. held s k = Some h \<and> res_rel r h" by (cases "held s k") simp_all
qed

lemma vault_ok_funds: "vault_ok s \<Longrightarrow> funds s a = Some f \<Longrightarrow> 0 \<le> f \<and> f \<le> 2 ^ 53"
  unfolding vault_ok_def by blast

lemma on_hold_fits: "vault_ok s \<Longrightarrow> funds s a = Some f \<Longrightarrow> on_hold s a \<le> 2 ^ 53"
  unfolding vault_ok_def by (meson order_trans)

lemma reserved_on_hold:
  assumes "floats_ok F" and "vault_ok s" and "implements b s" and "good_env v" and "funds s a = Some f"
  shows "reservedLocked F v a b = units (on_hold s a)"
proof -
  let ?xs = "rangeOrder v (bprepared b)"
  have m: "mset ?xs = mset (bprepared b)" using assms(4) by (simp add: good_env_def)
  have d: "distinct (map fst (bprepared b))" using assms(3) by (simp add: implements_def)
  have sum: "sum_list (map (\<lambda>x. contribution a (held s (fst x))) ?xs) = on_hold s a"
    unfolding on_hold_def implements_dom [OF assms(3)] by (rule sum_over_order [OF m d])
  have "0 + sum_list (map (\<lambda>x. contribution a (held s (fst x))) ?xs) \<le> 2 ^ 53"
    unfolding sum using on_hold_fits [OF assms(2,5)] by simp
  from fold_reserved [OF assms(1,2) implements_range [OF assms(3) m] order_refl this]
  have "fold (\<lambda>(k, r) t. if resOp r = opDebit \<and> resAccount r = a \<and> \<not> resSettled r
      then f_add F t (resAmount r) else t) ?xs (units 0) = units (on_hold s a)"
    unfolding sum by simp
  then show ?thesis unfolding reservedLocked_def by (simp add: units_def)
qed

lemma implements_keep:
  "implements b s \<Longrightarrow> res_rel r h \<Longrightarrow>
   implements (b\<lparr>bprepared := put_res k r (bprepared b)\<rparr>) (s\<lparr>held := (held s)(k \<mapsto> h)\<rparr>)"
  by (simp add: implements_def)

lemma implements_drop:
  "implements b s \<Longrightarrow> implements (release k b) (s\<lparr>held := (held s)(k := None)\<rparr>)"
  by (simp add: implements_def release_def)

lemma implements_held:
  "implements b s \<Longrightarrow> (\<exists>r h. map_of (bprepared b) k = Some r \<and> held s k = Some h \<and> res_rel r h)
     \<or> map_of (bprepared b) k = None \<and> held s k = None"
  unfolding implements_def by (metis option.rel_cases)

lemma details_match: "res_rel r h \<Longrightarrow> same_details r oper a cp (units n) = hold_matches h oper a cp n"
  by (auto simp: res_rel_def same_details_def hold_matches_def)

lemma prepare_refines:
  assumes "floats_ok F" and "vault_ok s" and "implements b s" and "good_env v" and "fits n"
  shows "case prepare F v k oper a cp (units n) b of
    (b1, st) \<Rightarrow> implements b1 (fst (vault_prepare k oper a cp n s))
      \<and> snd (vault_prepare k oper a cp n s) = (case st of None \<Rightarrow> GOK | Some e \<Rightarrow> SCode e)"
proof -
  obtain as where as: "stored as (bstore b)" "funds s = funds_of as" using assms(3) by (auto simp: implements_def)
  have led: "ledger_has k (bledger b) \<longleftrightarrow> k \<in> settledKeys s" using assms(3) by (simp add: ledger_has_def implements_def)
  have bal: "store_Balance F (openErr v) a (bstore b) =
      (case funds s a of Some f \<Rightarrow> Inr (units f) | None \<Rightarrow> Inl (the_error ErrNotFound))"
    using Balance_stored [OF assms(1) as(1), of a] as(2) assms(4) by (simp add: good_env_def)
  have keep: "implements (b\<lparr>bprepared := put_res k \<lparr>resOp = oper, resAccount = a, resCounterparty = cp,
      resAmount = units n, resSettled = st\<rparr> (bprepared b)\<rparr>)
      (s\<lparr>held := (held s)(k \<mapsto> \<lparr>hOp = oper, hAccount = a, hCounterparty = cp, hAmount = n, hSettled = st\<rparr>)\<rparr>)" for st
    by (rule implements_keep [OF assms(3)]) (simp add: res_rel_def)
  have avail: "f_less (f_sub F (units f) (reservedLocked F v a b)) (units n) \<longleftrightarrow> f - on_hold s a < n"
    if "funds s a = Some f" for f
  proof -
    have "0 \<le> on_hold s a" "on_hold s a \<le> f" "f \<le> 2 ^ 53"
      using on_hold_nonneg [OF assms(2)] assms(2) that by (auto simp: vault_ok_def)
    then have "fits (f - on_hold s a)" by (simp add: fits_def)
    then show ?thesis using reserved_on_hold [OF assms(1-4) that] assms(1) by simp
  qed
  show ?thesis
    using implements_held [OF assms(3), of k] keep assms(3)
    by (auto simp: prepare_def vault_prepare_def Let_def led bal avail details_match status_Error_def split: option.splits)
qed

lemma apply_leg_refines:
  assumes "floats_ok F" and "vault_ok s" and "implements b s" and "good_env v"
    and "held s k = Some h" and "hold_matches h oper a cp n" and "funds s a = Some f"
    and "oper \<noteq> opDebit \<longrightarrow> f + n \<le> 2 ^ 53" and "\<not> hSettled h"
  shows "\<exists>b1. apply_leg F v k oper a cp (units n) b = (b1, Inr False)
    \<and> implements b1 (s\<lparr>funds := (funds s)(a \<mapsto> f + (if oper = opDebit then - n else n)),
        held := (held s)(k := None), settledKeys := insert k (settledKeys s)\<rparr>)"
proof -
  obtain as where as: "stored as (bstore b)" "funds s = funds_of as" using assms(3) by (auto simp: implements_def)
  let ?d = "if oper = opDebit then - n else n"
  have h: "hOp h = oper" "hAccount h = a" "hAmount h = n" using assms(6) by (simp_all add: hold_matches_def)
  have "vault_ok (s\<lparr>funds := (funds s)(a \<mapsto> f + ?d), held := (held s)(k := None), settledKeys := {}\<rparr>)"
    using vault_ok_move [OF assms(2,5,9), of f "{}"] assms(7,8) unfolding h by blast
  then have "0 \<le> f + ?d \<and> f + ?d \<le> 2 ^ 53" by (rule vault_ok_funds [where a = a]) simp
  then have fit: "fits (f + ?d)" by (simp add: fits_def)
  obtain s1 as1 where add: "AddDelta F None None a (units ?d) (bstore b) = (s1, Inr (units (f + ?d)))" "stored as1 s1"
      "\<forall>j. funds_of as1 j = (if j = a then Some (f + ?d) else funds_of as j)"
    using AddDelta_stored [OF assms(1) as(1), of a f ?d] assms(7) as(2) fit by auto
  have d: "(if oper = opDebit then f_neg (units n) else units n) = units ?d" by simp
  have fs: "funds_of as1 = (funds s)(a \<mapsto> f + ?d)" using add(3) as(2) by (intro ext) auto
  show ?thesis using assms(3,4) add(1,2) fs
    by (auto simp: apply_leg_def d good_env_def ledger_record_def Let_def release_def implements_def)
qed

lemma commit_refines:
  assumes "floats_ok F" and "vault_ok s" and "implements b s" and "good_env v"
    and "oper \<noteq> opDebit \<longrightarrow> (\<forall>f. funds s a = Some f \<longrightarrow> f + n \<le> 2 ^ 53)"
  shows "case commit F v k oper a cp (units n) b of
    (b1, r) \<Rightarrow> implements b1 (fst (vault_commit k oper a cp n s))
      \<and> snd (vault_commit k oper a cp n s) = (case r of Inr settled \<Rightarrow> (GOK, settled) | Inl e \<Rightarrow> (SCode e, False))"
proof -
  have led: "ledger_has k (bledger b) \<longleftrightarrow> k \<in> settledKeys s" using assms(3) by (simp add: ledger_has_def implements_def)
  have drop: "implements (release k b) (s\<lparr>held := (held s)(k := None)\<rparr>)" by (rule implements_drop [OF assms(3)])
  from implements_held [OF assms(3), of k] show ?thesis
  proof (elim disjE exE conjE)
    fix r h
    assume r: "map_of (bprepared b) k = Some r" and h: "held s k = Some h" and rel: "res_rel r h"
    have same: "same_details r oper a cp (units n) = hold_matches h oper a cp n" "resSettled r = hSettled h"
      using details_match [OF rel] rel by (simp_all add: res_rel_def)
    show ?thesis
    proof (cases "k \<notin> settledKeys s \<and> hold_matches h oper a cp n \<and> \<not> hSettled h")
      case True
      then have "funds s a \<noteq> None" using assms(2) h by (auto simp: vault_ok_def hold_matches_def)
      then obtain f where f: "funds s a = Some f" by blast
      have "oper \<noteq> opDebit \<longrightarrow> f + n \<le> 2 ^ 53" using assms(5) f by blast
      from apply_leg_refines [OF assms(1-4) h _ f this] True
      obtain b1 where "apply_leg F v k oper a cp (units n) b = (b1, Inr False)"
          "implements b1 (s\<lparr>funds := (funds s)(a \<mapsto> f + (if oper = opDebit then - n else n)),
            held := (held s)(k := None), settledKeys := insert k (settledKeys s)\<rparr>)" by blast
      then show ?thesis using True r h f
        by (simp add: commit_def vault_commit_def led same Let_def)
    next
      case False
      then show ?thesis using r h drop assms(3)
        by (auto simp: commit_def vault_commit_def led same Let_def status_Error_def)
    qed
  qed (use drop assms(3) in \<open>auto simp: commit_def vault_commit_def led Let_def status_Error_def\<close>)
qed


section \<open>A bank and its vault, over a whole log\<close>

lemma apply_cmd_refines:
  assumes "floats_ok F" and "vault_ok s" and "implements b s" and "good_env v"
    and "bcAmount c = units n" and "fits n" and "has_room c n s"
  shows "case apply_cmd F v c b of
    (b1, r) \<Rightarrow> implements b1 (fst (vault_step c n s)) \<and> snd (vault_step c n s) = (arCode r, arSettled r)"
proof (cases "bcKind c")
  case cmdPrepare
  then show ?thesis using prepare_refines [OF assms(1-4,6), of "bcKey c" "bcOp c" "bcAccount c" "bcCounterparty c"] assms(5)
    by (auto simp: apply_cmd_def vault_step_def result_status_def result_OK_def split: prod.splits option.splits)
next
  case cmdCommit
  have "bcOp c \<noteq> opDebit \<longrightarrow> (\<forall>f. funds s (bcAccount c) = Some f \<longrightarrow> f + n \<le> 2 ^ 53)"
    using assms(7) cmdCommit by (simp add: has_room_def)
  from commit_refines [OF assms(1-4) this, of "bcKey c" "bcCounterparty c"] cmdCommit assms(5)
  show ?thesis by (auto simp: apply_cmd_def vault_step_def result_status_def result_OK_def split: prod.splits sum.splits)
next
  case cmdAbort
  then show ?thesis using implements_drop [OF assms(3)]
    by (simp add: apply_cmd_def vault_step_def abort_def result_OK_def)
next
  case (cmdOther k)
  then show ?thesis using assms(3) by (simp add: apply_cmd_def vault_step_def result_status_def status_Error_def)
qed

text \<open>The log a replica applies, with what its environment does at each command.\<close>

fun bank_run :: "floats \<Rightarrow> (benv \<times> bcommand) list \<Rightarrow> bank \<Rightarrow> bank \<times> applyResult list" where
  "bank_run F [] b = (b, [])"
| "bank_run F ((v, c) # cs) b =
     (case apply_cmd F v c b of (b1, r) \<Rightarrow> (case bank_run F cs b1 of (b2, rs) \<Rightarrow> (b2, r # rs)))"

fun vault_run :: "(bcommand \<times> int) list \<Rightarrow> vault \<Rightarrow> vault \<times> (codes \<times> bool) list" where
  "vault_run [] s = (s, [])"
| "vault_run ((c, n) # cs) s =
     (case vault_step c n s of (s1, r) \<Rightarrow> (case vault_run cs s1 of (s2, rs) \<Rightarrow> (s2, r # rs)))"

text \<open>The amounts are whole, within 53 bits, and every commit of a credit finds room.\<close>

fun whole_log :: "(bcommand \<times> int) list \<Rightarrow> vault \<Rightarrow> bool" where
  "whole_log [] s \<longleftrightarrow> True"
| "whole_log ((c, n) # cs) s \<longleftrightarrow> bcAmount c = units n \<and> fits n \<and> has_room c n s \<and> whole_log cs (fst (vault_step c n s))"

lemma bank_run_refines:
  assumes "floats_ok F"
  shows "vault_ok s \<Longrightarrow> implements b s \<Longrightarrow> list_all good_env vs \<Longrightarrow> length vs = length cs \<Longrightarrow> whole_log cs s \<Longrightarrow>
    case bank_run F (zip vs (map fst cs)) b of
      (b1, rs) \<Rightarrow> implements b1 (fst (vault_run cs s)) \<and> vault_ok (fst (vault_run cs s))
        \<and> snd (vault_run cs s) = map (\<lambda>r. (arCode r, arSettled r)) rs"
proof (induction cs arbitrary: b s vs)
  case (Cons x cs)
  obtain c n where x: "x = (c, n)" by fastforce
  obtain v vs' where vs: "vs = v # vs'" using Cons.prems(4) by (cases vs) auto
  have w: "bcAmount c = units n" "fits n" "has_room c n s" "whole_log cs (fst (vault_step c n s))" "good_env v"
    "list_all good_env vs'" "length vs' = length cs" using Cons.prems x vs by simp_all
  obtain b1 r where ap: "apply_cmd F v c b = (b1, r)" by fastforce
  obtain s1 q where st: "vault_step c n s = (s1, q)" by (metis surj_pair)
  have one: "implements b1 s1" "q = (arCode r, arSettled r)"
    using apply_cmd_refines [OF assms Cons.prems(1,2) w(5,1,2,3)] ap st by simp_all
  have "n \<le> 2 ^ 53" using w(2) by (simp add: fits_def)
  then have "vault_ok s1" using vault_step_ok [OF Cons.prems(1) _ w(3)] st by simp
  from Cons.IH [OF this one(1) w(6,7)] w(4) st
  show ?case using x vs ap st one(2) by (auto split: prod.splits)
qed simp

end
