(* ===== verification/BankRuns.thy ===== *)
theory BankRuns
  imports BankSafety Commands
begin

text \<open>
  A bank over whole runs: it implements its vault, moves the money of a transaction once, and
  remembers across a restart what it settled.  What it does not survive is the second application
  of its Paxos log to files that already hold the result of the first.
\<close>

section \<open>Opening a bank\<close>

definition opened :: "acct list \<Rightarrow> ledger \<Rightarrow> vault" where
  "opened as l = \<lparr>funds = funds_of as, held = Map.empty, settledKeys = ledgerApplied l\<rparr>"

definition solvent_rows :: "acct list \<Rightarrow> bool" where
  "solvent_rows as \<longleftrightarrow> list_all (\<lambda>a. \<exists>n. AcctBalance a = units n \<and> 0 \<le> n \<and> fits n) as"

lemma solvent_rows_whole: "solvent_rows as \<Longrightarrow> list_all whole as"
  by (auto simp: solvent_rows_def whole_def list_all_iff)

lemma solvent_rows_funds: "solvent_rows as \<Longrightarrow> funds_of as a = Some f \<Longrightarrow> 0 \<le> f \<and> f \<le> 2 ^ 53"
  by (induction as) (auto simp: solvent_rows_def fits_def split: if_splits)

lemma opened_ok: "solvent_rows as \<Longrightarrow> vault_ok (opened as l)"
  using solvent_rows_funds [of as] by (auto simp: vault_ok_def opened_def on_hold_def)

lemma opened_implements: "stored as s \<Longrightarrow> implements (newParticipant s l) (opened as l)"
  by (auto simp: implements_def newParticipant_def opened_def)

lemma implements_Balance:
  assumes "floats_ok F" and "implements b s"
  shows "store_Balance F None a (bstore b) =
    (case funds s a of Some n \<Rightarrow> Inr (units n) | None \<Rightarrow> Inl (the_error ErrNotFound))"
  using assms(2) Balance_stored [OF assms(1)] by (auto simp: implements_def)

text \<open>
  C26: a bank replica implements its vault, and the vault is never overdrawn.  Take a bank that opens
  on accounts with whole balances that are not negative, any log of commands in whole amounts whose
  credits stay within 53 bits, and any order in which Go ranges over the map of reservations at each
  command.  The replica answers every command with the code of the vault and says it was settled
  before exactly when the vault does; every balance it reads back from its file is the vault's; and
  no balance is below what is on hold there, let alone below zero.  As the vault does not know the
  orders, replicas that apply the same log agree.
\<close>

theorem bank_refines:
  assumes "floats_ok F" and "stored as s0" and "solvent_rows as" and "list_all good_env vs"
    and "length vs = length cs" and "whole_log cs (opened as l)"
    and "bank_run F (zip vs (map fst cs)) (newParticipant s0 l) = (b, rs)"
    and "vault_run cs (opened as l) = (s, qs)"
  shows "qs = map (\<lambda>r. (arCode r, arSettled r)) rs
    \<and> (\<forall>a. store_Balance F None a (bstore b) =
         (case funds s a of Some n \<Rightarrow> Inr (units n) | None \<Rightarrow> Inl (the_error ErrNotFound)))
    \<and> (\<forall>a n. funds s a = Some n \<longrightarrow> 0 \<le> on_hold s a \<and> on_hold s a \<le> n)"
proof -
  have "implements b s" "vault_ok s" "qs = map (\<lambda>r. (arCode r, arSettled r)) rs"
    using bank_run_refines [OF assms(1) opened_ok [OF assms(3)] opened_implements [OF assms(2)] assms(4-6)] assms(7,8)
    by simp_all
  moreover have "funds s a = Some n \<Longrightarrow> on_hold s a \<le> n" for a n
    using \<open>vault_ok s\<close> unfolding vault_ok_def by blast
  ultimately show ?thesis using implements_Balance [OF assms(1)] on_hold_nonneg by blast
qed

text \<open>A bank with one account of 50 units, for evaluation.\<close>

definition wit_store :: store where
  "wit_store = \<lparr>storePath = ''x'', storeFile = Some [Header, [''A'', [], [], [], fmt2 (units 50)]]\<rparr>"

definition wit_rows :: "acct list" where
  "wit_rows = [\<lparr>AcctID = ''A'', AcctUser = [], AcctPass = [], AcctBank = [], AcctBalance = units 50\<rparr>]"

definition wit_ledger :: ledger where
  "wit_ledger = \<lparr>ledgerPath = ''y'', ledgerFile = [], ledgerApplied = {}\<rparr>"

definition wit_env :: benv where
  "wit_env = \<lparr>rangeOrder = rev, openErr = None, writeErr = None, ledgerErr = None\<rparr>"

definition wit_cmd :: "cmdKind \<Rightarrow> string \<Rightarrow> operation \<Rightarrow> int \<Rightarrow> bcommand \<times> int" where
  "wit_cmd k key oper n =
     (\<lparr>bcKind = k, bcKey = key, bcOp = oper, bcAccount = ''A'', bcCounterparty = ''B'', bcAmount = units n\<rparr>, n)"

text \<open>A debit that is refused, then a credit that goes through.\<close>

definition wit_log :: "(bcommand \<times> int) list" where
  "wit_log = [wit_cmd cmdPrepare ''k1'' opDebit 100, wit_cmd cmdPrepare ''k2'' opCredit 100, wit_cmd cmdCommit ''k2'' opCredit 100]"

lemma wit_facts:
  "stored wit_rows wit_store" "solvent_rows wit_rows" "good_env wit_env" "funds_of wit_rows = [''A'' \<mapsto> 50]"
proof -
  show "funds_of wit_rows = [''A'' \<mapsto> 50]" by (intro ext) (simp add: wit_rows_def)
qed (auto simp: stored_def wit_store_def wit_rows_def acct_row_def whole_def fits_def solvent_rows_def good_env_def wit_env_def
    simp del: fmt2.simps)

lemma wit_vault_run:
  "vault_run wit_log (opened wit_rows wit_ledger) =
     (\<lparr>funds = [''A'' \<mapsto> 150], held = Map.empty, settledKeys = {''k2''}\<rparr>,
      [(GFailedPrecondition, False), (GOK, False), (GOK, False)])"
  "whole_log wit_log (opened wit_rows wit_ledger)"
  by (simp_all add: wit_log_def wit_cmd_def opened_def wit_facts(4) wit_ledger_def vault_step_def vault_prepare_def
      vault_commit_def hold_matches_def on_hold_def has_room_def fits_def Let_def fun_upd_def [symmetric])

theorem bank_refines_witness:
  "case bank_run exact_floats (zip (replicate 3 wit_env) (map fst wit_log)) (newParticipant wit_store wit_ledger) of
     (b, rs) \<Rightarrow> map arCode rs = [GFailedPrecondition, GOK, GOK]
       \<and> store_Balance exact_floats None ''A'' (bstore b) = Inr (units 150)"
proof -
  obtain b rs where r: "bank_run exact_floats (zip (replicate 3 wit_env) (map fst wit_log)) (newParticipant wit_store wit_ledger) = (b, rs)"
    by fastforce
  have "list_all good_env (replicate 3 wit_env)" "length (replicate 3 wit_env) = length wit_log"
    using wit_facts(3) by (simp_all add: wit_log_def list_all_iff)
  note bank_refines [OF exact_floats_ok wit_facts(1,2) this wit_vault_run(2) r wit_vault_run(1)]
  then show ?thesis using r by (auto simp: map_eq_Cons_conv)
qed

section \<open>Once\<close>








section \<open>The ledger across a restart\<close>

definition plain_field :: "string \<Rightarrow> bool" where
  "plain_field f \<longleftrightarrow> newline \<notin> set f"

definition plain_key :: "string \<Rightarrow> bool" where
  "plain_key k \<longleftrightarrow> k \<noteq> [] \<and> \<not> is_space (hd k) \<and> CHR '','' \<notin> set k \<and> newline \<notin> set k"

definition ledger_ok :: "ledger \<Rightarrow> bool" where
  "ledger_ok l \<longleftrightarrow> (ledgerFile l = [] \<or> last (ledgerFile l) = newline)
     \<and> list_all (\<lambda>line. length line < 65536) (Split newline (ledgerFile l))
     \<and> ledgerApplied l = set (List.map_filter line_key (Split newline (ledgerFile l)))"

lemma Split_line_end: "Split c (xs @ c # ys) = butlast (Split c (xs @ [c])) @ Split c ys"
proof (induction xs)
  case (Cons x xs)
  show ?case
  proof (cases "x = c")
    case False
    obtain w ws where w: "Split c (xs @ [c]) = w # ws" by (meson Split_nonempty neq_Nil_conv)
    have "ws \<noteq> []"
    proof
      assume "ws = []"
      then have "Join [c] [w] = xs @ [c]" using Join_Split [of c "xs @ [c]"] w by simp
      then have "c \<in> set w" by auto
      then show False using Split_no_sep [of w c "xs @ [c]"] w by simp
    qed
    then show ?thesis using Cons False w by (simp split: list.splits)
  qed (use Cons in simp)
qed simp

lemma Split_last_empty: "Split c (xs @ [c]) = butlast (Split c (xs @ [c])) @ [[]]"
  using Split_line_end [of c xs "[]"] by simp

lemma line_key_record:
  assumes "plain_key k"
  shows "line_key (k @ CHR '','' # rest) = Some k"
proof -
  have hd: "k \<noteq> []" "\<not> is_space (hd k)" and c: "\<forall>x \<in> set k. x \<noteq> CHR '',''" using assms by (auto simp: plain_key_def)
  let ?s = "k @ CHR '','' # rest"
  have d: "dropWhile is_space ?s = ?s" using hd by (cases k) auto
  have "\<exists>t. dropWhile is_space (rev ?s) = rev t @ CHR '','' # rev k"
  proof -
    have "\<not> is_space CHR '',''" by (simp add: is_space_def)
    then have "dropWhile is_space (rev ?s) = dropWhile is_space (rev rest) @ CHR '','' # rev k"
      by (cases "list_all is_space (rev rest)") (simp_all add: dropWhile_append list_all_iff)
    then show ?thesis by (metis rev_rev_ident)
  qed
  then obtain t where "TrimSpace ?s = k @ CHR '','' # t" unfolding TrimSpace_def d by auto
  then show ?thesis using c by (simp add: line_key_def Let_def takeWhile_append2)
qed

text \<open>Recording a plain key keeps the file in step with the set in memory.\<close>

lemma ledger_ok_record:
  assumes "ledger_ok l" and "plain_key k" and "plain_field src" and "plain_field dst" and "plain_field oper"
    and "newline \<notin> set (fmt2 amount)"
    and "length (k @ '','' @ src @ '','' @ dst @ '','' @ fmt2 amount @ '','' @ oper) < 65536"
  shows "ledger_ok (fst (ledger_record None k src dst oper amount l))"
proof -
  define line where "line = k @ '','' @ src @ '','' @ dst @ '','' @ fmt2 amount @ '','' @ oper"
  have nl: "newline \<notin> set line" using assms(2-6) by (simp add: line_def plain_key_def plain_field_def newline_def del: fmt2.simps)
  have new: "Split newline (line @ [newline]) = [line, []]" using Split_append [OF nl, of "[]"] by simp
  have f: "ledgerFile (fst (ledger_record None k src dst oper amount l)) = ledgerFile l @ line @ [newline]"
    by (simp add: ledger_record_def line_def del: fmt2.simps)
  have key: "line_key line = Some k" using line_key_record [OF assms(2)] by (simp add: line_def del: fmt2.simps)
  have blank: "line_key [] = None" by (simp add: line_key_def TrimSpace_def)
  have split: "Split newline (ledgerFile l @ line @ [newline]) = butlast (Split newline (ledgerFile l)) @ [line, []]
      \<and> set (List.map_filter line_key (Split newline (ledgerFile l)))
        = set (List.map_filter line_key (butlast (Split newline (ledgerFile l))))"
  proof (cases "ledgerFile l = []")
    case True
    then show ?thesis using new blank by (simp add: List.map_filter_simps)
  next
    case False
    then obtain xs where xs: "ledgerFile l = xs @ [newline]"
      using assms(1) unfolding ledger_ok_def by (metis append_butlast_last_id)
    have "Split newline (ledgerFile l @ line @ [newline]) = butlast (Split newline (ledgerFile l)) @ [line, []]"
      using Split_line_end [of newline xs "line @ [newline]"] new by (simp add: xs)
    moreover have "Split newline (ledgerFile l) = butlast (Split newline (ledgerFile l)) @ [[]]"
      unfolding xs by (rule Split_last_empty)
    then have "List.map_filter line_key (Split newline (ledgerFile l))
        = List.map_filter line_key (butlast (Split newline (ledgerFile l)) @ [[]])" by simp
    ultimately show ?thesis using blank by (simp add: List.map_filter_def)
  qed
  have "length line < 65536" using assms(7) unfolding line_def .
  moreover have "ledgerApplied (fst (ledger_record None k src dst oper amount l)) = insert k (ledgerApplied l)"
    by (simp add: ledger_record_def del: fmt2.simps)
  ultimately show ?thesis using assms(1) split key blank unfolding ledger_ok_def f
    by (auto simp: List.map_filter_def list_all_iff dest: in_set_butlastD)
qed

lemma ledger_reopens: "ledger_ok l \<Longrightarrow> openLedger None (ledgerPath l) (ledgerFile l) = Inr l"
  by (auto simp: ledger_ok_def openLedger_def list_ex_iff list_all_iff not_le)

lemma restart_implements:
  assumes "implements b s" and "ledger_ok (bledger b)"
  shows "\<exists>b1. restart b = Inr b1 \<and> implements b1 (s\<lparr>held := Map.empty\<rparr>) \<and> bledger b1 = bledger b"
proof -
  obtain as where as: "stored as (bstore b)" "funds s = funds_of as" using assms(1) by (auto simp: implements_def)
  then have "NewStore None (storePath (bstore b)) (storeFile (bstore b)) = Inr (bstore b)"
    by (simp add: NewStore_def stored_def Let_def)
  then show ?thesis using ledger_reopens [OF assms(2)] as assms(1)
    by (auto simp: restart_def newParticipant_def implements_def)
qed

lemma itoa_no_newline: "newline \<notin> set (itoa n)"
proof (induction n rule: itoa.induct)
  case (1 n)
  have "n < 10 \<Longrightarrow> digit n \<noteq> newline" "digit (n mod 10) \<noteq> newline"
    using digit_not_space by (simp_all add: newline_def)
  then show ?case using 1 by (subst itoa.simps) auto
qed

lemma fmt2_no_newline: "newline \<notin> set (fmt2 x)"
  using itoa_no_newline by (cases x) (auto simp: Let_def newline_def)

definition plain_command :: "bcommand \<Rightarrow> bool" where
  "plain_command c \<longleftrightarrow> plain_key (bcKey c) \<and> plain_field (bcAccount c) \<and> plain_field (bcCounterparty c)
     \<and> plain_field (operation_string (bcOp c))
     \<and> length (bcKey c) + length (bcAccount c) + length (bcCounterparty c) + length (fmt2 (bcAmount c))
         + length (operation_string (bcOp c)) + 4 < 65536"

lemma ledger_ok_apply:
  assumes "ledger_ok (bledger b)" and "plain_command c"
  shows "ledger_ok (bledger (fst (apply_cmd F v c b)))"
proof -
  have rec: "ledger_ok (fst (ledger_record le (bcKey c) x y (operation_string (bcOp c)) (bcAmount c) (bledger b)))"
    if "(x, y) = (bcAccount c, bcCounterparty c) \<or> (x, y) = (bcCounterparty c, bcAccount c)" for le x y
  proof (cases le)
    case None
    then show ?thesis unfolding None
      using that assms(2) by (intro ledger_ok_record [OF assms(1)]) (auto simp: plain_command_def fmt2_no_newline simp del: fmt2.simps)
  qed (use assms(1) in \<open>simp add: ledger_record_def\<close>)
  have "ledger_ok (bledger (fst (apply_leg F v (bcKey c) (bcOp c) (bcAccount c) (bcCounterparty c) (bcAmount c) b)))"
    using rec [of "bcAccount c" "bcCounterparty c" "ledgerErr v"] rec [of "bcCounterparty c" "bcAccount c" "ledgerErr v"] assms(1)
    by (auto simp: apply_leg_def release_def Let_def split: prod.splits sum.splits option.splits)
  then show ?thesis using assms(1)
    by (auto simp: apply_cmd_def prepare_def commit_def abort_def release_def Let_def
        split: cmdKind.splits prod.splits sum.splits option.splits if_splits)
qed

lemma ledger_ok_run:
  "ledger_ok (bledger b) \<Longrightarrow> list_all (\<lambda>(v, c). plain_command c) cs \<Longrightarrow> ledger_ok (bledger (fst (bank_run F cs b)))"
proof (induction cs arbitrary: b)
  case (Cons x cs)
  obtain v c where x: "x = (v, c)" by fastforce
  obtain b1 r where a: "apply_cmd F v c b = (b1, r)" by fastforce
  have "ledger_ok (bledger b1)" using ledger_ok_apply [of b c F v] Cons.prems a x by simp
  from Cons.IH [OF this] Cons.prems(2) show ?case using a x by (auto split: prod.splits)
qed simp

lemma store_kept_apply: "storeFile (bstore b) \<noteq> None \<Longrightarrow> storeFile (bstore (fst (apply_cmd F v c b))) \<noteq> None"
  by (auto simp: apply_cmd_def prepare_def commit_def apply_leg_def abort_def release_def AddDelta_def store_write_def Let_def
      split: cmdKind.splits prod.splits sum.splits option.splits if_splits)

lemma store_kept_run: "storeFile (bstore b) \<noteq> None \<Longrightarrow> storeFile (bstore (fst (bank_run F cs b))) \<noteq> None"
proof (induction cs arbitrary: b)
  case (Cons x cs)
  obtain v c where x: "x = (v, c)" by fastforce
  obtain b1 r where a: "apply_cmd F v c b = (b1, r)" by fastforce
  have "storeFile (bstore b1) \<noteq> None" using store_kept_apply [OF Cons.prems, of F v c] a by simp
  from Cons.IH [OF this] show ?case using a x by (auto split: prod.splits)
qed simp

text \<open>
  A restart forgets no settled transaction.  After any log, with any failures of its files, a
  replica whose keys are plain words and whose records are lines comes up again with the very same
  accounts and ledger; only its reservations are gone.
\<close>

theorem restart_remembers:
  assumes "ledger_ok l" and "list_all (\<lambda>(v, c). plain_command c) cs" and "storeFile s0 \<noteq> None"
    and "bank_run F cs (newParticipant s0 l) = (b, rs)"
  shows "restart b = Inr (b\<lparr>bprepared := []\<rparr>)"
proof -
  have "ledger_ok (bledger b)" using ledger_ok_run [of "newParticipant s0 l" cs F] assms by (simp add: newParticipant_def)
  moreover have "storeFile (bstore b) \<noteq> None"
    using store_kept_run [of "newParticipant s0 l" F cs] assms(3,4) by (simp add: newParticipant_def)
  then have "NewStore None (storePath (bstore b)) (storeFile (bstore b)) = Inr (bstore b)"
    by (auto simp: NewStore_def Let_def)
  ultimately show ?thesis using ledger_reopens by (simp add: restart_def newParticipant_def)
qed

lemma wit_ledger_ok: "ledger_ok wit_ledger"
  by (simp add: ledger_ok_def wit_ledger_def line_key_def TrimSpace_def List.map_filter_simps)

lemma short_amounts: "length (fmt2 (units 100)) = 6"
proof -
  have "fmt2 (units 100) = ''100.00''"
  proof -
    have "round_half_even (100 * \<bar>of_int 100 :: rat\<bar>) = 10000" using round_half_even_int [of 10000] by simp
    moreover have "itoa 100 = ''100''" "itoa 0 = ''0''" by code_simp+
    ultimately show ?thesis by (simp add: units_def Let_def)
  qed
  then show ?thesis by simp
qed

lemma wit_plain: "list_all (\<lambda>(v, c). plain_command c) (zip vs (map fst wit_log))"
proof -
  have "list_all plain_command (map fst wit_log)"
    by (simp add: wit_log_def wit_cmd_def plain_command_def plain_key_def plain_field_def newline_def is_space_def short_amounts)
  then show ?thesis unfolding list_all_iff by (auto simp del: set_map dest!: set_zip_rightD)
qed

theorem restart_remembers_witness:
  "case bank_run exact_floats (zip (replicate 3 wit_env) (map fst wit_log)) (newParticipant wit_store wit_ledger) of
     (b, rs) \<Rightarrow> restart b = Inr (b\<lparr>bprepared := []\<rparr>)"
proof -
  obtain b rs where r: "bank_run exact_floats (zip (replicate 3 wit_env) (map fst wit_log)) (newParticipant wit_store wit_ledger) = (b, rs)"
    by fastforce
  have "storeFile wit_store \<noteq> None" by (simp add: wit_store_def)
  from restart_remembers [OF wit_ledger_ok wit_plain this r] r show ?thesis by simp
qed

section \<open>The log applied again\<close>

text \<open>
  Paxos keeps no snapshot: a replica that starts again applies its log from the first slot, to the
  files the first time has left.
\<close>

definition wit_next :: "(bcommand \<times> int) list" where
  "wit_next = [wit_cmd cmdPrepare ''k3'' opDebit 100, wit_cmd cmdCommit ''k3'' opDebit 100]"

lemmas vault_eval = wit_cmd_def vault_step_def vault_prepare_def vault_commit_def hold_matches_def on_hold_def
  has_room_def fits_def Let_def fun_upd_def [symmetric]

lemma wit_bank_run:
  assumes "implements b s" and "vault_ok s" and "whole_log cs s" and "vault_run cs s = (s1, qs)"
    and "bank_run exact_floats (zip (replicate (length cs) wit_env) (map fst cs)) b = (b1, rs)"
  shows "implements b1 s1" and "vault_ok s1" and "map (\<lambda>r. (arCode r, arSettled r)) rs = qs" and "map arCode rs = map fst qs"
  using bank_run_refines [OF exact_floats_ok assms(2,1), of "replicate (length cs) wit_env" cs] assms(3-5) wit_facts(3)
  by (auto simp: list_all_iff)

lemma replay_vault:
  "vault_run wit_log \<lparr>funds = [''A'' \<mapsto> 150], held = Map.empty, settledKeys = {''k2''}\<rparr> =
     (\<lparr>funds = [''A'' \<mapsto> 150], held = [''k1'' \<mapsto> \<lparr>hOp = opDebit, hAccount = ''A'', hCounterparty = ''B'', hAmount = 100, hSettled = False\<rparr>],
        settledKeys = {''k2''}\<rparr>, [(GOK, False), (GOK, False), (GOK, True)])"
  "whole_log wit_log \<lparr>funds = [''A'' \<mapsto> 150], held = Map.empty, settledKeys = {''k2''}\<rparr>"
  by (simp_all add: wit_log_def vault_eval)

lemma next_vault:
  "vault_run wit_next \<lparr>funds = [''A'' \<mapsto> 150], held = Map.empty, settledKeys = {''k2''}\<rparr> =
     (\<lparr>funds = [''A'' \<mapsto> 50], held = Map.empty, settledKeys = {''k3'', ''k2''}\<rparr>, [(GOK, False), (GOK, False)])"
  "whole_log wit_next \<lparr>funds = [''A'' \<mapsto> 150], held = Map.empty, settledKeys = {''k2''}\<rparr>"
  "vault_run wit_next (fst (vault_run wit_log \<lparr>funds = [''A'' \<mapsto> 150], held = Map.empty, settledKeys = {''k2''}\<rparr>)) =
     (fst (vault_run wit_log \<lparr>funds = [''A'' \<mapsto> 150], held = Map.empty, settledKeys = {''k2''}\<rparr>),
      [(GFailedPrecondition, False), (GAborted, False)])"
  "whole_log wit_next (fst (vault_run wit_log \<lparr>funds = [''A'' \<mapsto> 150], held = Map.empty, settledKeys = {''k2''}\<rparr>))"
  unfolding replay_vault(1) by (simp_all add: wit_next_def vault_eval)

text \<open>
  C35: a replica that restarts leaves its group.  A debit of 100 from an account of 50 is refused and
  a credit of 100 is settled.  One replica restarts and applies the log again, now over a balance of
  150: the debit that was refused is granted and holds 100 that nobody will ever commit or abort.
  The next debit of 100 is then prepared and committed by the replicas that stayed up, and refused by
  this one: the group answers for an account of 50, this replica holds one of 150.
\<close>

theorem restart_diverges:
  "let run = (\<lambda>cs. bank_run exact_floats (zip (replicate (length cs) wit_env) (map fst cs)));
       (b1, r1) = run wit_log (newParticipant wit_store wit_ledger)
   in \<exists>b2. restart b1 = Inr b2
      \<and> (let (b3, r3) = run wit_log b2; (b4, r4) = run wit_next b1; (b5, r5) = run wit_next b3
         in map arCode r1 = [GFailedPrecondition, GOK, GOK] \<and> map arCode r3 = [GOK, GOK, GOK]
          \<and> map arCode r4 = [GOK, GOK] \<and> map arCode r5 = [GFailedPrecondition, GAborted]
          \<and> store_Balance exact_floats None ''A'' (bstore b4) = Inr (units 50)
          \<and> store_Balance exact_floats None ''A'' (bstore b5) = Inr (units 150))"
proof -
  let ?run = "\<lambda>cs. bank_run exact_floats (zip (replicate (length cs) wit_env) (map fst cs))"
  obtain b1 r1 where e1: "?run wit_log (newParticipant wit_store wit_ledger) = (b1, r1)" by fastforce
  note s1 = wit_bank_run [OF opened_implements [OF wit_facts(1)] opened_ok [OF wit_facts(2)] wit_vault_run(2,1) e1]
  have "ledger_ok (bledger b1)"
    using ledger_ok_run [of "newParticipant wit_store wit_ledger", OF _ wit_plain] wit_ledger_ok e1
    by (metis bank.select_convs(2) fst_conv newParticipant_def)
  then obtain b2 where b2: "restart b1 = Inr b2" and i2: "implements b2 \<lparr>funds = [''A'' \<mapsto> 150], held = Map.empty, settledKeys = {''k2''}\<rparr>"
    using restart_implements [OF s1(1)] by auto
  have ok: "vault_ok \<lparr>funds = [''A'' \<mapsto> 150], held = Map.empty, settledKeys = {''k2''}\<rparr>" by (rule s1(2))
  obtain b3 r3 where e3: "?run wit_log b2 = (b3, r3)" by fastforce
  note s3 = wit_bank_run [OF i2 ok replay_vault(2,1) e3]
  obtain b4 r4 where e4: "?run wit_next b1 = (b4, r4)" by fastforce
  note s4 = wit_bank_run [OF s1(1) ok next_vault(2,1) e4]
  obtain b5 r5 where e5: "?run wit_next b3 = (b5, r5)" by fastforce
  note s5 = wit_bank_run [OF _ _ next_vault(4,3) e5, unfolded replay_vault(1) fst_conv, OF s3(1,2)]
  have f: "implements b4 \<lparr>funds = [''A'' \<mapsto> 50], held = Map.empty, settledKeys = {''k3'', ''k2''}\<rparr>"
    "implements b5 (fst (vault_run wit_log \<lparr>funds = [''A'' \<mapsto> 150], held = Map.empty, settledKeys = {''k2''}\<rparr>))"
    "map arCode r1 = [GFailedPrecondition, GOK, GOK]" "map arCode r3 = [GOK, GOK, GOK]"
    "map arCode r4 = [GOK, GOK]" "map arCode r5 = [GFailedPrecondition, GAborted]"
    using s1(4) s3(1,2,4) s4(1,4) s5(1,4) by (simp_all add: replay_vault(1))
  have "store_Balance exact_floats None ''A'' (bstore b4) = Inr (units 50)"
    "store_Balance exact_floats None ''A'' (bstore b5) = Inr (units 150)"
    using implements_Balance [OF exact_floats_ok f(1), of "''A''"] implements_Balance [OF exact_floats_ok f(2), of "''A''"]
    by (simp_all add: replay_vault(1))
  then show ?thesis using f(3-6) e1 e3 e4 e5 b2 by (auto simp: Let_def)
qed

text \<open>A crash inside \<^verbatim>\<open>commit\<close>, after \<^verbatim>\<open>AddDelta\<close> replaced the account file and before \<^verbatim>\<open>record\<close>.\<close>

definition crash_in_commit :: "floats \<Rightarrow> bcommand \<Rightarrow> bank \<Rightarrow> bank" where
  "crash_in_commit F c b =
     b\<lparr>bstore := fst (AddDelta F None None (bcAccount c) (if bcOp c = opDebit then f_neg (bcAmount c) else bcAmount c) (bstore b))\<rparr>"

definition wit_credit :: "(bcommand \<times> int) list" where
  "wit_credit = [wit_cmd cmdPrepare ''k'' opCredit 100, wit_cmd cmdCommit ''k'' opCredit 100]"

text \<open>
  C36: and a crash between the two files applies a transaction twice.  A credit of 100 to an account of
  50 is prepared; the replica crashes inside the commit, when the account file is written and the
  ledger is not.  It starts again and applies the log once more: both commands succeed, the commit
  says it is new, and the account stands at 250.
\<close>

theorem crash_applies_twice:
  "let run = (\<lambda>cs. bank_run exact_floats (zip (replicate (length cs) wit_env) (map fst cs)));
       (b1, r1) = run [hd wit_credit] (newParticipant wit_store wit_ledger)
   in \<exists>b2. restart (crash_in_commit exact_floats (fst (wit_credit ! 1)) b1) = Inr b2
      \<and> (let (b3, r3) = run wit_credit b2
         in map (\<lambda>r. (arCode r, arSettled r)) r3 = [(GOK, False), (GOK, False)]
          \<and> store_Balance exact_floats None ''A'' (bstore b3) = Inr (units 250))"
proof -
  let ?run = "\<lambda>cs. bank_run exact_floats (zip (replicate (length cs) wit_env) (map fst cs))"
  let ?h = "\<lparr>hOp = opCredit, hAccount = ''A'', hCounterparty = ''B'', hAmount = 100, hSettled = False\<rparr>"
  let ?v = "\<lambda>n. \<lparr>funds = [''A'' \<mapsto> n], held = Map.empty, settledKeys = {}\<rparr>"
  have v: "vault_run [hd wit_credit] (opened wit_rows wit_ledger)
      = (\<lparr>funds = [''A'' \<mapsto> 50], held = [''k'' \<mapsto> ?h], settledKeys = {}\<rparr>, [(GOK, False)])"
    "whole_log [hd wit_credit] (opened wit_rows wit_ledger)"
    "vault_run wit_credit (?v 150) = (\<lparr>funds = [''A'' \<mapsto> 250], held = Map.empty, settledKeys = {''k''}\<rparr>, [(GOK, False), (GOK, False)])"
    "whole_log wit_credit (?v 150)"
    by (simp_all add: wit_credit_def opened_def wit_facts(4) wit_ledger_def vault_eval)
  obtain b1 r1 where e1: "?run [hd wit_credit] (newParticipant wit_store wit_ledger) = (b1, r1)" by fastforce
  note s1 = wit_bank_run [OF opened_implements [OF wit_facts(1)] opened_ok [OF wit_facts(2)] v(2,1) e1]
  obtain as where as: "stored as (bstore b1)" "funds_of as = [''A'' \<mapsto> 50]" using s1(1) by (auto simp: implements_def)
  let ?b = "crash_in_commit exact_floats (fst (wit_credit ! 1)) b1"
  obtain t as1 where add: "AddDelta exact_floats None None ''A'' (units 100) (bstore b1) = (t, Inr (units 150))" "stored as1 t"
      "\<forall>j. funds_of as1 j = (if j = ''A'' then Some 150 else funds_of as j)"
    using AddDelta_stored [OF exact_floats_ok as(1), of "''A''" 50 100] as(2) by (auto simp: fits_def)
  have b: "?b = b1\<lparr>bstore := t\<rparr>" using add(1) by (simp add: crash_in_commit_def wit_credit_def wit_cmd_def)
  have "funds_of as1 = [''A'' \<mapsto> 150]" using add(3) as(2) by (intro ext) auto
  then have i: "implements ?b \<lparr>funds = [''A'' \<mapsto> 150], held = [''k'' \<mapsto> ?h], settledKeys = {}\<rparr>"
    using s1(1) add(2) unfolding b by (auto simp: implements_def)
  have "plain_command (fst (hd wit_credit))"
    by (simp add: wit_credit_def wit_cmd_def plain_command_def plain_key_def plain_field_def newline_def is_space_def short_amounts)
  then have "ledger_ok (bledger b1)"
    using ledger_ok_run [of "newParticipant wit_store wit_ledger" "zip (replicate (length [hd wit_credit]) wit_env) (map fst [hd wit_credit])"
        exact_floats] wit_ledger_ok e1 by (simp add: newParticipant_def)
  then have "ledger_ok (bledger ?b)" unfolding b by simp
  then obtain b2 where b2: "restart ?b = Inr b2" "implements b2 (?v 150)" using restart_implements [OF i] by auto
  have ok: "vault_ok (?v 150)" by (simp add: vault_ok_def on_hold_def)
  obtain b3 r3 where e3: "?run wit_credit b2 = (b3, r3)" by fastforce
  note s3 = wit_bank_run [OF b2(2) ok v(4,3) e3]
  have "store_Balance exact_floats None ''A'' (bstore b3) = Inr (units 250)"
    using implements_Balance [OF exact_floats_ok s3(1), of "''A''"] by simp
  then show ?thesis using e1 e3 b2(1) s3(3) by (auto simp: Let_def)
qed

end
