(* ===== verification/PaymentTransfer.thy ===== *)
theory PaymentTransfer
  imports BankRuns
begin

text \<open>
  The payment gateway's registry of banks and its coordinator of two-phase commit, from
  \<^verbatim>\<open>src/gateway/registry.go\<close> and \<^verbatim>\<open>src/gateway/transfer.go\<close>.  The network is a parameter: a call on a
  connection changes the world and answers, or fails; what other goroutines do meanwhile, also to the
  registry, is part of the call.  A network over the model of the banks that loses, delays and
  reorders at will instantiates it, and against it a transfer is shown atomic.
\<close>

section \<open>The registry\<close>

text \<open>A connection is its address and an identity; a closed one stays closed.\<close>

record bankConn =
  connAddress :: string
  connId :: nat

record bankRegistry =
  regBanks :: "string \<rightharpoonup> bankConn"
  regClosed :: "nat set"
  regNext :: nat

definition newBankRegistry :: bankRegistry where
  "newBankRegistry = \<lparr>regBanks = Map.empty, regClosed = {}, regNext = 0\<rparr>"

definition registry_register :: "goerror option \<Rightarrow> string \<Rightarrow> string \<Rightarrow> bankRegistry \<Rightarrow> bankRegistry \<times> goerror option" where
  "registry_register ce name address r =
     (let connect = (\<lambda>r. case ce of
            Some err \<Rightarrow> (r, Some (Errorf (''connect to bank '' @ name @ '' at '' @ address @ '': '') err []))
          | None \<Rightarrow> (r\<lparr>regBanks := (regBanks r)(name \<mapsto> \<lparr>connAddress = address, connId = regNext r\<rparr>),
                        regNext := Suc (regNext r)\<rparr>, None))
      in case regBanks r name of
           Some existing \<Rightarrow>
             if connAddress existing = address then (r, None)
             else connect (r\<lparr>regClosed := insert (connId existing) (regClosed r)\<rparr>)
         | None \<Rightarrow> connect r)"

definition registry_client :: "string \<Rightarrow> bankRegistry \<Rightarrow> gstatus + bankConn" where
  "registry_client name r =
     (case regBanks r name of
        None \<Rightarrow> Inl (status_Error GNotFound (''bank '' @ quote name @ '' is not registered with this gateway''))
      | Some c \<Rightarrow> Inr c)"

definition registry_close :: "bankRegistry \<Rightarrow> bankRegistry" where
  "registry_close r = r\<lparr>regClosed := regClosed r \<union> connId ` ran (regBanks r), regBanks := Map.empty\<rparr>"

section \<open>The coordinator\<close>

text \<open>The context of a call: the client's, or a fresh one that outlives the client.\<close>

datatype callctx = CallerCtx | BackgroundCtx

record 'w net =
  registryOf :: "'w \<Rightarrow> bankRegistry"
  rpc :: "callctx \<Rightarrow> bankConn \<Rightarrow> cmdKind \<Rightarrow> operation \<Rightarrow> legRequest \<Rightarrow> 'w \<Rightarrow> 'w \<times> gstatus option"
  pause :: "'w \<Rightarrow> 'w"

record transferRequest =
  trTransaction :: string
  trFromAccount :: string
  trToAccount :: string
  trFromBank :: string
  trToBank :: string
  trAmount :: float64

definition commitAttempts :: nat where
  "commitAttempts = 3"

definition pay_retriable :: "gstatus \<Rightarrow> bool" where
  "pay_retriable err \<longleftrightarrow> SCode err \<in> {GUnavailable, GDeadlineExceeded, GResourceExhausted, GAborted}"

definition wrapPhase :: "gstatus \<Rightarrow> string \<Rightarrow> gstatus" where
  "wrapPhase err context = status_Error (SCode err) (context @ '': '' @ SMessage err)"

definition debit_of :: "transferRequest \<Rightarrow> legRequest" where
  "debit_of req = \<lparr>lrAccount = trFromAccount req, lrAmount = trAmount req, lrTransaction = trTransaction req,
     lrCounterparty = trToAccount req\<rparr>"

definition credit_of :: "transferRequest \<Rightarrow> legRequest" where
  "credit_of req = \<lparr>lrAccount = trToAccount req, lrAmount = trAmount req, lrTransaction = trTransaction req,
     lrCounterparty = trFromAccount req\<rparr>"

text \<open>The loop of \<^verbatim>\<open>commit\<close>, with the attempts that are left and the last error.\<close>

fun commit_loop :: "'w net \<Rightarrow> string \<Rightarrow> operation \<Rightarrow> legRequest \<Rightarrow> nat \<Rightarrow> gstatus option \<Rightarrow> 'w \<Rightarrow> 'w \<times> gstatus option" where
  "commit_loop N bankName leg req 0 lastErr w = (w, lastErr)"
| "commit_loop N bankName leg req (Suc left) lastErr w =
     (case registry_client bankName (registryOf N w) of
        Inl err \<Rightarrow> (w, Some err)
      | Inr c \<Rightarrow>
          (case rpc N BackgroundCtx c cmdCommit leg req w of
             (w1, None) \<Rightarrow> (w1, None)
           | (w1, Some err) \<Rightarrow>
               if \<not> pay_retriable err then (w1, Some err)
               else commit_loop N bankName leg req left (Some err) (if 0 < left then pause N w1 else w1)))"

definition coord_commit :: "'w net \<Rightarrow> string \<Rightarrow> operation \<Rightarrow> legRequest \<Rightarrow> 'w \<Rightarrow> 'w \<times> gstatus option" where
  "coord_commit N bankName leg req w = commit_loop N bankName leg req commitAttempts None w"

definition coord_abort :: "'w net \<Rightarrow> bankConn \<Rightarrow> operation \<Rightarrow> legRequest \<Rightarrow> 'w \<Rightarrow> 'w" where
  "coord_abort N c leg req w = fst (rpc N BackgroundCtx c cmdAbort leg req w)"

definition in_doubt :: "transferRequest \<Rightarrow> gstatus" where
  "in_doubt req = status_Error GDataLoss (''transaction '' @ trTransaction req @
     '' is in doubt: the sender was debited but the receiver could not be credited; it requires manual reconciliation'')"

text \<open>Phase two, once both banks have voted yes.\<close>

definition pay_phase_two :: "'w net \<Rightarrow> transferRequest \<Rightarrow> bankConn \<Rightarrow> bankConn \<Rightarrow> 'w \<Rightarrow> 'w \<times> gstatus option" where
  "pay_phase_two N req sender receiver w =
     (case coord_commit N (trFromBank req) opDebit (debit_of req) w of
        (w1, Some err) \<Rightarrow>
          (coord_abort N receiver opCredit (credit_of req) (coord_abort N sender opDebit (debit_of req) w1),
           Some (wrapPhase err ''debit could not be committed''))
      | (w1, None) \<Rightarrow>
          (case coord_commit N (trToBank req) opCredit (credit_of req) w1 of
             (w2, Some err) \<Rightarrow> (w2, Some (in_doubt req))
           | (w2, None) \<Rightarrow> (w2, None)))"

definition pay_transfer :: "'w net \<Rightarrow> transferRequest \<Rightarrow> 'w \<Rightarrow> 'w \<times> gstatus option" where
  "pay_transfer N req w =
     (case registry_client (trFromBank req) (registryOf N w) of
        Inl err \<Rightarrow>
          (w, Some (status_Error GNotFound (''sender bank '' @ quote (trFromBank req) @ '' is not registered with this gateway'')))
      | Inr sender \<Rightarrow>
          (case registry_client (trToBank req) (registryOf N w) of
             Inl err \<Rightarrow>
               (w, Some (status_Error GNotFound (''receiver bank '' @ quote (trToBank req) @ '' is not registered with this gateway'')))
           | Inr receiver \<Rightarrow>
               (case rpc N CallerCtx sender cmdPrepare opDebit (debit_of req) w of
                  (w1, Some err) \<Rightarrow> (w1, Some (wrapPhase err ''debit could not be prepared''))
                | (w1, None) \<Rightarrow>
                    (case rpc N CallerCtx receiver cmdPrepare opCredit (credit_of req) w1 of
                       (w2, Some err) \<Rightarrow>
                         (coord_abort N sender opDebit (debit_of req) w2, Some (wrapPhase err ''credit could not be prepared''))
                     | (w2, None) \<Rightarrow> pay_phase_two N req sender receiver w2))))"

text \<open>What every call keeps, a transfer keeps.\<close>

lemma commit_loop_keeps:
  assumes "\<And>x c k leg r w. P w \<Longrightarrow> P (fst (rpc N x c k leg r w))" and "\<And>w. P w \<Longrightarrow> P (pause N w)"
  shows "P w \<Longrightarrow> P (fst (commit_loop N nm leg r left lastErr w))"
proof (induction left arbitrary: lastErr w)
  case (Suc left)
  show ?case
  proof (cases "registry_client nm (registryOf N w)")
    case (Inr c)
    obtain w2 a where call: "rpc N BackgroundCtx c cmdCommit leg r w = (w2, a)" by fastforce
    then have "P w2" using assms(1) [OF Suc.prems] by (metis fst_conv)
    then show ?thesis using Inr call Suc.IH assms(2) by (auto split: option.splits)
  qed (use Suc.prems in auto)
qed simp

lemma transfer_keeps:
  assumes call: "\<And>x c k leg r w. P w \<Longrightarrow> P (fst (rpc N x c k leg r w))" and "\<And>w. P w \<Longrightarrow> P (pause N w)" and "P w"
  shows "P (fst (pay_transfer N req w))"
proof -
  have calls: "P w2" if "P v" "rpc N x c k leg r v = (w2, a)" for x c k leg r v w2 a
    using call [OF that(1)] that(2) by (metis fst_conv)
  have commits: "P w2" if "P v" "coord_commit N nm leg r v = (w2, a)" for nm leg r v w2 a
    using commit_loop_keeps [of P, OF assms(1,2) that(1)] that(2) unfolding coord_commit_def by (metis fst_conv)
  have two: "P (fst (pay_phase_two N req sender receiver v))" if "P v" for sender receiver v
  proof -
    obtain w2 a where c: "coord_commit N (trFromBank req) opDebit (debit_of req) v = (w2, a)" by fastforce
    obtain w3 d where r: "coord_commit N (trToBank req) opCredit (credit_of req) w2 = (w3, d)" by fastforce
    have "P w2" "P w3" using commits that c r by blast+
    then show ?thesis using c r by (auto simp: pay_phase_two_def coord_abort_def split: option.splits intro!: call)
  qed
  have one: "P (fst (case rpc N CallerCtx sender cmdPrepare opDebit (debit_of req) w of
      (w1, Some err) \<Rightarrow> (w1, Some (wrapPhase err t))
    | (w1, None) \<Rightarrow> (case rpc N CallerCtx receiver cmdPrepare opCredit (credit_of req) w1 of
        (w2, Some err) \<Rightarrow> (coord_abort N sender opDebit (debit_of req) w2, Some (wrapPhase err u))
      | (w2, None) \<Rightarrow> pay_phase_two N req sender receiver w2)))" for sender receiver t u
  proof -
    obtain w2 a where p: "rpc N CallerCtx sender cmdPrepare opDebit (debit_of req) w = (w2, a)" by fastforce
    obtain w3 d where q: "rpc N CallerCtx receiver cmdPrepare opCredit (credit_of req) w2 = (w3, d)" by fastforce
    have "P w2" "P w3" using calls assms(3) p q by blast+
    then show ?thesis using p q two by (auto simp: coord_abort_def split: option.splits intro!: call)
  qed
  show ?thesis unfolding pay_transfer_def using assms(3) one by (simp split: sum.splits)
qed

text \<open>A client that sends the same transfer again and again.\<close>

fun pay_tries :: "'w net \<Rightarrow> transferRequest \<Rightarrow> nat \<Rightarrow> 'w \<Rightarrow> 'w \<times> gstatus option list" where
  "pay_tries N req 0 w = (w, [])"
| "pay_tries N req (Suc n) w =
     (case pay_transfer N req w of (w1, e) \<Rightarrow> (case pay_tries N req n w1 of (w2, es) \<Rightarrow> (w2, e # es)))"

section \<open>What the coordinator relies on\<close>

text \<open>
  The contract of the network and the banks, for one transfer.  A settled leg stays settled, an
  answered commit has settled its leg, and the credit is settled only by a commit that was sent.
  Prepares, refusals and aborts carry no promise.
\<close>

locale payment_network =
  fixes N :: "'w net"
    and req :: transferRequest
    and ok :: "'w \<Rightarrow> bool"
    and owns :: "string \<Rightarrow> bankConn \<Rightarrow> bool"
    and debited credited sent :: "'w \<Rightarrow> bool"
  assumes resolved: "ok w \<Longrightarrow> registry_client name (registryOf N w) = Inr c \<Longrightarrow> owns name c"
    and call_ok: "ok w \<Longrightarrow> rpc N x c k leg r w = (w1, e) \<Longrightarrow> ok w1"
    and call_keeps: "ok w \<Longrightarrow> rpc N x c k leg r w = (w1, e) \<Longrightarrow> (debited w \<longrightarrow> debited w1) \<and> (credited w \<longrightarrow> credited w1)"
    and debit_lands: "ok w \<Longrightarrow> owns (trFromBank req) c \<Longrightarrow> rpc N x c cmdCommit opDebit (debit_of req) w = (w1, None) \<Longrightarrow> debited w1"
    and credit_lands: "ok w \<Longrightarrow> owns (trToBank req) c \<Longrightarrow> rpc N x c cmdCommit opCredit (credit_of req) w = (w1, None) \<Longrightarrow> credited w1"
    and credit_by_commit: "ok w \<Longrightarrow> rpc N x c k leg r w = (w1, e) \<Longrightarrow> credited w1 \<or> sent w1 \<Longrightarrow>
      k = cmdCommit \<longrightarrow> leg = opDebit \<Longrightarrow> credited w \<or> sent w"
    and pause_keeps: "ok w \<Longrightarrow> ok (pause N w) \<and> debited (pause N w) = debited w \<and> credited (pause N w) = credited w \<and> sent (pause N w) = sent w"
begin

text \<open>Money is not credited, and not on its way to be, unless it has been debited.\<close>

definition safe :: "'w \<Rightarrow> bool" where
  "safe w \<longleftrightarrow> ok w \<and> (credited w \<or> sent w \<longrightarrow> debited w)"

lemma safe_call:
  assumes "safe w" and "rpc N x c k leg r w = (w1, e)" and "k = cmdCommit \<longrightarrow> leg = opDebit \<or> debited w"
  shows "safe w1"
  using assms call_ok [of w x c k leg r w1 e] call_keeps [of w x c k leg r w1 e] credit_by_commit [of w x c k leg r w1 e]
  by (auto simp: safe_def)

lemma safe_pause: "safe w \<Longrightarrow> safe (pause N w)"
  using pause_keeps [of w] by (simp add: safe_def)

lemma safe_abort: "safe w \<Longrightarrow> safe (coord_abort N c leg r w)"
  using safe_call [of w BackgroundCtx c cmdAbort leg r] by (metis cmdKind.distinct(7) coord_abort_def prod.collapse)

lemma debited_pause: "safe w \<Longrightarrow> debited (pause N w) = debited w"
  using pause_keeps [of w] by (simp add: safe_def)

lemma debited_call: "safe w \<Longrightarrow> debited w \<Longrightarrow> rpc N x c k leg r w = (w1, e) \<Longrightarrow> debited w1"
  using call_keeps [of w x c k leg r w1 e] by (simp add: safe_def)

lemma commit_debit_safe:
  assumes "safe w" and "commit_loop N (trFromBank req) opDebit (debit_of req) left lastErr w = (w1, e)"
    and "lastErr = None \<longrightarrow> 0 < left"
  shows "safe w1 \<and> (e = None \<longrightarrow> debited w1)"
  using assms
proof (induction left arbitrary: lastErr w)
  case (Suc left)
  show ?case
  proof (cases "registry_client (trFromBank req) (registryOf N w)")
    case (Inr c)
    then have own: "owns (trFromBank req) c" using Suc.prems(1) by (auto simp: safe_def intro: resolved)
    obtain w2 a where call: "rpc N BackgroundCtx c cmdCommit opDebit (debit_of req) w = (w2, a)" by fastforce
    then have s: "safe w2" using safe_call [OF Suc.prems(1)] by fastforce
    have "a = None \<Longrightarrow> debited w2" using debit_lands [OF _ own] call Suc.prems(1) unfolding safe_def by blast
    then show ?thesis using Suc.prems(2) Inr call s Suc.IH [of "if 0 < left then pause N w2 else w2" a] safe_pause [OF s]
      by (auto split: option.splits if_splits)
  qed (use Suc.prems in auto)
qed auto

lemma commit_credit_safe:
  assumes "safe w" and "debited w" and "commit_loop N (trToBank req) opCredit (credit_of req) left lastErr w = (w1, e)"
    and "lastErr = None \<longrightarrow> 0 < left"
  shows "safe w1 \<and> debited w1 \<and> (e = None \<longrightarrow> credited w1)"
  using assms
proof (induction left arbitrary: lastErr w)
  case (Suc left)
  show ?case
  proof (cases "registry_client (trToBank req) (registryOf N w)")
    case (Inr c)
    then have own: "owns (trToBank req) c" using Suc.prems(1) by (auto simp: safe_def intro: resolved)
    obtain w2 a where call: "rpc N BackgroundCtx c cmdCommit opCredit (credit_of req) w = (w2, a)" by fastforce
    then have s: "safe w2" "debited w2" using safe_call [OF Suc.prems(1)] debited_call [OF Suc.prems(1,2)] Suc.prems(2) by blast+
    have "a = None \<Longrightarrow> credited w2" using credit_lands [OF _ own] call Suc.prems(1) unfolding safe_def by blast
    then show ?thesis using Suc.prems(3) Inr call s Suc.IH [of "if 0 < left then pause N w2 else w2" a]
        safe_pause [OF s(1)] debited_pause [OF s(1)]
      by (auto split: option.splits if_splits)
  qed (use Suc.prems in auto)
qed auto

lemma phase_two_safe:
  assumes "safe w" and "pay_phase_two N req sender receiver w = (w1, e)"
  shows "safe w1 \<and> (e = None \<longrightarrow> debited w1 \<and> credited w1)"
proof -
  obtain w2 a where c: "coord_commit N (trFromBank req) opDebit (debit_of req) w = (w2, a)" by fastforce
  then have s: "safe w2" "a = None \<longrightarrow> debited w2"
    using commit_debit_safe [OF assms(1)] by (simp_all add: coord_commit_def commitAttempts_def)
  obtain w3 d where r: "coord_commit N (trToBank req) opCredit (credit_of req) w2 = (w3, d)" by fastforce
  then have "a = None \<Longrightarrow> safe w3 \<and> debited w3 \<and> (d = None \<longrightarrow> credited w3)"
    using commit_credit_safe [OF s(1)] s(2) by (simp add: coord_commit_def commitAttempts_def)
  then show ?thesis using assms(2) c r safe_abort [OF safe_abort [OF s(1)]]
    by (auto simp: pay_phase_two_def split: option.splits)
qed

lemma transfer_safe:
  assumes "safe w" and "pay_transfer N req w = (w1, e)"
  shows "safe w1 \<and> (e = None \<longrightarrow> debited w1 \<and> credited w1)"
proof (cases "registry_client (trFromBank req) (registryOf N w)")
  case (Inr sender)
  note sender = Inr
  show ?thesis
  proof (cases "registry_client (trToBank req) (registryOf N w)")
    case (Inr receiver)
    obtain w2 a where p: "rpc N CallerCtx sender cmdPrepare opDebit (debit_of req) w = (w2, a)" by fastforce
    have s2: "safe w2" using safe_call [OF assms(1) p] by simp
    obtain w3 d where q: "rpc N CallerCtx receiver cmdPrepare opCredit (credit_of req) w2 = (w3, d)" by fastforce
    have s3: "safe w3" using safe_call [OF s2 q] by simp
    show ?thesis using assms(2) sender Inr p q s2 safe_abort [OF s3] phase_two_safe [OF s3]
      by (auto simp: pay_transfer_def split: option.splits)
  qed (use assms sender in \<open>auto simp: pay_transfer_def\<close>)
qed (use assms in \<open>auto simp: pay_transfer_def\<close>)

definition both_settled :: "'w \<Rightarrow> bool" where
  "both_settled w \<longleftrightarrow> ok w \<and> debited w \<and> credited w"

lemma settled_call: "both_settled w \<Longrightarrow> both_settled (fst (rpc N x c k leg r w))"
  using call_ok [of w x c k leg r] call_keeps [of w x c k leg r] unfolding both_settled_def by (metis prod.collapse)

lemma settled_pause: "both_settled w \<Longrightarrow> both_settled (pause N w)"
  using pause_keeps [of w] by (simp add: both_settled_def)

lemma tries_keep_settled: "both_settled w \<Longrightarrow> pay_tries N req n w = (w1, es) \<Longrightarrow> both_settled w1"
proof (induction n arbitrary: w es)
  case (Suc n)
  obtain w2 e where t: "pay_transfer N req w = (w2, e)" by fastforce
  obtain es2 where "pay_tries N req n w2 = (w1, es2)" using Suc.prems(2) t by (auto split: prod.splits)
  moreover have "both_settled w2"
    using transfer_keeps [of both_settled N, OF settled_call settled_pause Suc.prems(1), of req] t by simp
  ultimately show ?case using Suc.IH by blast
qed simp

lemma tries_safe:
  "safe w \<Longrightarrow> pay_tries N req n w = (w1, es) \<Longrightarrow> safe w1 \<and> (None \<in> set es \<longrightarrow> debited w1 \<and> credited w1)"
proof (induction n arbitrary: w w1 es)
  case (Suc n)
  obtain w2 e where t: "pay_transfer N req w = (w2, e)" by fastforce
  obtain es2 where es: "pay_tries N req n w2 = (w1, es2)" "es = e # es2"
    using Suc.prems(2) t by (auto split: prod.splits)
  have s: "safe w2" "e = None \<longrightarrow> debited w2 \<and> credited w2" using transfer_safe [OF Suc.prems(1) t] by auto
  then show ?case using Suc.IH [OF s(1) es(1)] tries_keep_settled [OF _ es(1)] es(2) by (auto simp: safe_def both_settled_def)
qed simp

end

section \<open>A network over the banks\<close>

text \<open>
  The banks of \<^verbatim>\<open>src/bank\<close>, each by its name, behind a network.  Before each call other traffic runs:
  commands of other transfers, commands that were sent and given up, banks that announce a new
  address.  The call then arrives or does not, and is answered or is not; a command that did not arrive
  in time stays in flight.  The disk of a bank may fail at each command.
\<close>

datatype event = Runs string benv bcommand | Lands nat benv | Announces string string

record fate =
  fBefore :: "event list"
  fDisk :: benv
  fArrives :: bool
  fReplies :: bool
  fError :: gstatus

record pworld =
  pwReg :: bankRegistry
  pwBanks :: "string \<Rightarrow> bank"
  pwFlight :: "(string \<times> bcommand) list"
  pwFates :: "fate list"

definition runs_at :: "floats \<Rightarrow> string \<Rightarrow> benv \<Rightarrow> bcommand \<Rightarrow> pworld \<Rightarrow> pworld" where
  "runs_at F nm v c w = w\<lparr>pwBanks := (pwBanks w)(nm := fst (apply_cmd F v c (pwBanks w nm)))\<rparr>"

fun net_event :: "floats \<Rightarrow> event \<Rightarrow> pworld \<Rightarrow> pworld" where
  "net_event F (Runs nm v c) w = runs_at F nm v c w"
| "net_event F (Lands i v) w =
     (if i < length (pwFlight w)
      then runs_at F (fst (pwFlight w ! i)) v (snd (pwFlight w ! i))
             (w\<lparr>pwFlight := take i (pwFlight w) @ drop (Suc i) (pwFlight w)\<rparr>)
      else w)"
| "net_event F (Announces nm address) w = w\<lparr>pwReg := fst (registry_register None nm address (pwReg w))\<rparr>"

definition good_disk :: benv where
  "good_disk = \<lparr>rangeOrder = id, openErr = None, writeErr = None, ledgerErr = None\<rparr>"

definition calm :: fate where
  "calm = \<lparr>fBefore = [], fDisk = good_disk, fArrives = True, fReplies = True, fError = status_Error GUnavailable []\<rparr>"

text \<open>A bank that is up and leads its group answers; a panic shows as a broken connection.\<close>

definition bank_serves :: "floats \<Rightarrow> benv \<Rightarrow> string \<Rightarrow> cmdKind \<Rightarrow> operation \<Rightarrow> legRequest \<Rightarrow> bank \<Rightarrow> bank \<times> gstatus option" where
  "bank_serves F v nm k leg r b =
     (let prop = (\<lambda>c b. case apply_cmd F v c b of (b1, res) \<Rightarrow> (b1, Inr res));
          h = newHealth nm
      in case (case k of
                 cmdPrepare \<Rightarrow> service_prepare prop h leg r b
               | cmdCommit \<Rightarrow> service_commit prop h leg r b
               | cmdAbort \<Rightarrow> service_abort prop h leg r b
               | cmdOther m \<Rightarrow> Some (b, Inl (status_Error GUnimplemented (''unknown method '' @ m)))) of
           None \<Rightarrow> (b, Some (status_Error GUnavailable ''error reading from server: EOF''))
         | Some (b1, Inl st) \<Rightarrow> (b1, Some st)
         | Some (b1, Inr msg) \<Rightarrow> (b1, None))"

definition net_call :: "floats \<Rightarrow> (string \<Rightarrow> string) \<Rightarrow> callctx \<Rightarrow> bankConn \<Rightarrow> cmdKind \<Rightarrow> operation \<Rightarrow> legRequest \<Rightarrow> pworld \<Rightarrow>
    pworld \<times> gstatus option" where
  "net_call F bankAt x c k leg r w =
     (let f = (case pwFates w of [] \<Rightarrow> calm | f # fs \<Rightarrow> f);
          w1 = fold (net_event F) (fBefore f) (w\<lparr>pwFates := drop 1 (pwFates w)\<rparr>);
          nm = bankAt (connAddress c)
      in if connId c \<in> regClosed (pwReg w1) then (w1, Some (fError f))
         else if \<not> fArrives f
         then (w1\<lparr>pwFlight := pwFlight w1 @ [(nm, leg_command k r leg)]\<rparr>, Some (fError f))
         else case bank_serves F (fDisk f) nm k leg r (pwBanks w1 nm) of
                (b, e) \<Rightarrow> (w1\<lparr>pwBanks := (pwBanks w1)(nm := b)\<rparr>, if fReplies f then e else Some (fError f)))"

definition payment_net :: "floats \<Rightarrow> (string \<Rightarrow> string) \<Rightarrow> pworld net" where
  "payment_net F bankAt = \<lparr>registryOf = pwReg, rpc = net_call F bankAt, pause = (\<lambda>w. w)\<rparr>"

section \<open>The banks keep the contract\<close>

text \<open>A reservation that says its transaction is settled tells the truth.\<close>

definition settled_known :: "bank \<Rightarrow> bool" where
  "settled_known b \<longleftrightarrow> (\<forall>k r. map_of (bprepared b) k = Some r \<longrightarrow> resSettled r \<longrightarrow> ledger_has k (bledger b))"

lemma ledger_record_has:
  "ledger_record le k src dst oper amount l = (l1, e) \<Longrightarrow>
   ledgerApplied l1 = (if e = None then insert k (ledgerApplied l) else ledgerApplied l)"
  by (auto simp: ledger_record_def split: option.splits)

lemma prepare_leg:
  assumes "prepare F v k oper a cp amount b = (b1, e)"
  shows "bledger b1 = bledger b" and "settled_known b \<Longrightarrow> settled_known b1"
  using assms by (auto simp: prepare_def Let_def settled_known_def split: if_splits sum.splits option.splits)

lemma release_leg: "bledger (release k b) = bledger b" "settled_known b \<Longrightarrow> settled_known (release k b)"
  by (auto simp: release_def settled_known_def split: if_splits)

lemma settled_known_grows:
  "settled_known b \<Longrightarrow> bprepared b1 = bprepared b \<Longrightarrow> ledgerApplied (bledger b) \<subseteq> ledgerApplied (bledger b1) \<Longrightarrow> settled_known b1"
  by (auto simp: settled_known_def ledger_has_def)

lemma apply_leg_cases:
  assumes "apply_leg F v k oper a cp amount b = (b1, x)"
  obtains (refused) st s1 where "x = Inl st" "SCode st \<noteq> GOK" "b1 = b\<lparr>bstore := s1\<rparr> \<or> b1 = release k (b\<lparr>bstore := s1\<rparr>)"
  | (unwritten) st s1 l1 where "x = Inl st" "SCode st \<noteq> GOK" "b1 = release k (b\<lparr>bstore := s1, bledger := l1\<rparr>)"
      "ledgerApplied l1 = ledgerApplied (bledger b)"
  | (applied) s1 l1 where "x = Inr False" "b1 = release k (b\<lparr>bstore := s1, bledger := l1\<rparr>)"
      "ledgerApplied l1 = insert k (ledgerApplied (bledger b))"
proof -
  obtain s1 y where add: "AddDelta F (openErr v) (writeErr v) a (if oper = opDebit then f_neg amount else amount) (bstore b) = (s1, y)"
    by fastforce
  obtain src dst where sd: "(if oper = opCredit then (cp, a) else (a, cp)) = (src, dst)" by fastforce
  obtain l1 e where rec: "ledger_record (ledgerErr v) k src dst (operation_string oper) amount (bledger b) = (l1, e)" by fastforce
  note eq = assms [unfolded apply_leg_def Let_def add sd prod.case rec]
  show ?thesis
  proof (cases y)
    case (Inl err)
    then obtain st where "x = Inl st" "SCode st \<noteq> GOK" "b1 = b\<lparr>bstore := s1\<rparr> \<or> b1 = release k (b\<lparr>bstore := s1\<rparr>)"
      using eq by (cases "errors_Is err ErrNotFound") (auto simp: status_Error_def)
    then show ?thesis by (rule refused)
  next
    case (Inr z)
    show ?thesis
    proof (cases e)
      case None
      then show ?thesis using eq Inr ledger_record_has [OF rec] by (intro applied [of l1 s1]) simp_all
    next
      case (Some err)
      then obtain st where "x = Inl st" "SCode st \<noteq> GOK" "b1 = release k (b\<lparr>bstore := s1, bledger := l1\<rparr>)"
        using eq Inr by (auto simp: status_Error_def)
      then show ?thesis by (rule unwritten) (simp add: ledger_record_has [OF rec] Some)
    qed
  qed
qed

lemma apply_leg_settles:
  assumes "apply_leg F v k oper a cp amount b = (b1, x)"
  shows "ledgerApplied (bledger b1) = (case x of Inr _ \<Rightarrow> insert k (ledgerApplied (bledger b)) | Inl _ \<Rightarrow> ledgerApplied (bledger b))"
    and "settled_known b \<Longrightarrow> settled_known b1" and "x = Inl st \<Longrightarrow> SCode st \<noteq> GOK"
proof -
  have store: "settled_known b \<Longrightarrow> settled_known (b\<lparr>bstore := s1\<rparr>)" for s1
    by (rule settled_known_grows) auto
  have ledger: "settled_known b \<Longrightarrow> ledgerApplied (bledger b) \<subseteq> ledgerApplied l1 \<Longrightarrow> settled_known (b\<lparr>bstore := s1, bledger := l1\<rparr>)" for s1 l1
    by (rule settled_known_grows) auto
  show "ledgerApplied (bledger b1) = (case x of Inr _ \<Rightarrow> insert k (ledgerApplied (bledger b)) | Inl _ \<Rightarrow> ledgerApplied (bledger b))"
    by (rule apply_leg_cases [OF assms]) (auto simp: release_leg)
  show "x = Inl st \<Longrightarrow> SCode st \<noteq> GOK" by (rule apply_leg_cases [OF assms]) simp_all
  show "settled_known b \<Longrightarrow> settled_known b1"
    by (rule apply_leg_cases [OF assms]) (auto intro!: release_leg(2) store ledger)
qed

lemma commit_cases:
  assumes "commit F v k oper a cp amount b = (b1, x)"
  obtains (before) "x = Inr True" "b1 = release k b" "settled_known b \<longrightarrow> k \<in> ledgerApplied (bledger b)"
  | (refused) st where "x = Inl st" "SCode st \<noteq> GOK" "b1 = b"
  | (now) "apply_leg F v k oper a cp amount b = (b1, x)"
proof (cases "ledger_has k (bledger b)")
  case True
  then show ?thesis using assms by (intro before) (simp_all add: commit_def ledger_has_def)
next
  case False
  note eq = assms [unfolded commit_def if_not_P [OF False]]
  show ?thesis
  proof (cases "map_of (bprepared b) k")
    case None
    then show ?thesis using eq refused by (auto simp: status_Error_def)
  next
    case (Some r)
    consider "\<not> same_details r oper a cp amount" | "same_details r oper a cp amount" "resSettled r"
      | "same_details r oper a cp amount" "\<not> resSettled r" by blast
    then show ?thesis
    proof cases
      case 1
      then show ?thesis using eq Some refused by (auto simp: status_Error_def)
    next
      case 2
      then show ?thesis using eq Some by (intro before) (auto simp: settled_known_def ledger_has_def)
    next
      case 3
      then show ?thesis using eq Some by (intro now) simp
    qed
  qed
qed

lemma commit_leg:
  assumes "commit F v k oper a cp amount b = (b1, x)"
  shows "ledgerApplied (bledger b) \<subseteq> ledgerApplied (bledger b1)" and "ledgerApplied (bledger b1) \<subseteq> insert k (ledgerApplied (bledger b))"
    and "settled_known b \<Longrightarrow> settled_known b1" and "x = Inl st \<Longrightarrow> SCode st \<noteq> GOK"
    and "settled_known b \<Longrightarrow> x = Inr d \<Longrightarrow> k \<in> ledgerApplied (bledger b1)"
  by (rule commit_cases [OF assms], auto simp: release_leg dest: apply_leg_settles split: sum.splits)+

lemma apply_cmd_leg:
  assumes "apply_cmd F v c b = (b1, r)"
  shows "ledgerApplied (bledger b) \<subseteq> ledgerApplied (bledger b1)"
    and "ledgerApplied (bledger b1) \<subseteq> (if bcKind c = cmdCommit then {bcKey c} else {}) \<union> ledgerApplied (bledger b)"
    and "settled_known b \<Longrightarrow> settled_known b1"
    and "settled_known b \<Longrightarrow> bcKind c = cmdCommit \<Longrightarrow> arCode r = GOK \<Longrightarrow> bcKey c \<in> ledgerApplied (bledger b1)"
  using assms prepare_leg commit_leg release_leg
  by (auto simp: apply_cmd_def abort_def result_status_def split: cmdKind.splits prod.splits option.splits sum.splits)

lemma transactionKey_legs: "transactionKey t opDebit \<noteq> transactionKey u opCredit"
proof
  assume "transactionKey t opDebit = transactionKey u opCredit"
  then have "rev (transactionKey t opDebit) = rev (transactionKey u opCredit)" by simp
  then show False by (simp add: transactionKey_def)
qed

definition debit_key :: "transferRequest \<Rightarrow> string" where
  "debit_key req = transactionKey (trTransaction req) opDebit"

definition credit_key :: "transferRequest \<Rightarrow> string" where
  "credit_key req = transactionKey (trTransaction req) opCredit"

text \<open>A transfer is debited, or credited, when the bank has its leg in the ledger.\<close>

definition pay_debited :: "transferRequest \<Rightarrow> pworld \<Rightarrow> bool" where
  "pay_debited req w \<longleftrightarrow> ledger_has (debit_key req) (bledger (pwBanks w (trFromBank req)))"

definition pay_credited :: "transferRequest \<Rightarrow> pworld \<Rightarrow> bool" where
  "pay_credited req w \<longleftrightarrow> ledger_has (credit_key req) (bledger (pwBanks w (trToBank req)))"

definition commits_credit :: "transferRequest \<Rightarrow> bcommand \<Rightarrow> bool" where
  "commits_credit req c \<longleftrightarrow> bcKind c = cmdCommit \<and> bcKey c = credit_key req"

definition credit_sent :: "transferRequest \<Rightarrow> pworld \<Rightarrow> bool" where
  "credit_sent req w \<longleftrightarrow> list_ex (commits_credit req \<circ> snd) (pwFlight w)"

text \<open>
  Nobody else commits this credit, a bank announces addresses of its own, and what a bank holds as
  settled is.
\<close>

fun event_ok :: "(string \<Rightarrow> string) \<Rightarrow> transferRequest \<Rightarrow> event \<Rightarrow> bool" where
  "event_ok bankAt req (Runs nm v c) \<longleftrightarrow> \<not> commits_credit req c"
| "event_ok bankAt req (Lands i v) \<longleftrightarrow> True"
| "event_ok bankAt req (Announces nm address) \<longleftrightarrow> bankAt address = nm"

definition pworld_ok :: "(string \<Rightarrow> string) \<Rightarrow> transferRequest \<Rightarrow> pworld \<Rightarrow> bool" where
  "pworld_ok bankAt req w \<longleftrightarrow> (\<forall>nm c. regBanks (pwReg w) nm = Some c \<longrightarrow> bankAt (connAddress c) = nm)
     \<and> (\<forall>nm. settled_known (pwBanks w nm))
     \<and> list_all (\<lambda>f. list_all (event_ok bankAt req) (fBefore f)) (pwFates w)"

text \<open>One step of the world: ledgers grow, and the credit is settled only by a commit in flight.\<close>

definition pay_grows :: "transferRequest \<Rightarrow> pworld \<Rightarrow> pworld \<Rightarrow> bool" where
  "pay_grows req w w1 \<longleftrightarrow> (\<forall>nm. ledgerApplied (bledger (pwBanks w nm)) \<subseteq> ledgerApplied (bledger (pwBanks w1 nm)))
     \<and> (pay_credited req w1 \<or> credit_sent req w1 \<longrightarrow> pay_credited req w \<or> credit_sent req w)"

lemma pay_grows_trans: "pay_grows req w w1 \<Longrightarrow> pay_grows req w1 w2 \<Longrightarrow> pay_grows req w w2"
  unfolding pay_grows_def by (meson order_trans)

lemma runs_at_bank: "pwBanks (runs_at F nm v c w) = (pwBanks w)(nm := fst (apply_cmd F v c (pwBanks w nm)))"
  "pwReg (runs_at F nm v c w) = pwReg w" "pwFates (runs_at F nm v c w) = pwFates w" "pwFlight (runs_at F nm v c w) = pwFlight w"
  by (simp_all add: runs_at_def)

lemma runs_at_ok: "pworld_ok bankAt req w \<Longrightarrow> pworld_ok bankAt req (runs_at F nm v c w)"
  using apply_cmd_leg(3) [of F v c "pwBanks w nm"] by (auto simp: pworld_ok_def runs_at_bank) (metis prod.collapse)

lemma runs_at_ledger:
  shows "ledgerApplied (bledger (pwBanks w n)) \<subseteq> ledgerApplied (bledger (pwBanks (runs_at F nm v c w) n))"
    and "pay_credited req (runs_at F nm v c w) \<Longrightarrow> pay_credited req w \<or> commits_credit req c"
proof -
  obtain b1 r where a: "apply_cmd F v c (pwBanks w nm) = (b1, r)" by fastforce
  show "ledgerApplied (bledger (pwBanks w n)) \<subseteq> ledgerApplied (bledger (pwBanks (runs_at F nm v c w) n))"
    using apply_cmd_leg(1) [OF a] a by (simp add: runs_at_bank)
  show "pay_credited req (runs_at F nm v c w) \<Longrightarrow> pay_credited req w \<or> commits_credit req c"
    using apply_cmd_leg(2) [OF a] a
    by (auto simp: pay_credited_def commits_credit_def ledger_has_def runs_at_bank split: if_splits)
qed

lemma credit_sent_lands:
  assumes "i < length (pwFlight w)"
  shows "credit_sent req w \<longleftrightarrow> commits_credit req (snd (pwFlight w ! i))
    \<or> credit_sent req (w\<lparr>pwFlight := take i (pwFlight w) @ drop (Suc i) (pwFlight w)\<rparr>)"
proof -
  have "set (pwFlight w) = insert (pwFlight w ! i) (set (take i (pwFlight w) @ drop (Suc i) (pwFlight w)))"
    by (subst id_take_nth_drop [OF assms]) simp
  then show ?thesis by (auto simp: credit_sent_def list_ex_iff)
qed

lemma net_event_step:
  assumes "pworld_ok bankAt req w" and "event_ok bankAt req e"
  shows "pworld_ok bankAt req (net_event F e w) \<and> pwFates (net_event F e w) = pwFates w \<and> pay_grows req w (net_event F e w)"
proof (cases e)
  case (Runs nm v c)
  have "credit_sent req (runs_at F nm v c w) = credit_sent req w" by (simp add: credit_sent_def runs_at_bank)
  then show ?thesis using Runs assms(2) runs_at_ok [OF assms(1)] runs_at_ledger(1) [of w _ F nm v c] runs_at_ledger(2) [of req F nm v c w]
    by (auto simp: pay_grows_def runs_at_bank)
next
  case (Lands i v)
  show ?thesis
  proof (cases "i < length (pwFlight w)")
    case True
    let ?w = "w\<lparr>pwFlight := take i (pwFlight w) @ drop (Suc i) (pwFlight w)\<rparr>"
    let ?w1 = "runs_at F (fst (pwFlight w ! i)) v (snd (pwFlight w ! i)) ?w"
    have ok: "pworld_ok bankAt req ?w" using assms(1) by (simp add: pworld_ok_def)
    have "credit_sent req ?w1 = credit_sent req ?w" "pay_credited req ?w = pay_credited req w"
      by (simp_all add: credit_sent_def pay_credited_def runs_at_bank)
    then have "pay_grows req w ?w1"
      using runs_at_ledger(1) [of ?w _ F "fst (pwFlight w ! i)" v "snd (pwFlight w ! i)"]
        runs_at_ledger(2) [of req F "fst (pwFlight w ! i)" v "snd (pwFlight w ! i)" ?w] credit_sent_lands [OF True, of req]
      by (auto simp: pay_grows_def)
    then show ?thesis using Lands True runs_at_ok [OF ok] by (simp add: runs_at_bank)
  qed (use assms Lands in \<open>simp add: pay_grows_def\<close>)
next
  case (Announces nm address)
  then show ?thesis using assms
    by (auto simp: pworld_ok_def pay_grows_def pay_credited_def credit_sent_def registry_register_def Let_def split: option.splits if_splits)
qed

lemma net_events_step:
  "pworld_ok bankAt req w \<Longrightarrow> list_all (event_ok bankAt req) es \<Longrightarrow>
   pworld_ok bankAt req (fold (net_event F) es w) \<and> pay_grows req w (fold (net_event F) es w)"
proof (induction es arbitrary: w)
  case (Cons e es)
  have e: "pworld_ok bankAt req (net_event F e w)" "pay_grows req w (net_event F e w)"
    using net_event_step [OF Cons.prems(1), of e F] Cons.prems(2) by simp_all
  then show ?case using Cons.IH [OF e(1)] Cons.prems(2) pay_grows_trans [OF e(2)] by simp
qed (simp add: pay_grows_def)

lemma bank_serves_apply:
  assumes "bank_serves F v nm k leg r b = (b1, e)"
  shows "(b1 = b \<and> e \<noteq> None) \<or> (\<exists>res. apply_cmd F v (leg_command k r leg) b = (b1, res) \<and> (e = None \<longleftrightarrow> arCode res = GOK))"
proof -
  obtain b2 res where "apply_cmd F v (leg_command k r leg) b = (b2, res)" by fastforce
  then show ?thesis using assms
    by (cases k) (auto simp: bank_serves_def service_prepare_def service_commit_def service_abort_def bank_propose_def
        health_check_def newHealth_def applyResult_err_def split: if_splits option.splits)
qed

lemma leg_command_fields [simp]: "bcKind (leg_command k r leg) = k" "bcKey (leg_command k r leg) = transactionKey (lrTransaction r) leg"
  by (simp_all add: leg_command_def)

lemma serve_step:
  assumes "pworld_ok bankAt req w" and "bank_serves F v nm k leg r (pwBanks w nm) = (b1, e)"
  defines "w1 \<equiv> w\<lparr>pwBanks := (pwBanks w)(nm := b1)\<rparr>"
  shows "pworld_ok bankAt req w1" and "ledgerApplied (bledger (pwBanks w n)) \<subseteq> ledgerApplied (bledger (pwBanks w1 n))"
    and "pay_credited req w1 \<Longrightarrow> pay_credited req w \<or> commits_credit req (leg_command k r leg)"
    and "k = cmdCommit \<Longrightarrow> e = None \<Longrightarrow> transactionKey (lrTransaction r) leg \<in> ledgerApplied (bledger (pwBanks w1 nm))"
proof -
  have known: "settled_known (pwBanks w nm)" using assms(1) by (simp add: pworld_ok_def)
  consider "b1 = pwBanks w nm" "e \<noteq> None" | res where "apply_cmd F v (leg_command k r leg) (pwBanks w nm) = (b1, res)" "e = None \<longleftrightarrow> arCode res = GOK"
    using bank_serves_apply [OF assms(2)] by blast
  then have "pworld_ok bankAt req w1 \<and> ledgerApplied (bledger (pwBanks w n)) \<subseteq> ledgerApplied (bledger (pwBanks w1 n))
      \<and> (pay_credited req w1 \<longrightarrow> pay_credited req w \<or> commits_credit req (leg_command k r leg))
      \<and> (k = cmdCommit \<and> e = None \<longrightarrow> transactionKey (lrTransaction r) leg \<in> ledgerApplied (bledger (pwBanks w1 nm)))"
  proof cases
    case 1
    then have "w1 = w" by (simp add: w1_def)
    then show ?thesis using 1 assms(1) by blast
  next
    case 2
    then have run: "w1 = runs_at F nm v (leg_command k r leg) w" by (simp add: w1_def runs_at_def)
    show ?thesis using 2 apply_cmd_leg(4) [OF 2(1) known] runs_at_ok [OF assms(1), of F nm v "leg_command k r leg"]
        runs_at_ledger(1) [of w n F nm v "leg_command k r leg"] runs_at_ledger(2) [of req F nm v "leg_command k r leg" w]
      unfolding run by (auto simp: runs_at_bank)
  qed
  then show "pworld_ok bankAt req w1" "ledgerApplied (bledger (pwBanks w n)) \<subseteq> ledgerApplied (bledger (pwBanks w1 n))"
    "pay_credited req w1 \<Longrightarrow> pay_credited req w \<or> commits_credit req (leg_command k r leg)"
    "k = cmdCommit \<Longrightarrow> e = None \<Longrightarrow> transactionKey (lrTransaction r) leg \<in> ledgerApplied (bledger (pwBanks w1 nm))"
    by auto
qed

lemma net_call_step:
  assumes "pworld_ok bankAt req w" and "net_call F bankAt x c k leg r w = (w1, e)"
  shows "pworld_ok bankAt req w1"
    and "ledgerApplied (bledger (pwBanks w n)) \<subseteq> ledgerApplied (bledger (pwBanks w1 n))"
    and "pay_credited req w1 \<or> credit_sent req w1 \<Longrightarrow> pay_credited req w \<or> credit_sent req w \<or> commits_credit req (leg_command k r leg)"
    and "k = cmdCommit \<Longrightarrow> e = None \<Longrightarrow> transactionKey (lrTransaction r) leg \<in> ledgerApplied (bledger (pwBanks w1 (bankAt (connAddress c))))"
proof -
  define f where "f = (case pwFates w of [] \<Rightarrow> calm | f # fs \<Rightarrow> f)"
  let ?v = "w\<lparr>pwFates := drop 1 (pwFates w)\<rparr>" and ?nm = "bankAt (connAddress c)"
  define u where "u = fold (net_event F) (fBefore f) ?v"
  obtain b a where serve: "bank_serves F (fDisk f) ?nm k leg r (pwBanks u ?nm) = (b, a)" by fastforce
  have "list_all (event_ok bankAt req) (fBefore f)" "pworld_ok bankAt req ?v"
    using assms(1) by (cases "pwFates w"; simp add: f_def pworld_ok_def calm_def)+
  then have ok: "pworld_ok bankAt req u" and g: "pay_grows req ?v u" using net_events_step u_def by blast+
  have grows: "ledgerApplied (bledger (pwBanks w m)) \<subseteq> ledgerApplied (bledger (pwBanks u m))" for m
    using g by (simp add: pay_grows_def)
  have new: "pay_credited req u \<or> credit_sent req u \<Longrightarrow> pay_credited req w \<or> credit_sent req w"
    using g by (simp add: pay_grows_def pay_credited_def credit_sent_def)
  have out: "(w1, e) = (if connId c \<in> regClosed (pwReg u) then (u, Some (fError f))
      else if \<not> fArrives f then (u\<lparr>pwFlight := pwFlight u @ [(?nm, leg_command k r leg)]\<rparr>, Some (fError f))
      else (u\<lparr>pwBanks := (pwBanks u)(?nm := b)\<rparr>, if fReplies f then a else Some (fError f)))"
    using assms(2) [symmetric] unfolding net_call_def Let_def f_def [symmetric] u_def [symmetric] serve prod.case .
  consider "w1 = u" "e \<noteq> None" | "w1 = u\<lparr>pwFlight := pwFlight u @ [(?nm, leg_command k r leg)]\<rparr>" "e \<noteq> None"
    | "w1 = u\<lparr>pwBanks := (pwBanks u)(?nm := b)\<rparr>" "e = None \<longrightarrow> a = None"
    using out by (auto split: if_splits)
  then have "pworld_ok bankAt req w1 \<and> ledgerApplied (bledger (pwBanks w n)) \<subseteq> ledgerApplied (bledger (pwBanks w1 n))
      \<and> (pay_credited req w1 \<or> credit_sent req w1 \<longrightarrow> pay_credited req w \<or> credit_sent req w \<or> commits_credit req (leg_command k r leg))
      \<and> (k = cmdCommit \<and> e = None \<longrightarrow> transactionKey (lrTransaction r) leg \<in> ledgerApplied (bledger (pwBanks w1 ?nm)))"
  proof cases
    case 1
    then show ?thesis using ok grows new by blast
  next
    case 2
    then have "pworld_ok bankAt req w1" "pwBanks w1 = pwBanks u" "pay_credited req w1 = pay_credited req u"
      "credit_sent req w1 \<longrightarrow> credit_sent req u \<or> commits_credit req (leg_command k r leg)"
      using ok by (auto simp: pworld_ok_def pay_credited_def credit_sent_def)
    then show ?thesis using 2 grows new by auto
  next
    case 3
    note s = serve_step [OF ok serve, folded 3(1)]
    have "credit_sent req w1 = credit_sent req u" using 3 by (simp add: credit_sent_def)
    then show ?thesis using 3(2) s(1,3,4) order_trans [OF grows s(2)] new by blast
  qed
  then show "pworld_ok bankAt req w1" "ledgerApplied (bledger (pwBanks w n)) \<subseteq> ledgerApplied (bledger (pwBanks w1 n))"
    "pay_credited req w1 \<or> credit_sent req w1 \<Longrightarrow> pay_credited req w \<or> credit_sent req w \<or> commits_credit req (leg_command k r leg)"
    "k = cmdCommit \<Longrightarrow> e = None \<Longrightarrow> transactionKey (lrTransaction r) leg \<in> ledgerApplied (bledger (pwBanks w1 (bankAt (connAddress c))))"
    by auto
qed

interpretation pn: payment_network "payment_net F bankAt" req "pworld_ok bankAt req" "\<lambda>nm c. bankAt (connAddress c) = nm"
  "pay_debited req" "pay_credited req" "credit_sent req" for F bankAt req
proof (unfold_locales, unfold payment_net_def net.simps)
  fix w nm c
  assume "pworld_ok bankAt req w" "registry_client nm (pwReg w) = Inr c"
  then show "bankAt (connAddress c) = nm" by (auto simp: pworld_ok_def registry_client_def split: option.splits)
next
  fix w w1 x c k leg r e
  assume a: "pworld_ok bankAt req w" "net_call F bankAt x c k leg r w = (w1, e)"
  note step = net_call_step [OF a]
  show "pworld_ok bankAt req w1" by (rule step(1))
  show "(pay_debited req w \<longrightarrow> pay_debited req w1) \<and> (pay_credited req w \<longrightarrow> pay_credited req w1)"
    using step(2) unfolding pay_debited_def pay_credited_def ledger_has_def by blast
  show "pay_credited req w \<or> credit_sent req w"
    if "pay_credited req w1 \<or> credit_sent req w1" "k = cmdCommit \<longrightarrow> leg = opDebit"
    using step(3) [OF that(1)] that(2) transactionKey_legs by (auto simp: commits_credit_def credit_key_def)
next
  fix w w1 x c
  assume "pworld_ok bankAt req w" "bankAt (connAddress c) = trFromBank req"
    "net_call F bankAt x c cmdCommit opDebit (debit_of req) w = (w1, None)"
  then show "pay_debited req w1" using net_call_step(4) [of bankAt req w F x c cmdCommit opDebit "debit_of req" w1 None]
    by (simp add: pay_debited_def debit_key_def ledger_has_def debit_of_def)
next
  fix w w1 x c
  assume "pworld_ok bankAt req w" "bankAt (connAddress c) = trToBank req"
    "net_call F bankAt x c cmdCommit opCredit (credit_of req) w = (w1, None)"
  then show "pay_credited req w1" using net_call_step(4) [of bankAt req w F x c cmdCommit opCredit "credit_of req" w1 None]
    by (simp add: pay_credited_def credit_key_def ledger_has_def credit_of_def)
qed simp_all

end
