(* ===== verification/PaymentRuns.thy ===== *)
theory PaymentRuns
  imports PaymentTransfer
begin

text \<open>
  Transfers through the payment gateway, from the coordinator down to the account files of the banks:
  a transfer that is tried any number of times over any network is debited before it is credited and
  reported done only when both banks have it; a try over a working network completes it; and what a
  lost reply does to a transfer that the gateway reports as failed.
\<close>

section \<open>A leg on a working bank\<close>

text \<open>A leg is settled, or it is held as it should be, or the account has what it takes.\<close>

definition leg_ready :: "string \<Rightarrow> operation \<Rightarrow> string \<Rightarrow> string \<Rightarrow> int \<Rightarrow> vault \<Rightarrow> bool" where
  "leg_ready k oper a cp n s \<longleftrightarrow> k \<in> settledKeys s \<or>
     (case funds s a of
        None \<Rightarrow> False
      | Some f \<Rightarrow>
          (case held s k of
             None \<Rightarrow> oper = opDebit \<longrightarrow> on_hold s a + n \<le> f
           | Some h \<Rightarrow> hold_matches h oper a cp n \<and> \<not> hSettled h))"

definition leg_voted :: "string \<Rightarrow> operation \<Rightarrow> string \<Rightarrow> string \<Rightarrow> int \<Rightarrow> vault \<Rightarrow> bool" where
  "leg_voted k oper a cp n s \<longleftrightarrow> k \<in> settledKeys s \<or>
     (\<exists>f h. funds s a = Some f \<and> held s k = Some h \<and> hold_matches h oper a cp n \<and> \<not> hSettled h)"

lemma prepare_votes:
  assumes "leg_ready k oper a cp n s" and "a \<noteq> cp" and "0 < n"
  shows "snd (vault_prepare k oper a cp n s) = GOK" and "leg_voted k oper a cp n (fst (vault_prepare k oper a cp n s))"
    and "funds (fst (vault_prepare k oper a cp n s)) = funds s" and "settledKeys (fst (vault_prepare k oper a cp n s)) = settledKeys s"
  using assms by (auto simp: leg_ready_def leg_voted_def vault_prepare_def hold_matches_def Let_def split: option.splits)

lemma commit_settles:
  assumes "leg_voted k oper a cp n s"
  shows "fst (snd (vault_commit k oper a cp n s)) = GOK" and "k \<in> settledKeys (fst (vault_commit k oper a cp n s))"
    and "funds (fst (vault_commit k oper a cp n s)) = (if k \<in> settledKeys s then funds s
       else (funds s)(a \<mapsto> the (funds s a) + (if oper = opDebit then - n else n)))"
  using assms by (auto simp: leg_voted_def vault_commit_def Let_def)

lemma serves_vault:
  assumes "floats_ok F" and "vault_ok s" and "implements b s" and "lrAmount r = units n" and "fits n"
    and "has_room (leg_command k r leg) n s" and "k \<in> {cmdPrepare, cmdCommit, cmdAbort}"
    and "bank_serves F good_disk nm k leg r b = (b1, e)"
  shows "implements b1 (fst (vault_step (leg_command k r leg) n s))" and "vault_ok (fst (vault_step (leg_command k r leg) n s))"
    and "e = None \<longleftrightarrow> fst (snd (vault_step (leg_command k r leg) n s)) = GOK"
    and "e = Some st \<Longrightarrow> SCode st = fst (snd (vault_step (leg_command k r leg) n s))"
proof -
  obtain b2 res where a: "apply_cmd F good_disk (leg_command k r leg) b = (b2, res)" by fastforce
  have "good_env good_disk" by (simp add: good_env_def good_disk_def)
  then have i: "implements b2 (fst (vault_step (leg_command k r leg) n s))" "fst (snd (vault_step (leg_command k r leg) n s)) = arCode res"
    using apply_cmd_refines [OF assms(1-3) _ _ assms(5,6), of good_disk] a assms(4) by (auto simp: leg_command_def)
  have "bank_serves F good_disk nm k leg r b = (b2, applyResult_err res)"
    using a assms(4,7) by (auto simp: bank_serves_def service_prepare_def service_commit_def service_abort_def bank_propose_def
        health_check_def newHealth_def applyResult_err_def leg_command_def units_def)
  then have e: "b1 = b2" "e = applyResult_err res" using assms(8) by simp_all
  show "implements b1 (fst (vault_step (leg_command k r leg) n s))" using i(1) e(1) by simp
  show "e = None \<longleftrightarrow> fst (snd (vault_step (leg_command k r leg) n s)) = GOK"
    "e = Some st \<Longrightarrow> SCode st = fst (snd (vault_step (leg_command k r leg) n s))"
    using e(2) i(2) by (auto simp: applyResult_err_def status_Error_def split: if_splits)
  show "vault_ok (fst (vault_step (leg_command k r leg) n s))"
    using vault_step_ok [OF assms(2) _ assms(6)] assms(5) by (simp add: fits_def)
qed

lemma serves_prepare:
  assumes "floats_ok F" and "vault_ok s" and "implements b s" and "lrAmount r = units n" and "0 < n" and "n \<le> 2 ^ 53"
    and "lrAccount r \<noteq> lrCounterparty r" and "leg_ready (transactionKey (lrTransaction r) leg) leg (lrAccount r) (lrCounterparty r) n s"
  shows "\<exists>b1 s1. bank_serves F good_disk nm cmdPrepare leg r b = (b1, None) \<and> implements b1 s1 \<and> vault_ok s1
    \<and> leg_voted (transactionKey (lrTransaction r) leg) leg (lrAccount r) (lrCounterparty r) n s1
    \<and> funds s1 = funds s \<and> settledKeys s1 = settledKeys s"
proof -
  note v = prepare_votes [OF assms(8,7,5)]
  have step: "vault_step (leg_command cmdPrepare r leg) n s =
      (case vault_prepare (transactionKey (lrTransaction r) leg) leg (lrAccount r) (lrCounterparty r) n s of (s1, code) \<Rightarrow> (s1, code, False))"
    by (simp add: vault_step_def leg_command_def)
  have "has_room (leg_command cmdPrepare r leg) n s" by (simp add: has_room_def)
  moreover have "fst (snd (vault_step (leg_command cmdPrepare r leg) n s)) = GOK" using v(1) by (auto simp: step split: prod.splits)
  moreover have "fst (vault_step (leg_command cmdPrepare r leg) n s)
      = fst (vault_prepare (transactionKey (lrTransaction r) leg) leg (lrAccount r) (lrCounterparty r) n s)"
    by (simp add: step split: prod.splits)
  moreover obtain b1 e where "bank_serves F good_disk nm cmdPrepare leg r b = (b1, e)" by fastforce
  ultimately show ?thesis
    using serves_vault [OF assms(1-4), of cmdPrepare leg nm b1 e] assms(5,6) v(2-4) by (auto simp: fits_def)
qed

lemma serves_commit:
  assumes "floats_ok F" and "vault_ok s" and "implements b s" and "lrAmount r = units n" and "0 < n" and "n \<le> 2 ^ 53"
    and "leg_voted (transactionKey (lrTransaction r) leg) leg (lrAccount r) (lrCounterparty r) n s"
    and "leg \<noteq> opDebit \<longrightarrow> (\<forall>f. funds s (lrAccount r) = Some f \<longrightarrow> f + n \<le> 2 ^ 53)"
  shows "\<exists>b1 s1. bank_serves F good_disk nm cmdCommit leg r b = (b1, None) \<and> implements b1 s1 \<and> vault_ok s1
    \<and> transactionKey (lrTransaction r) leg \<in> settledKeys s1
    \<and> funds s1 = (if transactionKey (lrTransaction r) leg \<in> settledKeys s then funds s
        else (funds s)(lrAccount r \<mapsto> the (funds s (lrAccount r)) + (if leg = opDebit then - n else n)))"
proof -
  note v = commit_settles [OF assms(7)]
  have step: "vault_step (leg_command cmdCommit r leg) n s =
      vault_commit (transactionKey (lrTransaction r) leg) leg (lrAccount r) (lrCounterparty r) n s"
    by (simp add: vault_step_def leg_command_def)
  have "has_room (leg_command cmdCommit r leg) n s" using assms(8) by (simp add: has_room_def leg_command_def)
  moreover obtain b1 e where "bank_serves F good_disk nm cmdCommit leg r b = (b1, e)" by fastforce
  ultimately show ?thesis
    using serves_vault [OF assms(1-4), of cmdCommit leg nm b1 e] assms(5,6) v unfolding step by (auto simp: fits_def)
qed

text \<open>Both phases of a leg on one bank, down to its files.\<close>

lemma leg_round:
  assumes "floats_ok F" and "vault_ok s" and "implements b s" and "lrAmount r = units n" and "0 < n" and "n \<le> 2 ^ 53"
    and "lrAccount r \<noteq> lrCounterparty r" and "k = transactionKey (lrTransaction r) leg"
    and "leg_ready k leg (lrAccount r) (lrCounterparty r) n s" and "funds s (lrAccount r) = Some f" and "leg \<noteq> opDebit \<longrightarrow> f + n \<le> 2 ^ 53"
  shows "\<exists>b1 b2. bank_serves F good_disk nm cmdPrepare leg r b = (b1, None) \<and> bank_serves F good_disk nm cmdCommit leg r b1 = (b2, None)
    \<and> ledger_has k (bledger b2)
    \<and> store_Balance F None (lrAccount r) (bstore b2) =
        Inr (units (if ledger_has k (bledger b) then f else f + (if leg = opDebit then - n else n)))"
proof -
  obtain b1 s1 where p: "bank_serves F good_disk nm cmdPrepare leg r b = (b1, None)" "implements b1 s1" "vault_ok s1"
      "leg_voted k leg (lrAccount r) (lrCounterparty r) n s1" "funds s1 = funds s" "settledKeys s1 = settledKeys s"
    using serves_prepare [OF assms(1-7), of leg nm] assms(8,9) by blast
  have "leg \<noteq> opDebit \<longrightarrow> (\<forall>g. funds s1 (lrAccount r) = Some g \<longrightarrow> g + n \<le> 2 ^ 53)" using p(5) assms(10,11) by simp
  from serves_commit [OF assms(1) p(3,2) assms(4-6) p(4) [unfolded assms(8)] this, of nm]
  obtain b2 s2 where u: "bank_serves F good_disk nm cmdCommit leg r b1 = (b2, None)" "implements b2 s2" "k \<in> settledKeys s2"
      "funds s2 = (if k \<in> settledKeys s then funds s else (funds s)(lrAccount r \<mapsto> the (funds s (lrAccount r)) + (if leg = opDebit then - n else n)))"
    unfolding assms(8) p(5,6) by blast
  have "ledgerApplied (bledger b2) = settledKeys s2" "ledgerApplied (bledger b) = settledKeys s"
    using u(2) assms(3) by (simp_all add: implements_def)
  then show ?thesis using p(1) u implements_Balance [OF assms(1) u(2)] assms(10) by (simp add: ledger_has_def)
qed

section \<open>A working network\<close>

definition reaches :: "(string \<Rightarrow> string) \<Rightarrow> pworld \<Rightarrow> string \<Rightarrow> bool" where
  "reaches bankAt w nm \<longleftrightarrow>
     (case regBanks (pwReg w) nm of None \<Rightarrow> False | Some c \<Rightarrow> connId c \<notin> regClosed (pwReg w) \<and> bankAt (connAddress c) = nm)"

lemma reaches_banks [simp]: "reaches bankAt (w\<lparr>pwBanks := x\<rparr>) nm = reaches bankAt w nm"
  by (simp add: reaches_def split: option.split)

lemma calm_call:
  assumes "pwFates w = []" and "connId c \<notin> regClosed (pwReg w)" and "bankAt (connAddress c) = nm"
    and "bank_serves F good_disk nm k leg r (pwBanks w nm) = (b1, e)"
  shows "rpc (payment_net F bankAt) x c k leg r w = (w\<lparr>pwBanks := (pwBanks w)(nm := b1)\<rparr>, e)"
proof -
  have "w\<lparr>pwFates := []\<rparr> = w" using assms(1) by (cases w) simp
  then show ?thesis using assms by (simp add: payment_net_def net_call_def calm_def)
qed



text \<open>Two banks with an account of 50 units each, for evaluation.\<close>

definition wit_bank :: "string \<Rightarrow> bank" where
  "wit_bank a = newParticipant \<lparr>storePath = a, storeFile = Some [Header, [a, [], [], [], fmt2 (units 50)]]\<rparr> wit_ledger"

definition wit_vault :: "string \<Rightarrow> vault" where
  "wit_vault a = \<lparr>funds = [a \<mapsto> 50], held = Map.empty, settledKeys = {}\<rparr>"

definition wit_at :: "string \<Rightarrow> string" where
  "wit_at address = (if address = ''x'' then ''X'' else ''Y'')"

definition wit_world :: "fate list \<Rightarrow> pworld" where
  "wit_world fs = \<lparr>pwReg = \<lparr>regBanks = [''X'' \<mapsto> \<lparr>connAddress = ''x'', connId = 0\<rparr>, ''Y'' \<mapsto> \<lparr>connAddress = ''y'', connId = 1\<rparr>],
     regClosed = {}, regNext = 2\<rparr>, pwBanks = (\<lambda>nm. if nm = ''X'' then wit_bank ''A'' else wit_bank ''B''), pwFlight = [], pwFates = fs\<rparr>"

definition wit_req :: "string \<Rightarrow> int \<Rightarrow> transferRequest" where
  "wit_req t n = \<lparr>trTransaction = t, trFromAccount = ''A'', trToAccount = ''B'', trFromBank = ''X'', trToBank = ''Y'', trAmount = units n\<rparr>"

lemma wit_bank_implements: "implements (wit_bank a) (wit_vault a)" "vault_ok (wit_vault a)"
proof -
  let ?as = "[\<lparr>AcctID = a, AcctUser = [], AcctPass = [], AcctBank = [], AcctBalance = units 50\<rparr>]"
  let ?s = "\<lparr>storePath = a, storeFile = Some [Header, [a, [], [], [], fmt2 (units 50)]]\<rparr>"
  have "stored ?as ?s" by (auto simp: stored_def acct_row_def whole_def fits_def simp del: fmt2.simps)
  moreover have "funds_of ?as = [a \<mapsto> 50]" by (intro ext) simp
  ultimately show "implements (wit_bank a) (wit_vault a)"
    using opened_implements [of ?as ?s wit_ledger] by (simp add: wit_bank_def wit_vault_def opened_def wit_ledger_def)
  show "vault_ok (wit_vault a)" by (simp add: vault_ok_def wit_vault_def on_hold_def)
qed

lemma wit_world_facts:
  "reaches wit_at (wit_world fs) ''X''" "reaches wit_at (wit_world fs) ''Y''" "pwFates (wit_world fs) = fs"
  "pwBanks (wit_world fs) ''X'' = wit_bank ''A''" "pwBanks (wit_world fs) ''Y'' = wit_bank ''B''"
  by (simp_all add: reaches_def wit_world_def wit_at_def)

lemma wit_leg_ready: "leg_ready k oper a cp 20 (wit_vault a)"
  by (simp add: leg_ready_def wit_vault_def on_hold_def)


section \<open>Any network\<close>

text \<open>
  C13: a transfer is atomic over any network.  Try a transfer any number of times, while calls and
  replies are lost, commands that were given up land later in any order, banks announce new addresses,
  disks fail and other traffic runs, as long as nobody else commits this transfer's credit.  The
  receiver is credited only if the sender is debited, and if the coordinator reported success once,
  both are.
\<close>

theorem payment_atomic:
  assumes "pworld_ok bankAt req w" and "\<not> pay_credited req w" and "\<not> credit_sent req w"
    and "pay_tries (payment_net F bankAt) req n w = (w1, es)"
  shows "(pay_credited req w1 \<longrightarrow> pay_debited req w1) \<and> (None \<in> set es \<longrightarrow> pay_debited req w1 \<and> pay_credited req w1)"
proof -
  have "pn.safe bankAt req w" using assms(1-3) by (simp add: pn.safe_def)
  from pn.tries_safe [OF this assms(4)] show ?thesis by (auto simp: pn.safe_def)
qed

text \<open>A reply is lost, with the code of a bank that is down.\<close>

definition reply_lost :: fate where
  "reply_lost = calm\<lparr>fReplies := False\<rparr>"

theorem payment_atomic_witness:
  "case pay_tries (payment_net exact_floats wit_at) (wit_req ''T'' 20) 2 (wit_world [reply_lost]) of (w1, es) \<Rightarrow>
     pay_credited (wit_req ''T'' 20) w1 \<longrightarrow> pay_debited (wit_req ''T'' 20) w1"
proof -
  obtain w1 es where r: "pay_tries (payment_net exact_floats wit_at) (wit_req ''T'' 20) 2 (wit_world [reply_lost]) = (w1, es)" by fastforce
  have "settled_known (wit_bank a)" for a by (simp add: settled_known_def wit_bank_def newParticipant_def)
  then have "pworld_ok wit_at (wit_req ''T'' 20) (wit_world [reply_lost])"
    by (auto simp: pworld_ok_def wit_world_def wit_at_def reply_lost_def calm_def split: if_splits)
  moreover have "\<not> pay_credited (wit_req ''T'' 20) (wit_world [reply_lost])" "\<not> credit_sent (wit_req ''T'' 20) (wit_world [reply_lost])"
    by (simp_all add: pay_credited_def credit_sent_def wit_world_def wit_req_def wit_bank_def newParticipant_def wit_ledger_def ledger_has_def)
  ultimately have "pay_credited (wit_req ''T'' 20) w1 \<longrightarrow> pay_debited (wit_req ''T'' 20) w1"
    using payment_atomic [OF _ _ _ r] by blast
  then show ?thesis by (simp add: r)
qed

lemma serves_abort:
  "marshals (lrAmount r) \<Longrightarrow> bank_serves F v nm cmdAbort leg r b = (release (transactionKey (lrTransaction r) leg) b, None)"
  by (simp add: bank_serves_def service_abort_def bank_propose_def newHealth_def leg_command_def apply_cmd_def abort_def
      result_OK_def applyResult_err_def)

lemma serves_settled:
  "marshals (lrAmount r) \<Longrightarrow> ledger_has (transactionKey (lrTransaction r) leg) (bledger b) \<Longrightarrow>
   bank_serves F v nm cmdCommit leg r b = (release (transactionKey (lrTransaction r) leg) b, None)"
  by (simp add: bank_serves_def service_commit_def bank_propose_def newHealth_def health_check_def leg_command_def apply_cmd_def commit_def
      result_OK_def applyResult_err_def)

lemma fated_call:
  assumes "pwFates w = f # fs" and "fBefore f = []" and "fArrives f" and "fDisk f = good_disk"
    and "connId c \<notin> regClosed (pwReg w)" and "bankAt (connAddress c) = nm"
    and "bank_serves F good_disk nm k leg r (pwBanks w nm) = (b1, e)"
  shows "rpc (payment_net F bankAt) x c k leg r w =
    (w\<lparr>pwFates := fs, pwBanks := (pwBanks w)(nm := b1)\<rparr>, if fReplies f then e else Some (fError f))"
  using assms by (simp add: payment_net_def net_call_def)

text \<open>Three commits whose replies are lost.\<close>

lemma lost_commits:
  assumes "pwFates w = [reply_lost, reply_lost, reply_lost]" and "reaches bankAt w nm"
    and "bank_serves F good_disk nm cmdCommit leg r (pwBanks w nm) = (b1, None)" and "marshals (lrAmount r)"
    and "k = transactionKey (lrTransaction r) leg" and "ledger_has k (bledger b1)"
  shows "coord_commit (payment_net F bankAt) nm leg r w =
    (w\<lparr>pwFates := [], pwBanks := (pwBanks w)(nm := release k (release k b1))\<rparr>, Some (status_Error GUnavailable []))"
proof -
  obtain c where c: "regBanks (pwReg w) nm = Some c" "connId c \<notin> regClosed (pwReg w)" "bankAt (connAddress c) = nm"
    using assms(2) by (auto simp: reaches_def split: option.splits)
  note lost = reply_lost_def calm_def
  let ?N = "payment_net F bankAt" and ?e = "Some (status_Error GUnavailable [])"
  let ?w = "\<lambda>fs b. w\<lparr>pwFates := fs, pwBanks := (pwBanks w)(nm := b)\<rparr>"
  have call: "rpc ?N BackgroundCtx c cmdCommit leg r v = (?w fs b2, ?e)"
    if "pwFates v = reply_lost # fs" "pwReg v = pwReg w" "bank_serves F good_disk nm cmdCommit leg r (pwBanks v nm) = (b2, None)"
      "v\<lparr>pwFates := fs, pwBanks := (pwBanks v)(nm := b2)\<rparr> = ?w fs b2" for v fs b2
    using fated_call [OF that(1), of c bankAt nm F cmdCommit leg r b2 None BackgroundCtx] that c by (simp add: lost)
  have "ledger_has k (bledger (release k b1))" using assms(6) by (simp add: release_leg)
  then have serve: "bank_serves F good_disk nm cmdCommit leg r b1 = (release k b1, None)"
      "bank_serves F good_disk nm cmdCommit leg r (release k b1) = (release k (release k b1), None)"
    using serves_settled [OF assms(4)] assms(5,6) by simp_all
  have r: "rpc ?N BackgroundCtx c cmdCommit leg r w = (?w [reply_lost, reply_lost] b1, ?e)"
    "rpc ?N BackgroundCtx c cmdCommit leg r (?w [reply_lost, reply_lost] b1) = (?w [reply_lost] (release k b1), ?e)"
    "rpc ?N BackgroundCtx c cmdCommit leg r (?w [reply_lost] (release k b1)) = (?w [] (release k (release k b1)), ?e)"
    by (rule call; simp add: assms(1,3) serve)+
  have "registry_client nm (registryOf ?N w) = Inr c" "registryOf ?N (?w fs b) = registryOf ?N w" "pause ?N (?w fs b) = ?w fs b" for fs b
    using c(1) by (simp_all add: registry_client_def payment_net_def)
  then show ?thesis using r
    by (simp add: coord_commit_def commitAttempts_def numeral_3_eq_3 pay_retriable_def status_Error_def)
qed

lemma wit_client:
  "registry_client ''X'' (registryOf (payment_net F wit_at) (wit_world fs)) = Inr \<lparr>connAddress = ''x'', connId = 0\<rparr>"
  "registry_client ''Y'' (registryOf (payment_net F wit_at) (wit_world fs)) = Inr \<lparr>connAddress = ''y'', connId = 1\<rparr>"
  by (simp_all add: registry_client_def payment_net_def wit_world_def)

lemma wit_legs:
  "lrAmount (debit_of (wit_req t n)) = units n" "lrAmount (credit_of (wit_req t n)) = units n"
  "lrAccount (debit_of (wit_req t n)) = ''A''" "lrCounterparty (debit_of (wit_req t n)) = ''B''" "lrTransaction (debit_of (wit_req t n)) = t"
  "lrAccount (credit_of (wit_req t n)) = ''B''" "lrCounterparty (credit_of (wit_req t n)) = ''A''" "lrTransaction (credit_of (wit_req t n)) = t"
  "trFromBank (wit_req t n) = ''X''" "trToBank (wit_req t n) = ''Y''"
  by (simp_all add: debit_of_def credit_of_def wit_req_def)

text \<open>The vault after a debit of 20 is prepared, and its answer to one of 40.\<close>

lemma held_vault:
  defines "s \<equiv> fst (vault_step (leg_command cmdPrepare (debit_of (wit_req ''T'' 20)) opDebit) 20 (wit_vault ''A''))"
  shows "fst (snd (vault_step (leg_command cmdPrepare (debit_of (wit_req ''U'' 40)) opDebit) 40 s)) = GFailedPrecondition"
  unfolding s_def by (simp add: vault_step_def leg_command_def wit_legs vault_prepare_def wit_vault_def on_hold_def transactionKey_def)

lemma lost_prepare_reply:
  "case pay_transfer (payment_net exact_floats wit_at) (wit_req ''T'' 20) (wit_world [reply_lost]) of (w1, e1) \<Rightarrow>
     e1 = Some (status_Error GUnavailable ''debit could not be prepared: '')
     \<and> map_option SCode (snd (bank_serves exact_floats good_disk ''X'' cmdPrepare opDebit (debit_of (wit_req ''U'' 40)) (pwBanks w1 ''X'')))
         = Some GFailedPrecondition"
proof -
  let ?w = "wit_world [reply_lost]" and ?N = "payment_net exact_floats wit_at" and ?d = "debit_of (wit_req ''T'' 20)"
  have room: "has_room (leg_command cmdPrepare r opDebit) n s" for r n s by (simp add: has_room_def)
  obtain b1 e where p: "bank_serves exact_floats good_disk ''X'' cmdPrepare opDebit ?d (wit_bank ''A'') = (b1, e)" by fastforce
  note v = serves_vault [OF exact_floats_ok wit_bank_implements(2,1) wit_legs(1) _ room _ p]
  obtain b2 e2 where q: "bank_serves exact_floats good_disk ''X'' cmdPrepare opDebit (debit_of (wit_req ''U'' 40)) b1 = (b2, e2)" by fastforce
  have "e2 \<noteq> None" "\<And>st. e2 = Some st \<Longrightarrow> SCode st = GFailedPrecondition"
    using serves_vault(3,4) [OF exact_floats_ok v(2,1) wit_legs(1) _ room _ q] held_vault by (simp_all add: fits_def)
  then have "map_option SCode e2 = Some GFailedPrecondition" by auto
  moreover have "rpc ?N CallerCtx \<lparr>connAddress = ''x'', connId = 0\<rparr> cmdPrepare opDebit ?d ?w
      = (?w\<lparr>pwFates := [], pwBanks := (pwBanks ?w)(''X'' := b1)\<rparr>, Some (status_Error GUnavailable []))"
    using fated_call [of ?w reply_lost "[]" "\<lparr>connAddress = ''x'', connId = 0\<rparr>" wit_at "''X''" exact_floats cmdPrepare opDebit ?d b1 e] p
    by (simp add: wit_world_facts wit_at_def reply_lost_def calm_def) (simp add: wit_world_def)
  ultimately show ?thesis using q by (simp add: pay_transfer_def wit_legs wit_client wrapPhase_def status_Error_def)
qed

lemma lost_commit_replies:
  "case pay_transfer (payment_net exact_floats wit_at) (wit_req ''T'' 20) (wit_world [calm, calm, reply_lost, reply_lost, reply_lost]) of
     (w2, e2) \<Rightarrow> e2 = Some (status_Error GUnavailable ''debit could not be committed: '')
     \<and> store_Balance exact_floats None ''A'' (bstore (pwBanks w2 ''X'')) = Inr (units 30)
     \<and> store_Balance exact_floats None ''B'' (bstore (pwBanks w2 ''Y'')) = Inr (units 50)"
proof -
  let ?F = exact_floats and ?N = "payment_net exact_floats wit_at" and ?d = "debit_of (wit_req ''T'' 20)" and ?c = "credit_of (wit_req ''T'' 20)"
  let ?x = "\<lparr>connAddress = ''x'', connId = 0\<rparr>" and ?y = "\<lparr>connAddress = ''y'', connId = 1\<rparr>" and ?l = "[reply_lost, reply_lost, reply_lost]"
  let ?w = "wit_world (calm # calm # ?l)" and ?k = "transactionKey ''T'' opDebit"
  obtain b1 b3 where p: "bank_serves ?F good_disk ''X'' cmdPrepare opDebit ?d (wit_bank ''A'') = (b1, None)"
      "bank_serves ?F good_disk ''X'' cmdCommit opDebit ?d b1 = (b3, None)" "ledger_has ?k (bledger b3)"
      "store_Balance ?F None ''A'' (bstore b3) = Inr (units 30)"
    using leg_round [OF exact_floats_ok wit_bank_implements(2,1) [of "''A''"], where r = ?d and n = 20 and k = ?k and leg = opDebit and f = 50 and nm = "''X''"]
      wit_leg_ready [of ?k opDebit "''A''" "''B''"]
    by (auto simp: wit_legs wit_vault_def wit_bank_def newParticipant_def wit_ledger_def ledger_has_def)
  obtain b2 r1 where q: "bank_serves ?F good_disk ''Y'' cmdPrepare opCredit ?c (wit_bank ''B'') = (b2, None)" "implements b2 r1"
      "funds r1 = [''B'' \<mapsto> 50]"
    using serves_prepare [OF exact_floats_ok wit_bank_implements(2,1) [of "''B''"], where r = ?c and n = 20 and leg = opCredit and nm = "''Y''"]
      wit_leg_ready [of "transactionKey ''T'' opCredit" opCredit "''B''" "''A''"]
    by (auto simp: wit_legs wit_vault_def)
  let ?w1 = "?w\<lparr>pwFates := calm # ?l, pwBanks := (pwBanks ?w)(''X'' := b1)\<rparr>"
  let ?w2 = "?w1\<lparr>pwFates := ?l, pwBanks := (pwBanks ?w1)(''Y'' := b2)\<rparr>"
  let ?w3 = "?w2\<lparr>pwFates := [], pwBanks := (pwBanks ?w2)(''X'' := release ?k (release ?k b3))\<rparr>"
  have reg: "pwReg (wit_world fs) = \<lparr>regBanks = [''X'' \<mapsto> ?x, ''Y'' \<mapsto> ?y], regClosed = {}, regNext = 2\<rparr>" for fs by (simp add: wit_world_def)
  have c1: "rpc ?N CallerCtx ?x cmdPrepare opDebit ?d ?w = (?w1, None)"
    using fated_call [of ?w calm "calm # ?l" ?x wit_at "''X''" ?F cmdPrepare opDebit ?d b1 None CallerCtx] p(1)
    by (simp add: wit_world_facts reg wit_at_def calm_def)
  have c2: "rpc ?N CallerCtx ?y cmdPrepare opCredit ?c ?w1 = (?w2, None)"
    using fated_call [of ?w1 calm ?l ?y wit_at "''Y''" ?F cmdPrepare opCredit ?c b2 None CallerCtx] q(1)
    by (simp add: wit_world_facts reg wit_at_def calm_def)
  have m: "marshals (lrAmount ?d)" "marshals (lrAmount ?c)" by (simp_all add: wit_legs units_def)
  have "reaches wit_at ?w2 ''X''" by (simp add: reaches_def reg wit_at_def)
  then have c3: "coord_commit ?N ''X'' opDebit ?d ?w2 = (?w3, Some (status_Error GUnavailable []))"
    using lost_commits [of ?w2 wit_at "''X''" ?F opDebit ?d b3 ?k] p(2,3) m(1) by (simp add: wit_legs)
  let ?w4 = "?w3\<lparr>pwBanks := (pwBanks ?w3)(''X'' := release ?k (release ?k (release ?k b3)))\<rparr>"
  let ?w5 = "?w4\<lparr>pwBanks := (pwBanks ?w4)(''Y'' := release (transactionKey ''T'' opCredit) b2)\<rparr>"
  have c4: "coord_abort ?N ?x opDebit ?d ?w3 = ?w4"
    using calm_call [of ?w3 ?x wit_at "''X''" ?F cmdAbort opDebit ?d _ None BackgroundCtx] serves_abort [OF m(1)]
    by (simp add: coord_abort_def reg wit_at_def wit_legs)
  have c5: "coord_abort ?N ?y opCredit ?c ?w4 = ?w5"
    using calm_call [of ?w4 ?y wit_at "''Y''" ?F cmdAbort opCredit ?c _ None BackgroundCtx] serves_abort [OF m(2)]
    by (simp add: coord_abort_def reg wit_at_def wit_legs)
  have "pay_transfer ?N (wit_req ''T'' 20) ?w = (?w5, Some (wrapPhase (status_Error GUnavailable []) ''debit could not be committed''))"
    unfolding pay_transfer_def pay_phase_two_def wit_legs by (simp only: wit_client sum.case c1 c2 c3 c4 c5 prod.case option.case)
  moreover have "store_Balance ?F None ''B'' (bstore b2) = Inr (units 50)"
    using implements_Balance [OF exact_floats_ok q(2), of "''B''"] q(3) by simp
  ultimately show ?thesis using p(4) by (simp add: wrapPhase_def status_Error_def release_def)
qed

text \<open>
  C34: what lost replies leave behind.  In the first run the reply to \<^verbatim>\<open>PrepareDebit\<close> is lost: the gateway
  reports that the debit could not be prepared and sends no abort, and the sender's bank keeps 20 of
  its 50 on hold, so that another debit of 40 is refused.  In the second run the three replies to
  \<^verbatim>\<open>CommitDebit\<close> are lost: the gateway reports that the debit could not be committed and releases what
  it takes for reservations, while the sender has paid 20 and the receiver has nothing.
\<close>

theorem lost_replies:
  "(case pay_transfer (payment_net exact_floats wit_at) (wit_req ''T'' 20) (wit_world [reply_lost]) of (w1, e1) \<Rightarrow>
      e1 = Some (status_Error GUnavailable ''debit could not be prepared: '')
      \<and> map_option SCode (snd (bank_serves exact_floats good_disk ''X'' cmdPrepare opDebit (debit_of (wit_req ''U'' 40)) (pwBanks w1 ''X'')))
          = Some GFailedPrecondition)
   \<and> (case pay_transfer (payment_net exact_floats wit_at) (wit_req ''T'' 20) (wit_world [calm, calm, reply_lost, reply_lost, reply_lost]) of
        (w2, e2) \<Rightarrow> e2 = Some (status_Error GUnavailable ''debit could not be committed: '')
        \<and> store_Balance exact_floats None ''A'' (bstore (pwBanks w2 ''X'')) = Inr (units 30)
        \<and> store_Balance exact_floats None ''B'' (bstore (pwBanks w2 ''Y'')) = Inr (units 50))"
  by (rule conjI [OF lost_prepare_reply lost_commit_replies])

end
