(* ===== verification/PaymentAuth.thy ===== *)
theory PaymentAuth
  imports PaymentTransfer
begin

text \<open>
  Who may move money through the payment gateway: users and sessions (\<^verbatim>\<open>src/gateway/auth.go\<close>), the
  interceptor and the ownership check (\<^verbatim>\<open>middleware.go\<close>), and the handlers and the up/down switch
  (\<^verbatim>\<open>service.go\<close>).  The hash function is a parameter; the users' file is the list of its CSV records;
  random bytes, the clock and the errors of the files are arguments.  Times are in nanoseconds.
\<close>

section \<open>Users and sessions\<close>

definition tokenTTL :: int where
  "tokenTTL = 30 * 60 * 10 ^ 9"

record identity =
  idUsername :: string
  idPasswordHash :: string
  idAccountID :: string
  idBank :: string

record user_session =
  sessUsername :: string
  sessExpiresAt :: int

record bcrypt =
  GenerateFromPassword :: "nat \<Rightarrow> string \<Rightarrow> goerror + string"
  CompareHashAndPassword :: "string \<Rightarrow> string \<Rightarrow> bool"

text \<open>The map of users as an association list with distinct keys.\<close>

record authStore =
  authPath :: string
  authUsers :: "(string \<times> identity) list"
  authSessions :: "string \<rightharpoonup> user_session"
  authFile :: "string list list option"

definition put_user :: "string \<Rightarrow> identity \<Rightarrow> (string \<times> identity) list \<Rightarrow> (string \<times> identity) list" where
  "put_user k u us = (k, u) # filter (\<lambda>x. fst x \<noteq> k) us"

definition gatewayUsersHeader :: "string list" where
  "gatewayUsersHeader = [''username'', ''password_hash'', ''account_id'', ''bank_name'']"

text \<open>\<open>ord\<close> is the order in which Go ranges over the map of users.\<close>

definition auth_save :: "goerror option \<Rightarrow> ((string \<times> identity) list \<Rightarrow> (string \<times> identity) list) \<Rightarrow> authStore \<Rightarrow>
    authStore \<times> goerror option" where
  "auth_save we ord s =
     (case we of
        Some err \<Rightarrow> (s, Some err)
      | None \<Rightarrow>
          (s\<lparr>authFile := Some (gatewayUsersHeader #
               map (\<lambda>(k, u). [idUsername u, idPasswordHash u, idAccountID u, idBank u]) (ord (authUsers s)))\<rparr>, None))"

definition auth_register :: "bcrypt \<Rightarrow> nat \<Rightarrow> goerror option \<Rightarrow> ((string \<times> identity) list \<Rightarrow> (string \<times> identity) list) \<Rightarrow>
    string \<Rightarrow> string \<Rightarrow> string \<Rightarrow> string \<Rightarrow> authStore \<Rightarrow> authStore \<times> goerror option" where
  "auth_register B salt we ord username password accountID bank s =
     (if username = [] \<or> password = [] then (s, Some (errors_New ''username and password are required''))
      else
        (case GenerateFromPassword B salt password of
           Inl err \<Rightarrow> (s, Some (Errorf ''hash password: '' err []))
         | Inr hash \<Rightarrow>
             if list_ex (\<lambda>(k, existing). idAccountID existing = accountID \<and> idUsername existing \<noteq> username) (authUsers s)
             then (s, Some (the_error errAccountClaimed))
             else auth_save we ord
                    (s\<lparr>authUsers := put_user username \<lparr>idUsername = username, idPasswordHash = hash, idAccountID = accountID,
                         idBank = bank\<rparr> (authUsers s)\<rparr>)))"

definition hex_digit :: "nat \<Rightarrow> char" where
  "hex_digit n = (if n < 10 then digit n else char_of (87 + n))"

definition EncodeToString :: "nat list \<Rightarrow> string" where
  "EncodeToString bytes = concat (map (\<lambda>b. [hex_digit (b div 16), hex_digit (b mod 16)]) bytes)"

definition newToken :: "goerror + nat list \<Rightarrow> goerror + string" where
  "newToken rnd = (case rnd of Inl err \<Rightarrow> Inl (Errorf ''generate token: '' err []) | Inr buf \<Rightarrow> Inr (EncodeToString buf))"

definition auth_authenticate :: "bcrypt \<Rightarrow> string \<Rightarrow> int \<Rightarrow> goerror + nat list \<Rightarrow> string \<Rightarrow> string \<Rightarrow> authStore \<Rightarrow>
    authStore \<times> (goerror + string)" where
  "auth_authenticate B dummyHash clk rnd username password s =
     (let user = map_of (authUsers s) username;
          hash = (case user of Some u \<Rightarrow> idPasswordHash u | None \<Rightarrow> dummyHash)
      in if \<not> CompareHashAndPassword B hash password \<or> user = None then (s, Inl (the_error errBadCredentials))
         else
           (case newToken rnd of
              Inl err \<Rightarrow> (s, Inl err)
            | Inr token \<Rightarrow>
                (s\<lparr>authSessions := (authSessions s)(token \<mapsto> \<lparr>sessUsername = username, sessExpiresAt = clk + tokenTTL\<rparr>)\<rparr>,
                 Inr token)))"

definition lookupSession :: "int \<Rightarrow> string \<Rightarrow> authStore \<Rightarrow> identity option" where
  "lookupSession clk token s =
     (case authSessions s token of
        None \<Rightarrow> None
      | Some sess \<Rightarrow> if clk > sessExpiresAt sess then None else map_of (authUsers s) (sessUsername sess))"

definition expireSessions :: "int \<Rightarrow> authStore \<Rightarrow> authStore" where
  "expireSessions clk s =
     s\<lparr>authSessions := (\<lambda>t. case authSessions s t of None \<Rightarrow> None | Some sess \<Rightarrow> if clk > sessExpiresAt sess then None else Some sess)\<rparr>"

definition auth_count :: "authStore \<Rightarrow> nat" where
  "auth_count s = length (authUsers s)"

section \<open>Loading\<close>

definition readRows :: "goerror option \<Rightarrow> goerror option \<Rightarrow> goerror option \<Rightarrow> authStore \<Rightarrow> authStore \<times> (goerror + string list list)" where
  "readRows we oe ce s =
     (case authFile s of
        None \<Rightarrow> (case auth_save we id s of (s1, Some err) \<Rightarrow> (s1, Inl err) | (s1, None) \<Rightarrow> (s1, Inr []))
      | Some rows \<Rightarrow>
          (case oe of
             Some err \<Rightarrow> (s, Inl (Errorf (''open '' @ authPath s @ '': '') err []))
           | None \<Rightarrow> (case ce of Some err \<Rightarrow> (s, Inl (Errorf (''read '' @ authPath s @ '': '') err [])) | None \<Rightarrow> (s, Inr rows))))"

text \<open>The users and how many passwords were hashed; row \<open>i\<close> takes the \<open>i\<close>-th salt.\<close>

fun load_rows :: "bcrypt \<Rightarrow> (nat \<Rightarrow> nat) \<Rightarrow> nat \<Rightarrow> string list list \<Rightarrow> (string \<times> identity) list \<Rightarrow> nat \<Rightarrow>
    goerror + (string \<times> identity) list \<times> nat" where
  "load_rows B salt i [] us upgraded = Inr (us, upgraded)"
| "load_rows B salt i (row # rows) us upgraded =
     (if i = 0 \<and> row \<noteq> [] \<and> row ! 0 = ''username'' then load_rows B salt (Suc i) rows us upgraded
      else if length row < 2 \<or> row ! 0 = [] then load_rows B salt (Suc i) rows us upgraded
      else
        (let user = \<lparr>idUsername = row ! 0, idPasswordHash = row ! 1, idAccountID = (if length row > 2 then row ! 2 else []),
                     idBank = (if length row > 3 then row ! 3 else [])\<rparr>
         in if take 2 (idPasswordHash user) \<noteq> ''$2''
            then (case GenerateFromPassword B (salt i) (idPasswordHash user) of
                    Inl err \<Rightarrow> Inl (Errorf (''upgrade password for '' @ idUsername user @ '': '') err [])
                  | Inr hash \<Rightarrow> load_rows B salt (Suc i) rows (put_user (row ! 0) (user\<lparr>idPasswordHash := hash\<rparr>) us) (Suc upgraded))
            else load_rows B salt (Suc i) rows (put_user (row ! 0) user us) upgraded))"

definition auth_load :: "bcrypt \<Rightarrow> (nat \<Rightarrow> nat) \<Rightarrow> goerror option \<Rightarrow> goerror option \<Rightarrow> goerror option \<Rightarrow> authStore \<Rightarrow>
    authStore \<times> goerror option" where
  "auth_load B salt we oe ce s =
     (case readRows we oe ce s of
        (s1, Inl err) \<Rightarrow> (s1, Some err)
      | (s1, Inr rows) \<Rightarrow>
          (case load_rows B salt 0 rows (authUsers s1) 0 of
             Inl err \<Rightarrow> (s1, Some err)
           | Inr (us, upgraded) \<Rightarrow>
               (let s2 = s1\<lparr>authUsers := us\<rparr> in if upgraded > 0 then auth_save we id s2 else (s2, None))))"

definition newAuthStore :: "bcrypt \<Rightarrow> (nat \<Rightarrow> nat) \<Rightarrow> goerror option \<Rightarrow> goerror option \<Rightarrow> goerror option \<Rightarrow> string \<Rightarrow>
    string list list option \<Rightarrow> goerror + authStore" where
  "newAuthStore B salt we oe ce path file =
     (case auth_load B salt we oe ce \<lparr>authPath = path, authUsers = [], authSessions = Map.empty, authFile = file\<rparr> of
        (s, Some err) \<Rightarrow> Inl err
      | (s, None) \<Rightarrow> Inr s)"

section \<open>The interceptor and the ownership check\<close>

definition publicMethods :: "string set" where
  "publicMethods = {''/payment.PaymentGateway/Register'', ''/payment.PaymentGateway/Authenticate'', ''/payment.PaymentGateway/BankRegister''}"

definition gateway_check :: "bool \<Rightarrow> gstatus option" where
  "gateway_check active = (if \<not> active then Some (status_Error GUnavailable ''gateway is offline'') else None)"

definition gateway_console :: "string \<Rightarrow> bool \<Rightarrow> bool" where
  "gateway_console line active =
     (let w = ToLower (TrimSpace line) in if w = ''down'' then False else if w = ''up'' then True else active)"

text \<open>
  The values of the \<^verbatim>\<open>authorization\<close> metadata, if the request carries metadata; the caller that is put
  into the context, if any.
\<close>

definition authUnaryInterceptor :: "bool \<Rightarrow> int \<Rightarrow> authStore \<Rightarrow> string \<Rightarrow> string list option \<Rightarrow> gstatus + identity option" where
  "authUnaryInterceptor active clk s fullMethod md =
     (case gateway_check active of
        Some err \<Rightarrow> Inl err
      | None \<Rightarrow>
          if fullMethod \<in> publicMethods then Inr None
          else
            (case md of
               None \<Rightarrow> Inl (status_Error GUnauthenticated ''request carries no metadata'')
             | Some [] \<Rightarrow> Inl (status_Error GUnauthenticated ''missing authorization token'')
             | Some (token # ts) \<Rightarrow>
                 (case lookupSession clk token s of
                    None \<Rightarrow> Inl (status_Error GUnauthenticated ''token is invalid or has expired'')
                  | Some caller \<Rightarrow> Inr (Some caller))))"

definition requireOwnership :: "identity option \<Rightarrow> string \<Rightarrow> gstatus + identity" where
  "requireOwnership caller accountID =
     (case caller of
        None \<Rightarrow> Inl (status_Error GUnauthenticated ''no authenticated caller'')
      | Some u \<Rightarrow>
          if idAccountID u = []
          then Inl (status_Error GFailedPrecondition
                 ''this account was registered by an older client; register again to link an account id'')
          else if idAccountID u \<noteq> accountID
          then Inl (status_Error GPermissionDenied (''user '' @ idUsername u @ '' is not the owner of account '' @ accountID))
          else Inr u)"

section \<open>The handlers\<close>

definition gw_BankRegister :: "goerror option \<Rightarrow> string \<Rightarrow> string \<Rightarrow> bankRegistry \<Rightarrow> bankRegistry \<times> gstatus option" where
  "gw_BankRegister ce name address r =
     (if name = [] \<or> address = [] then (r, Some (status_Error GInvalidArgument ''bank name and address are both required''))
      else
        (case registry_register ce name address r of
           (r1, Some err) \<Rightarrow> (r1, Some (status_Error GInternal (''register bank '' @ name @ '': '' @ Error err)))
         | (r1, None) \<Rightarrow> (r1, None)))"

definition gw_Register :: "bcrypt \<Rightarrow> nat \<Rightarrow> goerror option \<Rightarrow> ((string \<times> identity) list \<Rightarrow> (string \<times> identity) list) \<Rightarrow>
    string \<Rightarrow> string \<Rightarrow> string \<Rightarrow> string \<Rightarrow> authStore \<Rightarrow> authStore \<times> gstatus option" where
  "gw_Register B salt we ord username password accountID bank s =
     (if username = [] \<or> password = [] \<or> accountID = []
      then (s, Some (status_Error GInvalidArgument ''username, password and account id are all required''))
      else
        (case auth_register B salt we ord username password accountID bank s of
           (s1, None) \<Rightarrow> (s1, None)
         | (s1, Some err) \<Rightarrow>
             (s1, Some (if errors_Is err errAccountClaimed
                then status_Error GPermissionDenied (''account '' @ accountID @ '' is already registered to another user'')
                else status_Error GInternal (''register '' @ username @ '': '' @ Error err)))))"

definition gw_Authenticate :: "bcrypt \<Rightarrow> string \<Rightarrow> int \<Rightarrow> goerror + nat list \<Rightarrow> string \<Rightarrow> string \<Rightarrow> authStore \<Rightarrow>
    authStore \<times> (gstatus + string)" where
  "gw_Authenticate B dummyHash clk rnd username password s =
     (case auth_authenticate B dummyHash clk rnd username password s of
        (s1, Inr token) \<Rightarrow> (s1, Inr token)
      | (s1, Inl err) \<Rightarrow>
          (s1, Inl (if errors_Is err errBadCredentials then status_Error GUnauthenticated ''invalid username or password''
             else status_Error GInternal (''authenticate '' @ username @ '': '' @ Error err))))"

definition gw_TransferMoney :: "'w net \<Rightarrow> identity option \<Rightarrow> transferRequest \<Rightarrow> 'w \<Rightarrow> 'w \<times> gstatus option" where
  "gw_TransferMoney N caller req w =
     (case requireOwnership caller (trFromAccount req) of
        Inl err \<Rightarrow> (w, Some err)
      | Inr u \<Rightarrow>
          if trTransaction req = []
          then (w, Some (status_Error GInvalidArgument ''a transaction id is required for idempotent retries''))
          else if f_le (trAmount req) (Finite 0)
          then (w, Some (status_Error GInvalidArgument (''amount must be positive, got '' @ fmt2 (trAmount req))))
          else pay_transfer N req w)"

text \<open>\<open>bal\<close> is the call of \<^verbatim>\<open>GetBalance\<close> on a connection.\<close>

definition gw_CheckBalance :: "(bankConn \<Rightarrow> string \<Rightarrow> 'w \<Rightarrow> gstatus + float64) \<Rightarrow> 'w net \<Rightarrow> identity option \<Rightarrow> string \<Rightarrow> string \<Rightarrow> 'w \<Rightarrow>
    gstatus + float64" where
  "gw_CheckBalance bal N caller accountID bankName w =
     (case requireOwnership caller accountID of
        Inl err \<Rightarrow> Inl err
      | Inr u \<Rightarrow> (case registry_client bankName (registryOf N w) of Inl err \<Rightarrow> Inl err | Inr c \<Rightarrow> bal c accountID w))"

text \<open>A transfer as it comes in over the wire.\<close>

definition serve_TransferMoney :: "'w net \<Rightarrow> bool \<Rightarrow> int \<Rightarrow> authStore \<Rightarrow> string list option \<Rightarrow> transferRequest \<Rightarrow> 'w \<Rightarrow> 'w \<times> gstatus option" where
  "serve_TransferMoney N active clk s md req w =
     (case authUnaryInterceptor active clk s ''/payment.PaymentGateway/TransferMoney'' md of
        Inl err \<Rightarrow> (w, Some err)
      | Inr caller \<Rightarrow> gw_TransferMoney N caller req w)"

section \<open>Only the owner moves money\<close>

text \<open>What happens to the users and sessions while the gateway runs.\<close>

datatype auth_op =
  OpRegister nat "goerror option" string string string string
| OpAuthenticate int "goerror + nat list" string string
| OpExpire int

fun auth_step :: "bcrypt \<Rightarrow> string \<Rightarrow> ((string \<times> identity) list \<Rightarrow> (string \<times> identity) list) \<Rightarrow> auth_op \<Rightarrow> authStore \<Rightarrow> authStore" where
  "auth_step B dummyHash ord (OpRegister salt we u p a b) s = fst (gw_Register B salt we ord u p a b s)"
| "auth_step B dummyHash ord (OpAuthenticate clk rnd u p) s = fst (gw_Authenticate B dummyHash clk rnd u p s)"
| "auth_step B dummyHash ord (OpExpire clk) s = expireSessions clk s"

text \<open>Every account id has one user, who is listed under its own name.\<close>

definition claimed_once :: "authStore \<Rightarrow> bool" where
  "claimed_once s \<longleftrightarrow> (\<forall>k u. map_of (authUsers s) k = Some u \<longrightarrow> idUsername u = k)
     \<and> (\<forall>k u j v. map_of (authUsers s) k = Some u \<and> map_of (authUsers s) j = Some v \<and> idAccountID u = idAccountID v \<longrightarrow> k = j)
     \<and> distinct (map fst (authUsers s))"

lemma put_user_map [simp]: "map_of (put_user k u us) = (map_of us)(k \<mapsto> u)"
  "distinct (map fst us) \<Longrightarrow> distinct (map fst (put_user k u us))"
  by (auto simp: put_user_def map_of_filter_neq distinct_map inj_on_def)

lemma auth_save_users: "authUsers (fst (auth_save we ord s)) = authUsers s" "authSessions (fst (auth_save we ord s)) = authSessions s"
  by (simp_all add: auth_save_def split: option.split)

lemma auth_register_users:
  "authSessions (fst (auth_register B salt we ord u p a b s)) = authSessions s"
  "authUsers (fst (auth_register B salt we ord u p a b s)) = authUsers s \<or>
   (\<exists>h. \<not> list_ex (\<lambda>(k, x). idAccountID x = a \<and> idUsername x \<noteq> u) (authUsers s) \<and>
     authUsers (fst (auth_register B salt we ord u p a b s)) =
       put_user u \<lparr>idUsername = u, idPasswordHash = h, idAccountID = a, idBank = b\<rparr> (authUsers s))"
  by (auto simp: auth_register_def auth_save_users split: sum.split)

lemma register_claims:
  assumes "claimed_once s"
  shows "claimed_once (fst (auth_register B salt we ord u p a b s))"
proof (cases "authUsers (fst (auth_register B salt we ord u p a b s)) = authUsers s")
  case True
  then show ?thesis using assms by (simp add: claimed_once_def)
next
  case False
  then obtain h where n: "\<not> list_ex (\<lambda>(k, x). idAccountID x = a \<and> idUsername x \<noteq> u) (authUsers s)"
    and e: "authUsers (fst (auth_register B salt we ord u p a b s)) =
       put_user u \<lparr>idUsername = u, idPasswordHash = h, idAccountID = a, idBank = b\<rparr> (authUsers s)"
    using auth_register_users(2) [of B salt we ord u p a b s] by blast
  have own: "k = u" if v: "map_of (authUsers s) k = Some v" "idAccountID v = a" for k v
  proof -
    have "idUsername v = u" using n map_of_SomeD [OF v(1)] v(2) by (auto simp: list_ex_iff)
    then show ?thesis using assms v(1) by (auto simp: claimed_once_def)
  qed
  have names: "\<forall>k v. map_of (authUsers s) k = Some v \<longrightarrow> idUsername v = k" and keys: "distinct (map fst (authUsers s))"
    and once: "map_of (authUsers s) k = Some v \<Longrightarrow> map_of (authUsers s) j = Some x \<Longrightarrow> idAccountID v = idAccountID x \<Longrightarrow> k = j" for k v j x
    using assms unfolding claimed_once_def by blast+
  show ?thesis unfolding claimed_once_def e put_user_map(1)
    using names keys own once by (intro conjI allI impI) (auto split: if_splits)
qed

lemma step_claims: "claimed_once s \<Longrightarrow> claimed_once (auth_step B d ord op s)"
proof (induction op)
  case (OpRegister salt we u p a b)
  have "fst (gw_Register B salt we ord u p a b s) \<in> {s, fst (auth_register B salt we ord u p a b s)}"
    by (auto simp: gw_Register_def split: prod.split option.split)
  then show ?case using OpRegister register_claims [OF OpRegister, of B salt we ord u p a b] by auto
next
  case (OpAuthenticate clk rnd u p)
  have "authUsers (fst (gw_Authenticate B d clk rnd u p s)) = authUsers s"
    by (auto simp: gw_Authenticate_def auth_authenticate_def Let_def split: prod.split sum.split)
  then show ?case using OpAuthenticate by (simp add: claimed_once_def)
qed (simp add: claimed_once_def expireSessions_def)

text \<open>Every session was opened with the password of its user.\<close>

definition opened_by :: "bcrypt \<Rightarrow> string \<Rightarrow> ((string \<times> identity) list \<Rightarrow> (string \<times> identity) list) \<Rightarrow> authStore \<Rightarrow> auth_op list \<Rightarrow>
    string \<Rightarrow> string \<Rightarrow> int \<Rightarrow> bool" where
  "opened_by B d ord s0 ops token name expires \<longleftrightarrow>
     (\<exists>before clk rnd p after. ops = before @ OpAuthenticate clk rnd name p # after \<and> expires = clk + tokenTTL
        \<and> snd (gw_Authenticate B d clk rnd name p (fold (auth_step B d ord) before s0)) = Inr token)"

lemma opened_by_snoc: "opened_by B d ord s0 ops t name e \<Longrightarrow> opened_by B d ord s0 (ops @ [x]) t name e"
  unfolding opened_by_def by (metis append_Cons append_assoc)

lemma sessions_opened:
  "authSessions s0 = Map.empty \<Longrightarrow> authSessions (fold (auth_step B d ord) ops s0) t = Some sess \<Longrightarrow>
   opened_by B d ord s0 ops t (sessUsername sess) (sessExpiresAt sess)"
proof (induction ops arbitrary: t sess rule: rev_induct)
  case (snoc x ops)
  let ?s = "fold (auth_step B d ord) ops s0"
  have old: "authSessions ?s t = Some sess \<Longrightarrow> ?case" using snoc.IH [OF snoc.prems(1)] opened_by_snoc by blast
  show ?case
  proof (cases x)
    case (OpRegister salt we u p a b)
    have "authSessions (fst (gw_Register B salt we ord u p a b ?s)) = authSessions ?s"
      using auth_register_users(1) [of B salt we ord u p a b ?s] by (auto simp: gw_Register_def split: prod.split option.split)
    then show ?thesis using old snoc.prems(2) OpRegister by simp
  next
    case (OpExpire clk)
    then show ?thesis using old snoc.prems(2) by (auto simp: expireSessions_def split: option.splits if_splits)
  next
    case (OpAuthenticate clk rnd u p)
    show ?thesis
    proof (cases "authSessions ?s t = Some sess")
      case False
      have "authSessions (fst (gw_Authenticate B d clk rnd u p ?s)) t = Some sess" using snoc.prems(2) OpAuthenticate by simp
      then have "snd (gw_Authenticate B d clk rnd u p ?s) = Inr t \<and> sess = \<lparr>sessUsername = u, sessExpiresAt = clk + tokenTTL\<rparr>"
        using False by (auto simp: gw_Authenticate_def auth_authenticate_def Let_def split: sum.splits if_splits)
      then show ?thesis unfolding opened_by_def OpAuthenticate by (intro exI [of _ ops] exI [of _ clk] exI [of _ rnd] exI [of _ p] exI [of _ "[]"]) simp
    qed (rule old)
  qed
qed simp

text \<open>
  C15: only the owner moves money out of an account.  The gateway starts without users and serves any
  sequence of registrations, logins and expiries.  If a transfer request then reaches a bank or is
  answered with success, the gateway is up, the request carries a token, and the token was issued
  within the last thirty minutes to the one user to whom the debited account is registered, who
  presented the password of that moment.
\<close>

theorem only_owner_debits:
  assumes "newAuthStore B salt None None None path None = Inr s0" and "s = fold (auth_step B d ord) ops s0"
    and "serve_TransferMoney N active clk s md req w = (w1, e)" and "w1 \<noteq> w \<or> e = None"
  shows "active \<and> (\<exists>token ts name u expires. md = Some (token # ts) \<and> opened_by B d ord s0 ops token name expires \<and> clk \<le> expires
    \<and> map_of (authUsers s) name = Some u \<and> idAccountID u = trFromAccount req \<and> trFromAccount req \<noteq> []
    \<and> (\<forall>other v. map_of (authUsers s) other = Some v \<and> idAccountID v = trFromAccount req \<longrightarrow> other = name))"
proof -
  have s0: "authSessions s0 = Map.empty" "authUsers s0 = []"
    using assms(1) by (auto simp: newAuthStore_def auth_load_def readRows_def auth_save_def)
  have "claimed_once (fold (auth_step B d ord) ops s0)"
  proof (induction ops rule: rev_induct)
    case Nil
    show ?case using s0 by (simp add: claimed_once_def)
  qed (simp add: step_claims)
  then have once: "claimed_once s" by (simp add: assms(2))
  obtain caller where c: "authUnaryInterceptor active clk s ''/payment.PaymentGateway/TransferMoney'' md = Inr caller"
      "gw_TransferMoney N caller req w = (w1, e)"
    using assms(3,4) by (auto simp: serve_TransferMoney_def split: sum.splits)
  then obtain token ts u where t: "active" "md = Some (token # ts)" "caller = Some u" "lookupSession clk token s = Some u"
    by (auto simp: authUnaryInterceptor_def gateway_check_def publicMethods_def split: if_splits option.splits list.splits) metis
  have own: "idAccountID u = trFromAccount req" "trFromAccount req \<noteq> []"
    using c(2) t(3) assms(4) by (auto simp: gw_TransferMoney_def requireOwnership_def split: if_splits)
  obtain sess where sess: "authSessions s token = Some sess" "clk \<le> sessExpiresAt sess" "map_of (authUsers s) (sessUsername sess) = Some u"
    using t(4) by (auto simp: lookupSession_def split: option.splits if_splits)
  have "opened_by B d ord s0 ops token (sessUsername sess) (sessExpiresAt sess)"
    using sessions_opened [OF s0(1)] sess(1) assms(2) by blast
  moreover have "\<forall>other v. map_of (authUsers s) other = Some v \<and> idAccountID v = trFromAccount req \<longrightarrow> other = sessUsername sess"
    using once sess(3) own(1) unfolding claimed_once_def by metis
  ultimately show ?thesis using t(1,2) sess own by blast
qed

section \<open>Witnesses and what goes wrong\<close>

text \<open>What the code relies on: a hash accepts the password it was made from.\<close>

definition bcrypt_ok :: "bcrypt \<Rightarrow> bool" where
  "bcrypt_ok B \<longleftrightarrow> (\<forall>salt p h. GenerateFromPassword B salt p = Inr h \<longrightarrow> CompareHashAndPassword B h p)"

definition plain_bcrypt :: bcrypt where
  "plain_bcrypt = \<lparr>GenerateFromPassword = (\<lambda>salt p. Inr (''$2'' @ p)), CompareHashAndPassword = (\<lambda>h p. h = ''$2'' @ p)\<rparr>"

lemma plain_bcrypt_ok: "bcrypt_ok plain_bcrypt"
  by (simp add: bcrypt_ok_def plain_bcrypt_def)

definition empty_auth :: authStore where
  "empty_auth = \<lparr>authPath = ''g'', authUsers = [], authSessions = Map.empty, authFile = Some [gatewayUsersHeader]\<rparr>"

lemma empty_auth_opens: "newAuthStore plain_bcrypt id None None None ''g'' None = Inr empty_auth"
  by (simp add: newAuthStore_def auth_load_def readRows_def auth_save_def empty_auth_def)

definition auth_ops :: "auth_op list" where
  "auth_ops = [OpRegister 0 None ''alice'' ''pw'' ''A'' ''X'', OpAuthenticate 5 (Inr [1]) ''alice'' ''pw'']"

text \<open>A network on which every call succeeds and is counted.\<close>

definition count_net :: "nat net" where
  "count_net = \<lparr>registryOf = (\<lambda>w. fst (registry_register None ''X'' ''x'' (fst (registry_register None ''Y'' ''y'' newBankRegistry)))),
     rpc = (\<lambda>x c k leg r w. (Suc w, None)), pause = (\<lambda>w. w)\<rparr>"

definition pay_req :: "string \<Rightarrow> float64 \<Rightarrow> transferRequest" where
  "pay_req bank amount = \<lparr>trTransaction = ''T'', trFromAccount = ''A'', trToAccount = ''B'', trFromBank = bank, trToBank = ''Y'', trAmount = amount\<rparr>"

lemma count_net_transfer:
  "f_le amount (Finite 0) = False \<Longrightarrow> idAccountID u = ''A'' \<Longrightarrow> gw_TransferMoney count_net (Some u) (pay_req ''X'' amount) 0 = (4, None)"
  by (simp add: gw_TransferMoney_def requireOwnership_def pay_req_def pay_transfer_def pay_phase_two_def count_net_def coord_commit_def
      commitAttempts_def numeral_3_eq_3 registry_client_def registry_register_def newBankRegistry_def Let_def)

lemma auth_ops_store:
  "fold (auth_step plain_bcrypt [] id) auth_ops empty_auth =
     \<lparr>authPath = ''g'', authUsers = [(''alice'', \<lparr>idUsername = ''alice'', idPasswordHash = ''$2pw'', idAccountID = ''A'', idBank = ''X''\<rparr>)],
      authSessions = [EncodeToString [1] \<mapsto> \<lparr>sessUsername = ''alice'', sessExpiresAt = 5 + tokenTTL\<rparr>],
      authFile = Some [gatewayUsersHeader, [''alice'', ''$2pw'', ''A'', ''X'']]\<rparr>"
  by (simp add: auth_ops_def gw_Register_def auth_register_def plain_bcrypt_def empty_auth_def put_user_def auth_save_def
      gw_Authenticate_def auth_authenticate_def newToken_def Let_def)

theorem only_owner_debits_witness:
  "\<exists>name expires. opened_by plain_bcrypt [] id empty_auth auth_ops (EncodeToString [1]) name expires \<and> 6 \<le> expires"
proof -
  let ?s = "fold (auth_step plain_bcrypt [] id) auth_ops empty_auth"
  have "lookupSession 6 (EncodeToString [1]) ?s = Some \<lparr>idUsername = ''alice'', idPasswordHash = ''$2pw'', idAccountID = ''A'', idBank = ''X''\<rparr>"
    unfolding auth_ops_store by (simp add: lookupSession_def tokenTTL_def)
  then have "serve_TransferMoney count_net True 6 ?s (Some [EncodeToString [1]]) (pay_req ''X'' (Finite 1)) 0 = (4, None)"
    using count_net_transfer [of "Finite 1"]
    by (simp add: serve_TransferMoney_def authUnaryInterceptor_def gateway_check_def publicMethods_def f_le_def f_eq_def)
  from only_owner_debits [OF empty_auth_opens refl this] show ?thesis by auto
qed

text \<open>
  C37: registering again takes an account over.  Registration needs no token, and a user name that
  exists is overwritten with a new password as long as the account id stays the same.  So whoever
  knows the user name and the account id of a victim, in a gateway that is up, registers the victim
  anew with a password of their own, logs in, and the gateway takes them for the owner.
\<close>

theorem account_takeover:
  assumes "bcrypt_ok B" and "GenerateFromPassword B salt mine = Inr h" and "mine \<noteq> []"
    and "claimed_once s" and "map_of (authUsers s) victim = Some u" and "victim \<noteq> []" and "idAccountID u \<noteq> []"
  shows "\<exists>s1 s2 token. gw_Register B salt None ord victim mine (idAccountID u) bank s = (s1, None)
    \<and> gw_Authenticate B d clk (Inr buf) victim mine s1 = (s2, Inr token)
    \<and> (\<exists>caller. authUnaryInterceptor True clk s2 ''/payment.PaymentGateway/TransferMoney'' (Some [token]) = Inr caller
         \<and> (\<exists>who. requireOwnership caller (idAccountID u) = Inr who))"
proof -
  let ?u = "\<lparr>idUsername = victim, idPasswordHash = h, idAccountID = idAccountID u, idBank = bank\<rparr>"
  have "\<not> list_ex (\<lambda>(k, x). idAccountID x = idAccountID u \<and> idUsername x \<noteq> victim) (authUsers s)"
  proof
    assume "list_ex (\<lambda>(k, x). idAccountID x = idAccountID u \<and> idUsername x \<noteq> victim) (authUsers s)"
    then obtain k x where x: "(k, x) \<in> set (authUsers s)" "idAccountID x = idAccountID u" "idUsername x \<noteq> victim" by (auto simp: list_ex_iff)
    then have m: "map_of (authUsers s) k = Some x" using assms(4) by (simp add: claimed_once_def)
    have "k = victim" "idUsername x = k" using assms(4,5) m x(2) unfolding claimed_once_def by metis+
    then show False using x(3) by simp
  qed
  then obtain s1 where r: "gw_Register B salt None ord victim mine (idAccountID u) bank s = (s1, None)" "map_of (authUsers s1) victim = Some ?u"
    using assms(2,3,6,7) by (simp add: gw_Register_def auth_register_def auth_save_def)
  have cmp: "CompareHashAndPassword B h mine" using assms(1,2) unfolding bcrypt_ok_def by blast
  let ?t = "EncodeToString buf"
  let ?s2 = "s1\<lparr>authSessions := (authSessions s1)(?t \<mapsto> \<lparr>sessUsername = victim, sessExpiresAt = clk + tokenTTL\<rparr>)\<rparr>"
  have a: "gw_Authenticate B d clk (Inr buf) victim mine s1 = (?s2, Inr ?t)"
    using r(2) cmp by (simp add: gw_Authenticate_def auth_authenticate_def newToken_def)
  have "lookupSession clk ?t ?s2 = Some ?u" using r(2) by (simp add: lookupSession_def tokenTTL_def)
  then have "authUnaryInterceptor True clk ?s2 ''/payment.PaymentGateway/TransferMoney'' (Some [?t]) = Inr (Some ?u)"
    by (simp add: authUnaryInterceptor_def gateway_check_def publicMethods_def)
  moreover have "requireOwnership (Some ?u) (idAccountID u) = Inr ?u" using assms(7) by (simp add: requireOwnership_def)
  ultimately show ?thesis using r(1) a by blast
qed

theorem account_takeover_witness:
  "\<exists>s1 s2 token. gw_Register plain_bcrypt 1 None id ''alice'' ''mine'' ''A'' ''X'' (fold (auth_step plain_bcrypt [] id) auth_ops empty_auth) = (s1, None)
    \<and> gw_Authenticate plain_bcrypt [] 7 (Inr [2]) ''alice'' ''mine'' s1 = (s2, Inr token)"
proof -
  let ?s = "fold (auth_step plain_bcrypt [] id) auth_ops empty_auth"
  have "claimed_once ?s" "map_of (authUsers ?s) ''alice'' = Some \<lparr>idUsername = ''alice'', idPasswordHash = ''$2pw'', idAccountID = ''A'', idBank = ''X''\<rparr>"
    unfolding auth_ops_store by (simp_all add: claimed_once_def)
  from account_takeover [OF plain_bcrypt_ok _ _ this, of 1 "''mine''" "''$2mine''" id "''X''" "[]" 7 "[2]"]
  show ?thesis by (auto simp: plain_bcrypt_def)
qed

text \<open>The check looks at the account id only: the same id at another bank passes.\<close>

lemma ownership_ignores_bank:
  "idAccountID u \<noteq> [] \<Longrightarrow> trFromAccount req = idAccountID u \<Longrightarrow> requireOwnership (Some u) (trFromAccount (req\<lparr>trFromBank := other\<rparr>)) = Inr u"
  by (simp add: requireOwnership_def)

text \<open>
  An amount that is not a number passes the gateway and ends the bank: the check for positive amounts
  lets it through, and the bank panics when it encodes the command.
\<close>

lemma nan_ends_bank:
  "idAccountID u = ''A'' \<Longrightarrow> fst (gw_TransferMoney count_net (Some u) (pay_req ''X'' NaN) 0) \<noteq> 0"
  "service_prepare prop (newHealth nm) opDebit (debit_of (pay_req ''X'' NaN)) w = None"
proof -
  have "f_le NaN (Finite 0) = False" by (simp add: f_le_def f_eq_def)
  then show "idAccountID u = ''A'' \<Longrightarrow> fst (gw_TransferMoney count_net (Some u) (pay_req ''X'' NaN) 0) \<noteq> 0"
    using count_net_transfer [of NaN u] by simp
  show "service_prepare prop (newHealth nm) opDebit (debit_of (pay_req ''X'' NaN)) w = None"
    by (simp add: service_prepare_def health_check_def newHealth_def bank_propose_def leg_command_def debit_of_def pay_req_def)
qed

text \<open>
  A failed re-registration strands a bank: its old connection is closed but stays listed, and
  announcing the old address again is taken for no change.
\<close>

lemma failed_register_strands:
  assumes "regBanks r nm = Some c" and "connAddress c \<noteq> bad"
  shows "case registry_register (Some err) nm bad r of (r1, e1) \<Rightarrow> e1 \<noteq> None \<and>
    (case registry_register None nm (connAddress c) r1 of (r2, e2) \<Rightarrow>
       e2 = None \<and> registry_client nm r2 = Inr c \<and> connId c \<in> regClosed r2)"
  using assms by (simp add: registry_register_def registry_client_def Let_def)

section \<open>Users across a restart\<close>

definition user_row :: "string \<times> identity \<Rightarrow> string list" where
  "user_row x = (case x of (k, u) \<Rightarrow> [idUsername u, idPasswordHash u, idAccountID u, idBank u])"

definition hashed :: "string \<times> identity \<Rightarrow> bool" where
  "hashed x \<longleftrightarrow> fst x \<noteq> [] \<and> idUsername (snd x) = fst x \<and> take 2 (idPasswordHash (snd x)) = ''$2''"

lemma load_saved_rows:
  "list_all hashed xs \<Longrightarrow> distinct (map fst xs) \<Longrightarrow>
   \<exists>us1. load_rows B salt (Suc i) (map user_row xs) us n = Inr (us1, n) \<and> map_of us1 = map_of us ++ map_of xs"
proof (induction xs arbitrary: i us)
  case (Cons x xs)
  obtain k u where x: "x = (k, u)" by fastforce
  have step: "load_rows B salt (Suc i) (map user_row (x # xs)) us n = load_rows B salt (Suc (Suc i)) (map user_row xs) (put_user k u us) n"
    using Cons.prems(1) by (cases u) (simp add: x user_row_def hashed_def)
  have rest: "list_all hashed xs" "distinct (map fst xs)" using Cons.prems by simp_all
  obtain us1 where us1: "load_rows B salt (Suc (Suc i)) (map user_row xs) (put_user k u us) n = Inr (us1, n)"
      "map_of us1 = map_of (put_user k u us) ++ map_of xs"
    using Cons.IH [OF rest, of "Suc i" "put_user k u us"] by blast
  have "map_of xs k = None" using Cons.prems(2) by (simp add: x map_of_eq_None_iff)
  then have "map_of us1 = map_of us ++ map_of (x # xs)"
    unfolding us1(2) by (intro ext) (auto simp: x map_add_def split: option.split)
  then show ?case unfolding step us1(1) by blast
qed simp

text \<open>
  The users of a gateway survive a restart: whatever order Go ranges over them when it writes the
  file, reading it back gives every user with its hash, account and bank, and no session.
\<close>

lemma users_survive_restart:
  assumes "list_all hashed (authUsers s)" and "distinct (map fst (authUsers s))" and "mset (ord (authUsers s)) = mset (authUsers s)"
    and "auth_save None ord s = (s1, None)"
  shows "\<exists>s2. newAuthStore B salt None None None (authPath s1) (authFile s1) = Inr s2 \<and> map_of (authUsers s2) = map_of (authUsers s)
    \<and> authSessions s2 = Map.empty"
proof -
  let ?xs = "ord (authUsers s)"
  have set: "set ?xs = set (authUsers s)" using mset_eq_setD [OF assms(3)] .
  have d: "distinct (map fst ?xs)" using assms(2,3) by (metis mset_map mset_eq_imp_distinct_iff)
  have h: "list_all hashed ?xs" using assms(1) set by (simp add: list_all_iff)
  have f: "authFile s1 = Some (gatewayUsersHeader # map user_row ?xs)" "authPath s1 = authPath s"
    using assms(4) by (auto simp: auth_save_def user_row_def)
  obtain us where us: "load_rows B salt 1 (map user_row ?xs) [] 0 = Inr (us, 0)" "map_of us = Map.empty ++ map_of ?xs"
    using load_saved_rows [OF h d, of B salt 0 "[]" 0] by auto
  have "map_of ?xs = map_of (authUsers s)" using map_of_inject_set [OF d assms(2)] set by blast
  moreover have "load_rows B salt 0 (gatewayUsersHeader # map user_row ?xs) [] 0 = Inr (us, 0)"
    using us(1) by (simp add: gatewayUsersHeader_def)
  ultimately show ?thesis using us(2) by (simp add: newAuthStore_def auth_load_def readRows_def f)
qed

end
