(* ===== verification/PaymentClient.thy ===== *)
theory PaymentClient
  imports PaymentTransfer
begin

text \<open>
  The client of the payment gateway, from \<^verbatim>\<open>src/client\<close>: the queue of transfers that could not be
  delivered (\<^verbatim>\<open>queue.go\<close>), a transfer from the menu (\<^verbatim>\<open>main.go\<close>) and the accounts it seeds (\<^verbatim>\<open>seed.go\<close>).
  The gateway and the transaction id server are calls on a world; the file of the queue is the list
  it encodes, and a write replaces it or fails.
\<close>

section \<open>The queue\<close>

text \<open>Durations in seconds.\<close>

definition retryBase :: nat where
  "retryBase = 2"

definition retryMax :: nat where
  "retryMax = 60"

definition maxAttempts :: int where
  "maxAttempts = 10"

record queuedTransfer =
  qtTransaction :: string
  qtFromAccount :: string
  qtToAccount :: string
  qtFromBank :: string
  qtToBank :: string
  qtAmount :: float64
  qtAttempts :: int

definition queued_request :: "queuedTransfer \<Rightarrow> transferRequest" where
  "queued_request q = \<lparr>trTransaction = qtTransaction q, trFromAccount = qtFromAccount q, trToAccount = qtToAccount q,
     trFromBank = qtFromBank q, trToBank = qtToBank q, trAmount = qtAmount q\<rparr>"

record offlineQueue =
  qPath :: string
  qItems :: "queuedTransfer list"
  qFile :: "queuedTransfer list option"

text \<open>\<open>re\<close> is the error of reading the file, \<open>ue\<close> that of decoding it.\<close>

definition newOfflineQueue :: "goerror option \<Rightarrow> goerror option \<Rightarrow> string \<Rightarrow> queuedTransfer list option \<Rightarrow> goerror + offlineQueue" where
  "newOfflineQueue re ue path file =
     (case file of
        None \<Rightarrow> Inr \<lparr>qPath = path, qItems = [], qFile = None\<rparr>
      | Some items \<Rightarrow>
          (case re of
             Some err \<Rightarrow> Inl err
           | None \<Rightarrow> (case ue of Some err \<Rightarrow> Inl err | None \<Rightarrow> Inr \<lparr>qPath = path, qItems = items, qFile = file\<rparr>)))"

text \<open>A queue with an amount that JSON cannot encode is not written.\<close>

definition queue_persist :: "bool \<Rightarrow> offlineQueue \<Rightarrow> offlineQueue" where
  "queue_persist fails q =
     (if fails \<or> \<not> list_all (\<lambda>i. marshals (qtAmount i)) (qItems q) then q else q\<lparr>qFile := Some (qItems q)\<rparr>)"

definition queue_add :: "bool \<Rightarrow> transferRequest \<Rightarrow> offlineQueue \<Rightarrow> offlineQueue" where
  "queue_add fails req q =
     queue_persist fails (q\<lparr>qItems := qItems q @ [\<lparr>qtTransaction = trTransaction req, qtFromAccount = trFromAccount req,
       qtToAccount = trToAccount req, qtFromBank = trFromBank req, qtToBank = trToBank req, qtAmount = trAmount req,
       qtAttempts = 0\<rparr>]\<rparr>)"

definition queue_take :: "bool \<Rightarrow> offlineQueue \<Rightarrow> offlineQueue \<times> queuedTransfer list" where
  "queue_take fails q =
     (let q1 = q\<lparr>qItems := []\<rparr> in (if qItems q \<noteq> [] then queue_persist fails q1 else q1, qItems q))"

definition requeue :: "bool \<Rightarrow> queuedTransfer \<Rightarrow> offlineQueue \<Rightarrow> offlineQueue" where
  "requeue fails item q =
     (let item = item\<lparr>qtAttempts := qtAttempts item + 1\<rparr>
      in if qtAttempts item \<ge> maxAttempts then q else queue_persist fails (q\<lparr>qItems := qItems q @ [item]\<rparr>))"

definition queue_depth :: "offlineQueue \<Rightarrow> nat" where
  "queue_depth q = length (qItems q)"

definition queue_retriable :: "gstatus \<Rightarrow> bool" where
  "queue_retriable err \<longleftrightarrow> SCode err \<in> {GUnavailable, GDeadlineExceeded, GResourceExhausted, GAborted}"

text \<open>
  The gateway as the client sees it: \<^verbatim>\<open>TransferMoney\<close> under the session's token and the call's
  deadline, the answer of the transaction id server, and whether a write of the queue fails.
\<close>

record 'w gateway_client =
  TransferMoney :: "transferRequest \<Rightarrow> 'w \<Rightarrow> 'w \<times> gstatus option"
  newTransactionID :: "'w \<Rightarrow> 'w \<times> (gstatus + string)"
  persistFails :: "'w \<Rightarrow> bool"

definition queue_deliver :: "'w gateway_client \<Rightarrow> queuedTransfer \<Rightarrow> 'w \<Rightarrow> 'w \<times> gstatus option" where
  "queue_deliver G item w = TransferMoney G (queued_request item) w"

text \<open>One sweep over what was taken, with the progress it made.\<close>

fun sweep :: "'w gateway_client \<Rightarrow> queuedTransfer list \<Rightarrow> bool \<Rightarrow> offlineQueue \<Rightarrow> 'w \<Rightarrow> offlineQueue \<times> bool \<times> 'w" where
  "sweep G [] progress q w = (q, progress, w)"
| "sweep G (item # items) progress q w =
     (case queue_deliver G item w of
        (w1, None) \<Rightarrow> sweep G items True q w1
      | (w1, Some err) \<Rightarrow>
          if queue_retriable err then sweep G items progress (requeue (persistFails G w1) item q) w1
          else sweep G items True q w1)"

definition drain_step :: "'w gateway_client \<Rightarrow> offlineQueue \<times> nat \<times> 'w \<Rightarrow> offlineQueue \<times> nat \<times> 'w" where
  "drain_step G st =
     (case st of (q, delay, w) \<Rightarrow>
        (case queue_take (persistFails G w) q of (q1, items) \<Rightarrow>
           if items = [] then (q1, retryBase, w)
           else
             (case sweep G items False q1 w of (q2, progress, w1) \<Rightarrow>
                (q2, if progress then retryBase else if delay < retryMax then delay * 2 else delay, w1))))"

text \<open>\<^verbatim>\<open>drain\<close> until the context is done, \<open>n\<close> rounds later.\<close>

fun drain :: "'w gateway_client \<Rightarrow> nat \<Rightarrow> offlineQueue \<times> nat \<times> 'w \<Rightarrow> offlineQueue \<times> nat \<times> 'w" where
  "drain G 0 st = st"
| "drain G (Suc n) st = drain G n (drain_step G st)"

section \<open>The menu\<close>

record client_config =
  cfgAccount :: string
  cfgBank :: string

datatype menu_choice = MenuTransfer | MenuBalance | MenuQuit | MenuNothing | MenuUnknown

definition menu_line :: "string \<Rightarrow> menu_choice" where
  "menu_line line =
     (let t = TrimSpace line
      in if t = ''1'' then MenuTransfer else if t = ''2'' then MenuBalance else if t = ''0'' then MenuQuit
         else if t = '''' then MenuNothing else MenuUnknown)"

definition client_transfer :: "floats \<Rightarrow> 'w gateway_client \<Rightarrow> client_config \<Rightarrow> string \<Rightarrow> string \<Rightarrow> string \<Rightarrow> offlineQueue \<Rightarrow> 'w \<Rightarrow>
    offlineQueue \<times> 'w" where
  "client_transfer F G cfg toLine bankLine amountLine q w =
     (let toAccount = TrimSpace toLine; toBank = TrimSpace bankLine; amountText = TrimSpace amountLine
      in case ParseFloat F amountText of
           Inl err \<Rightarrow> (q, w)
         | Inr amount \<Rightarrow>
             if f_le amount (Finite 0) then (q, w)
             else
               (case newTransactionID G w of
                  (w1, Inl err) \<Rightarrow> (q, w1)
                | (w1, Inr txnID) \<Rightarrow>
                    (let req = \<lparr>trTransaction = txnID, trFromAccount = cfgAccount cfg, trToAccount = toAccount,
                                trFromBank = cfgBank cfg, trToBank = toBank, trAmount = amount\<rparr>
                     in case TransferMoney G req w1 of
                          (w2, None) \<Rightarrow> (q, w2)
                        | (w2, Some err) \<Rightarrow>
                            (if queue_retriable err then queue_add (persistFails G w2) req q else q, w2))))"

section \<open>Seeding\<close>

definition openingBalance :: float64 where
  "openingBalance = Finite 1000"

text \<open>
  One data directory after the other, each with its account file; \<open>oe\<close> and \<open>we\<close> are the errors of
  opening and writing it.  The first error ends the loop.
\<close>

fun seed_dirs :: "floats \<Rightarrow> acct \<Rightarrow> (goerror option \<times> goerror option \<times> store) list \<Rightarrow> store list \<times> goerror option" where
  "seed_dirs F a [] = ([], None)"
| "seed_dirs F a ((oe, we, d) # ds) =
     (case NewStore we (storePath d) (storeFile d) of
        Inl err \<Rightarrow> (d # map (\<lambda>(oe, we, d). d) ds, Some err)
      | Inr s \<Rightarrow>
          (case store_Create F oe we a s of
             (s1, Some err) \<Rightarrow> (s1 # map (\<lambda>(oe, we, d). d) ds, Some err)
           | (s1, None) \<Rightarrow> (case seed_dirs F a ds of (ss, e) \<Rightarrow> (s1 # ss, e))))"

definition seedBankAccount :: "floats \<Rightarrow> string \<Rightarrow> string \<Rightarrow> string \<Rightarrow> string \<Rightarrow> (goerror option \<times> goerror option \<times> store) list \<Rightarrow>
    store list \<times> goerror option" where
  "seedBankAccount F accountID username password bankName dirs =
     seed_dirs F \<lparr>AcctID = accountID, AcctUser = username, AcctPass = password, AcctBank = bankName, AcctBalance = openingBalance\<rparr> dirs"

section \<open>Retries end\<close>

lemma queue_persist_items [simp]: "qItems (queue_persist fails q) = qItems q"
  by (simp add: queue_persist_def)

text \<open>An item that was tried \<open>k\<close> times more is kept only below the limit.\<close>

definition tried :: "int \<Rightarrow> queuedTransfer \<Rightarrow> bool" where
  "tried k i \<longleftrightarrow> k \<le> qtAttempts i \<and> qtAttempts i < maxAttempts"

lemma sweep_tried:
  "sweep G items p q w = (q1, p1, w1) \<Longrightarrow> list_all (\<lambda>i. k \<le> qtAttempts i) items \<Longrightarrow> list_all (tried (k + 1)) (qItems q) \<Longrightarrow>
   list_all (tried (k + 1)) (qItems q1)"
proof (induction items arbitrary: p q w)
  case (Cons i items)
  obtain w2 e where d: "queue_deliver G i w = (w2, e)" by fastforce
  have "list_all (tried (k + 1)) (qItems (requeue b i q))" for b
    using Cons.prems(2,3) by (auto simp: requeue_def tried_def list_all_iff Let_def)
  then show ?case using Cons d by (cases e) (auto split: if_splits)
qed simp

lemma drain_step_tried:
  assumes "list_all (\<lambda>i. k \<le> qtAttempts i) (qItems q)" and "drain_step G (q, delay, w) = (q1, delay1, w1)"
  shows "list_all (tried (k + 1)) (qItems q1)" and "delay \<in> {2, 4, 8, 16, 32, 64} \<Longrightarrow> delay1 \<in> {2, 4, 8, 16, 32, 64}"
proof -
  obtain q0 where t: "queue_take (persistFails G w) q = (q0, qItems q)" "qItems q0 = []"
    by (cases "qItems q = []") (simp_all add: queue_take_def Let_def)
  obtain q2 p w2 where s: "sweep G (qItems q) False q0 w = (q2, p, w2)" by (metis surj_pair)
  have "list_all (tried (k + 1)) (qItems q2)" using sweep_tried [OF s assms(1)] t(2) by simp
  then show "list_all (tried (k + 1)) (qItems q1)"
    using assms(2) s t by (auto simp: drain_step_def split: if_splits)
  show "delay \<in> {2, 4, 8, 16, 32, 64} \<Longrightarrow> delay1 \<in> {2, 4, 8, 16, 32, 64}"
    using assms(2) by (auto simp: drain_step_def retryBase_def retryMax_def split: prod.splits if_splits)
qed

lemma drain_tried:
  "list_all (\<lambda>i. k \<le> qtAttempts i) (qItems q) \<Longrightarrow> delay \<in> {2, 4, 8, 16, 32, 64} \<Longrightarrow> drain G n (q, delay, w) = (q1, delay1, w1) \<Longrightarrow>
   list_all (\<lambda>i. k + int n \<le> qtAttempts i \<and> (0 < n \<longrightarrow> qtAttempts i < maxAttempts)) (qItems q1) \<and> delay1 \<in> {2, 4, 8, 16, 32, 64}"
proof (induction n arbitrary: k q delay w)
  case (Suc n)
  obtain q2 delay2 w2 where d: "drain_step G (q, delay, w) = (q2, delay2, w2)" by (metis surj_pair)
  note step = drain_step_tried [OF Suc.prems(1) d]
  have "list_all (\<lambda>i. k + 1 \<le> qtAttempts i) (qItems q2)" using step(1) by (auto simp: tried_def list_all_iff)
  from Suc.IH [OF this step(2) [OF Suc.prems(2)]] Suc.prems(3) d
  have IH: "list_all (\<lambda>i. k + 1 + int n \<le> qtAttempts i \<and> (0 < n \<longrightarrow> qtAttempts i < maxAttempts)) (qItems q1)"
    "delay1 \<in> {2, 4, 8, 16, 32, 64}" by simp_all
  show ?case
  proof (cases n)
    case 0
    then show ?thesis using Suc.prems(3) d step IH by (auto simp: tried_def list_all_iff)
  next
    case (Suc m)
    then show ?thesis using IH by (auto simp: list_all_iff)
  qed
qed auto

text \<open>
  C38: retries end.  Whatever the gateway answers and whether or not the queue can be written, a queue
  to which nothing is added is empty after ten rounds, an item that is still queued after \<open>n\<close> rounds
  has been tried \<open>n\<close> times more, and the pause between two rounds is one of 2, 4, 8, 16, 32 and 64
  seconds.
\<close>

theorem queue_drains:
  assumes "list_all (\<lambda>i. 0 \<le> qtAttempts i) (qItems q)" and "drain G n (q, retryBase, w) = (q1, delay1, w1)"
  shows "(10 \<le> n \<longrightarrow> qItems q1 = []) \<and> list_all (\<lambda>i. int n \<le> qtAttempts i) (qItems q1) \<and> delay1 \<in> {2, 4, 8, 16, 32, 64}"
proof -
  have t: "list_all (\<lambda>i. 0 + int n \<le> qtAttempts i \<and> (0 < n \<longrightarrow> qtAttempts i < maxAttempts)) (qItems q1)"
    "delay1 \<in> {2, 4, 8, 16, 32, 64}"
    using drain_tried [OF assms(1) _ assms(2)] by (simp_all add: retryBase_def)
  then have "10 \<le> n \<Longrightarrow> qItems q1 = []" by (cases "qItems q1") (auto simp: maxAttempts_def)
  then show ?thesis using t by (auto simp: list_all_iff)
qed

text \<open>A gateway that is down, and one transfer in the queue.\<close>

definition wit_down :: "nat gateway_client" where
  "wit_down = \<lparr>TransferMoney = (\<lambda>req w. (Suc w, Some (status_Error GUnavailable []))),
     newTransactionID = (\<lambda>w. (w, Inr ''TXN-000001'')), persistFails = (\<lambda>w. False)\<rparr>"

definition wit_queue :: offlineQueue where
  "wit_queue = queue_add False \<lparr>trTransaction = ''TXN-000001'', trFromAccount = ''A'', trToAccount = ''B'', trFromBank = ''X'',
     trToBank = ''Y'', trAmount = Finite 1\<rparr> \<lparr>qPath = ''q'', qItems = [], qFile = None\<rparr>"

theorem queue_drains_witness:
  "case drain wit_down 10 (wit_queue, retryBase, 0) of (q1, delay1, w1) \<Rightarrow> qItems wit_queue \<noteq> [] \<and> qItems q1 = []"
proof -
  obtain q1 delay1 w1 where d: "drain wit_down 10 (wit_queue, retryBase, 0) = (q1, delay1, w1)" by (metis surj_pair)
  have "list_all (\<lambda>i. 0 \<le> qtAttempts i) (qItems wit_queue)" "qItems wit_queue \<noteq> []" by (simp_all add: wit_queue_def queue_add_def)
  then show ?thesis using queue_drains [OF _ d] d by simp
qed

text \<open>
  A crash in the middle of a sweep loses the queue: it is written out empty before the first item is
  sent again.
\<close>

lemma crash_loses_queue:
  assumes "qItems q \<noteq> []" and "queue_take False q = (q1, items)"
  shows "items = qItems q \<and> newOfflineQueue None None (qPath q1) (qFile q1) = Inr \<lparr>qPath = qPath q1, qItems = [], qFile = Some []\<rparr>"
  using assms by (auto simp: queue_take_def queue_persist_def newOfflineQueue_def)

text \<open>The pause reaches 64 seconds, past \<^verbatim>\<open>retryMax\<close>: it is doubled whenever it is below.\<close>

lemma delay_passes_retryMax:
  assumes "qItems q \<noteq> []" and "\<And>r v. snd (TransferMoney G r v) = Some (status_Error GUnavailable [])"
  shows "fst (snd (drain_step G (q, 32, w))) = 64 \<and> retryMax < 64"
proof -
  have "fst (snd (sweep G items False q0 v)) = False" for items q0 v
  proof (induction items arbitrary: q0 v)
    case (Cons i items)
    obtain v1 where "TransferMoney G (queued_request i) v = (v1, Some (status_Error GUnavailable []))"
      using assms(2) by (metis surjective_pairing)
    then show ?case using Cons by (simp add: queue_deliver_def queue_retriable_def status_Error_def)
  qed simp
  then show ?thesis using assms(1) by (auto simp: drain_step_def queue_take_def retryMax_def Let_def split: prod.splits) (metis fst_conv snd_conv)
qed

text \<open>A client that is asked for an amount and given \<^verbatim>\<open>NaN\<close> sends it.\<close>

lemma nan_is_sent:
  "ParseFloat F (TrimSpace amountLine) = Inr NaN \<Longrightarrow> newTransactionID G w = (w1, Inr t) \<Longrightarrow>
   \<exists>req. trAmount req = NaN \<and> snd (client_transfer F G cfg toLine bankLine amountLine q w) = fst (TransferMoney G req w1)"
proof -
  assume a: "ParseFloat F (TrimSpace amountLine) = Inr NaN" "newTransactionID G w = (w1, Inr t)"
  let ?req = "\<lparr>trTransaction = t, trFromAccount = cfgAccount cfg, trToAccount = TrimSpace toLine, trFromBank = cfgBank cfg,
    trToBank = TrimSpace bankLine, trAmount = NaN\<rparr>"
  obtain w2 e where "TransferMoney G ?req w1 = (w2, e)" by fastforce
  then show ?thesis using a
    by (intro exI [of _ ?req]) (simp add: client_transfer_def f_le_def f_eq_def split: option.splits)
qed

text \<open>Seeding an account again changes no balance.\<close>

lemma reseed_keeps:
  "store_read F None s = Inr as \<Longrightarrow> find (\<lambda>x. AcctID x = i) as = Some x \<Longrightarrow> AcctUser x = u \<Longrightarrow> AcctPass x = p \<Longrightarrow>
   seedBankAccount F i u p nm [(None, None, s)] = ([s], None)"
proof -
  assume a: "store_read F None s = Inr as" "find (\<lambda>x. AcctID x = i) as = Some x" "AcctUser x = u" "AcctPass x = p"
  obtain rows where "storeFile s = Some rows" using a(1) by (cases "storeFile s") (simp_all add: store_read_def)
  then have "NewStore None (storePath s) (storeFile s) = Inr s" by (cases s) (simp add: NewStore_def)
  then show ?thesis using a by (simp add: seedBankAccount_def store_Create_def)
qed

end
