(* ===== verification/TransactionIds.thy ===== *)
theory TransactionIds
  imports Commands Money
begin

text \<open>
  The transaction id server, from \<^verbatim>\<open>src/transaction_id_server/main.go\<close>: a counter in a file of its own,
  written before an id is handed out.  \<^verbatim>\<open>os.WriteFile\<close> truncates the file and then writes it: it can
  fail before it touches the file or leave a prefix of the data, and so can a crash.
\<close>

section \<open>The counter\<close>

datatype wresult = Written | NotOpened goerror | Torn nat goerror

record counter =
  ctrPath :: string
  ctrNext :: i64
  ctrFile :: "string option"

definition WriteFile :: "wresult \<Rightarrow> string \<Rightarrow> string option \<Rightarrow> string option \<times> goerror option" where
  "WriteFile wr data file =
     (case wr of
        Written \<Rightarrow> (Some data, None)
      | NotOpened err \<Rightarrow> (file, Some err)
      | Torn n err \<Rightarrow> (Some (take n data), Some err))"

definition persistLocked :: "wresult \<Rightarrow> counter \<Rightarrow> counter \<times> goerror option" where
  "persistLocked wr c =
     (case WriteFile wr (show_i64 (ctrNext c)) (ctrFile c) of (file, e) \<Rightarrow> (c\<lparr>ctrFile := file\<rparr>, e))"

text \<open>The error of \<^verbatim>\<open>strconv.ParseInt\<close>: a number out of range, or no number.\<close>

definition ParseInt_error :: "string \<Rightarrow> goerror" where
  "ParseInt_error s =
     (let ds = (case s of [] \<Rightarrow> [] | c # cs \<Rightarrow> if c = CHR ''-'' \<or> c = CHR ''+'' then cs else s)
      in errors_New (''strconv.ParseInt: parsing '' @ quote s @ '': '' @
           (if ds \<noteq> [] \<and> digits_val 0 ds \<noteq> None then ''value out of range'' else ''invalid syntax'')))"

definition openCounter :: "goerror option \<Rightarrow> wresult \<Rightarrow> string \<Rightarrow> string option \<Rightarrow> goerror + counter" where
  "openCounter re wr path file =
     (let c = \<lparr>ctrPath = path, ctrNext = 1, ctrFile = file\<rparr>
      in case file of
           None \<Rightarrow> (case persistLocked wr c of (c1, Some err) \<Rightarrow> Inl err | (c1, None) \<Rightarrow> Inr c1)
         | Some data \<Rightarrow>
             (case re of
                Some err \<Rightarrow> Inl (Errorf (''read '' @ path @ '': '') err [])
              | None \<Rightarrow>
                  (case ParseInt64 (TrimSpace data) of
                     None \<Rightarrow> Inl (Errorf (path @ '' contains '' @ quote data @ '', which is not a number: '') (ParseInt_error (TrimSpace data)) [])
                   | Some v \<Rightarrow> Inr (c\<lparr>ctrNext := v\<rparr>))))"

definition txn_id :: "int \<Rightarrow> string" where
  "txn_id i = ''TXN-'' @ show_zeros 6 i"

definition issue :: "wresult \<Rightarrow> counter \<Rightarrow> counter \<times> (goerror + string)" where
  "issue wr c =
     (case persistLocked wr (c\<lparr>ctrNext := ctrNext c + 1\<rparr>) of
        (c1, Some err) \<Rightarrow> (c1\<lparr>ctrNext := ctrNext c1 - 1\<rparr>, Inl err)
      | (c1, None) \<Rightarrow> (c1, Inr (txn_id (sint (ctrNext c)))))"

definition GetNewTransactionID :: "wresult \<Rightarrow> counter \<Rightarrow> counter \<times> (gstatus + string)" where
  "GetNewTransactionID wr c =
     (case issue wr c of
        (c1, Inl err) \<Rightarrow> (c1, Inl (status_Error GInternal (''could not persist the counter: '' @ Error err)))
      | (c1, Inr i) \<Rightarrow> (c1, Inr i))"

section \<open>Ids are unique\<close>

text \<open>A life of the server: requests, and restarts on the file it left.\<close>

datatype txn_op = Issue wresult | Reopen

fun txn_run :: "txn_op list \<Rightarrow> counter \<Rightarrow> goerror + (counter \<times> string list)" where
  "txn_run [] c = Inr (c, [])"
| "txn_run (Issue wr # ops) c =
     (case GetNewTransactionID wr c of
        (c1, Inl st) \<Rightarrow> txn_run ops c1
      | (c1, Inr i) \<Rightarrow> (case txn_run ops c1 of Inl err \<Rightarrow> Inl err | Inr (c2, ids) \<Rightarrow> Inr (c2, i # ids)))"
| "txn_run (Reopen # ops) c =
     (case openCounter None Written (ctrPath c) (ctrFile c) of Inl err \<Rightarrow> Inl err | Inr c1 \<Rightarrow> txn_run ops c1)"

fun never_torn :: "txn_op \<Rightarrow> bool" where
  "never_torn (Issue (Torn n err)) = False"
| "never_torn _ = True"

lemma digits_val_zeros: "digits_val 0 (replicate k CHR ''0'' @ s) = digits_val 0 s"
proof (induction k)
  case (Suc k)
  have "digit_val CHR ''0'' = Some 0" by (simp add: digit_val_def)
  then show ?case using Suc by simp
qed simp

lemma txn_id_inject: "0 \<le> i \<Longrightarrow> 0 \<le> j \<Longrightarrow> txn_id i = txn_id j \<Longrightarrow> i = j"
proof -
  assume a: "0 \<le> i" "0 \<le> j" "txn_id i = txn_id j"
  have "digits_val 0 (show_zeros 6 k) = Some (nat k)" if "0 \<le> k" for k
    using that by (simp add: show_zeros_def digits_val_zeros)
  then have "nat i = nat j" using a by (metis append_same_eq option.inject same_append_eq txn_id_def)
  then show "i = j" using a by simp
qed

lemma TrimSpace_show: "TrimSpace (show_i64 v) = show_i64 v"
proof -
  have "word_ok (show_i64 v)" by simp
  then show ?thesis using TrimSpace_word word_ends by (simp add: word_ok_def)
qed

text \<open>The file holds the next number, and so does the memory.\<close>

definition counts_from :: "nat \<Rightarrow> counter \<Rightarrow> bool" where
  "counts_from n c \<longleftrightarrow> ctrNext c = word_of_int (int n) \<and> ctrFile c = Some (show_i64 (ctrNext c))"

lemma reopen_counts: "counts_from n c \<Longrightarrow> \<exists>c1. openCounter None Written (ctrPath c) (ctrFile c) = Inr c1 \<and> counts_from n c1"
  by (simp add: counts_from_def openCounter_def TrimSpace_show ParseInt64_show)

lemma sint_small: "n < 2 ^ 63 \<Longrightarrow> sint (word_of_int (int n) :: i64) = int n"
proof -
  assume "n < 2 ^ 63"
  then have "int n < 2 ^ 63" by (metis of_nat_less_iff of_nat_numeral of_nat_power)
  have "sint (word_of_int (int n) :: i64) = signed_take_bit 63 (int n)" by (subst sint_sbintrunc') simp
  also have "\<dots> = int n" using \<open>int n < 2 ^ 63\<close> by (intro signed_take_bit_int_eq_self) simp_all
  finally show ?thesis .
qed

lemma issue_counts:
  assumes "counts_from n c" and "n < 2 ^ 63" and "never_torn (Issue wr)"
  shows "\<exists>c1. (GetNewTransactionID wr c = (c1, Inr (txn_id (int n))) \<and> counts_from (Suc n) c1)
    \<or> (\<exists>st. GetNewTransactionID wr c = (c1, Inl st) \<and> counts_from n c1)"
  using assms sint_small [OF assms(2)]
  by (cases wr) (auto simp: GetNewTransactionID_def issue_def persistLocked_def WriteFile_def counts_from_def algebra_simps)

lemma txn_run_counts:
  "counts_from n c \<Longrightarrow> n + length ops \<le> 2 ^ 63 \<Longrightarrow> list_all never_torn ops \<Longrightarrow>
   \<exists>c1 ids. txn_run ops c = Inr (c1, ids) \<and> ids = map (\<lambda>i. txn_id (int i)) [n..<n + length ids]"
proof (induction ops arbitrary: n c)
  case (Cons x ops)
  show ?case
  proof (cases x)
    case Reopen
    obtain c1 where c1: "openCounter None Written (ctrPath c) (ctrFile c) = Inr c1" "counts_from n c1"
      using reopen_counts [OF Cons.prems(1)] by blast
    then show ?thesis using Cons.IH [OF c1(2)] Cons.prems(2,3) Reopen by simp
  next
    case (Issue wr)
    have n: "n < 2 ^ 63" "never_torn (Issue wr)" using Cons.prems(2,3) Issue by simp_all
    from issue_counts [OF Cons.prems(1) n] obtain c1 where
      "(GetNewTransactionID wr c = (c1, Inr (txn_id (int n))) \<and> counts_from (Suc n) c1) \<or>
       (\<exists>st. GetNewTransactionID wr c = (c1, Inl st) \<and> counts_from n c1)" by blast
    then show ?thesis
    proof (elim disjE conjE exE)
      assume a: "GetNewTransactionID wr c = (c1, Inr (txn_id (int n)))" "counts_from (Suc n) c1"
      obtain c2 ids where r: "txn_run ops c1 = Inr (c2, ids)" "ids = map (\<lambda>i. txn_id (int i)) [Suc n..<Suc n + length ids]"
        using Cons.IH [OF a(2)] Cons.prems(2,3) by auto
      have "txn_id (int n) # ids = map (\<lambda>i. txn_id (int i)) [n..<n + length (txn_id (int n) # ids)]"
      proof -
        have "[n..<n + length (txn_id (int n) # ids)] = n # [Suc n..<Suc n + length ids]" by (subst upt_conv_Cons) simp_all
        then show ?thesis by (simp only: list.map r(2) [symmetric])
      qed
      then show ?thesis using a(1) r(1) Issue by auto
    next
      fix st
      assume a: "GetNewTransactionID wr c = (c1, Inl st)" "counts_from n c1"
      then show ?thesis using Cons.IH [OF a(2)] Cons.prems(2,3) Issue by simp
    qed
  qed
qed simp

text \<open>
  C39: transaction ids are never reissued.  The server starts without a file and lives through fewer
  than \<open>2^63\<close> requests and restarts; a write of the counter may fail as long as it leaves the file
  alone.  Every restart succeeds, and the ids handed out over all lives are \<^verbatim>\<open>TXN-000001\<close>,
  \<^verbatim>\<open>TXN-000002\<close> and so on, without a gap and without a repetition.
\<close>

theorem ids_never_reissued:
  assumes "openCounter None Written path None = Inr c" and "length ops < 2 ^ 63" and "list_all never_torn ops"
  shows "\<exists>c1 ids. txn_run ops c = Inr (c1, ids) \<and> distinct ids \<and> ids = map (\<lambda>i. txn_id (int i)) [1..<1 + length ids]"
proof -
  have "counts_from 1 c" using assms(1) by (auto simp: openCounter_def persistLocked_def WriteFile_def counts_from_def)
  then obtain c1 ids where r: "txn_run ops c = Inr (c1, ids)" "ids = map (\<lambda>i. txn_id (int i)) [1..<1 + length ids]"
    using txn_run_counts [of 1 c ops] assms(2,3) by auto
  have "inj_on (\<lambda>i. txn_id (int i)) A" for A by (rule inj_onI) (metis of_nat_0_le_iff of_nat_eq_iff txn_id_inject)
  then have "distinct (map (\<lambda>i. txn_id (int i)) [1..<1 + length ids])" by (simp add: distinct_map)
  then show ?thesis using r by metis
qed

text \<open>Three requests, one of which cannot write, and a restart.\<close>

definition wit_counter :: counter where
  "wit_counter = \<lparr>ctrPath = ''t'', ctrNext = 1, ctrFile = Some (show_i64 1)\<rparr>"

theorem ids_never_reissued_witness:
  "\<exists>c1 ids. txn_run [Issue Written, Reopen, Issue (NotOpened (errors_New ''disk'')), Issue Written] wit_counter = Inr (c1, ids) \<and> distinct ids"
proof -
  have "openCounter None Written ''t'' None = Inr wit_counter"
    by (simp add: openCounter_def persistLocked_def WriteFile_def wit_counter_def)
  from ids_never_reissued [OF this, of "[Issue Written, Reopen, Issue (NotOpened (errors_New ''disk'')), Issue Written]"]
  show ?thesis by auto
qed

lemma txn_run_written:
  "counts_from n c \<Longrightarrow> n + k \<le> 2 ^ 63 \<Longrightarrow>
   \<exists>c1. txn_run (replicate k (Issue Written)) c = Inr (c1, map (\<lambda>i. txn_id (int i)) [n..<n + k]) \<and> counts_from (n + k) c1"
proof (induction k arbitrary: n c)
  case (Suc k)
  have "\<exists>c1. GetNewTransactionID Written c = (c1, Inr (txn_id (int n))) \<and> counts_from (Suc n) c1"
    using Suc.prems sint_small [of n]
    by (auto simp: GetNewTransactionID_def issue_def persistLocked_def WriteFile_def counts_from_def algebra_simps)
  then obtain c1 where c1: "GetNewTransactionID Written c = (c1, Inr (txn_id (int n)))" "counts_from (Suc n) c1" by blast
  have "[n..<n + Suc k] = n # [Suc n..<Suc n + k]" by (subst upt_conv_Cons) simp_all
  then show ?case using Suc.IH [OF c1(2)] Suc.prems(2) c1(1) by (auto simp del: upt_Suc)
qed simp

text \<open>A crash inside \<^verbatim>\<open>WriteFile\<close>: the file keeps a prefix and the process is gone.\<close>

definition crash_in_issue :: "nat \<Rightarrow> counter \<Rightarrow> counter" where
  "crash_in_issue n c = c\<lparr>ctrFile := fst (WriteFile (Torn n (errors_New ''crash'')) (show_i64 (ctrNext c + 1)) (ctrFile c))\<rparr>"

text \<open>
  C40: a crash reissues ids.  Ten ids are handed out; the server crashes while it writes the counter
  for the next one, when the first character of the new value is on disk.  It starts again without an
  error and hands out \<^verbatim>\<open>TXN-000001\<close>, the idempotency key of the first payment.
\<close>

theorem torn_counter_reissues:
  "case txn_run (replicate 10 (Issue Written)) wit_counter of
     Inl err \<Rightarrow> False
   | Inr (c, ids) \<Rightarrow>
       length ids = 10
       \<and> (case txn_run [Reopen, Issue Written] (crash_in_issue 1 c) of Inl err \<Rightarrow> False | Inr (c2, new) \<Rightarrow> new = [hd ids])"
proof -
  have "counts_from 1 wit_counter" by (simp add: counts_from_def wit_counter_def)
  then obtain c where r: "txn_run (replicate 10 (Issue Written)) wit_counter = Inr (c, map (\<lambda>i. txn_id (int i)) [1..<1 + 10])" "counts_from (1 + 10) c"
    using txn_run_written [of 1 wit_counter 10] by auto
  have "digit 1 = CHR ''1''" "digit 2 = CHR ''2''" by code_simp+
  then have "show_i64 12 = ''12''" "ParseInt64 (TrimSpace ''1'') = Some 1"
    by (simp_all add: show_i64_def show_int_def itoa.simps TrimSpace_def is_space_def ParseInt64_def digit_val_def)
  then have "openCounter None Written (ctrPath c) (Some ''1'') = Inr \<lparr>ctrPath = ctrPath c, ctrNext = 1, ctrFile = Some ''1''\<rparr>"
      "ctrFile (crash_in_issue 1 c) = Some ''1''" "ctrPath (crash_in_issue 1 c) = ctrPath c"
    using r(2) by (simp_all add: openCounter_def crash_in_issue_def WriteFile_def counts_from_def)
  then show ?thesis using r(1)
    by (simp add: GetNewTransactionID_def issue_def persistLocked_def WriteFile_def upt_conv_Cons)
qed

end
