(* ===== verification/Spec2Isabelle.thy ===== *)
theory Spec2Isabelle
  imports PaxosRuns TwoPhaseAtomic ControlPlane PaymentRuns PaymentAuth PaymentClient TransactionIds
begin

text \<open>
  A verification of a replicated payment system in Go.  The repository holds two systems over one
  implementation of Multi-Paxos.

  \<^item> The cluster (\<^verbatim>\<open>src/internal\<close>, \<^verbatim>\<open>src/cmd/cluster\<close>): Paxos groups, the shards, each replicate a
    ledger; a coordinator moves money between shards by two-phase commit; an engine drives the
    replicas, injects faults and narrates; a gateway takes commands from browsers over WebSockets.
  \<^item> The payment system (\<^verbatim>\<open>src/bank\<close>, \<^verbatim>\<open>src/gateway\<close>, \<^verbatim>\<open>src/client\<close>, \<^verbatim>\<open>src/transaction_id_server\<close>): banks that
    are Paxos groups over account files, a gateway with users and its own two-phase commit, clients
    that queue what they cannot deliver, and a server of transaction ids.

  \<^bold>\<open>Method.\<close>  Structs are records, enumerations datatypes, and each Go function is a function that
  takes the state and returns it updated with its result; errors are values of a sum or an option.
  What the operating system, the network, the clock, the random generator, the order of a map's
  iteration and other goroutines decide are arguments, and the theorems quantify over them.  Paxos
  nodes run in a system of atomic steps, one for each critical section under the node's mutex; waiting
  for replies is the gap between two steps.  Loops are structural recursions, also the polling loops,
  which run over the list of what each poll sees; no definition uses fuel.

  \<^bold>\<open>Shared theories.\<close>  \<^verbatim>\<open>Prelude\<close>: lists, options, types.  \<^verbatim>\<open>GoStrings\<close>: what is used of Go's
  \<^verbatim>\<open>strings\<close>, \<^verbatim>\<open>strconv\<close> and \<^verbatim>\<open>fmt\<close>.  \<^verbatim>\<open>GoErrors\<close>: errors with their chains.  \<^verbatim>\<open>Money\<close>: \<^verbatim>\<open>float64\<close> amounts and
  the status codes of gRPC; rounding and \<^verbatim>\<open>ParseFloat\<close> are a parameter with the hypothesis
  \<open>floats_ok\<close>, which an instance with exact arithmetic satisfies.

  \<^bold>\<open>Paxos\<close> (\<^verbatim>\<open>src/internal/paxos\<close>).  \<^verbatim>\<open>Ballots\<close>: ballots, entries, messages, majorities (\<^verbatim>\<open>paxos.go\<close>).
  \<^verbatim>\<open>PaxosLog\<close>: the two files of a log and their replay (\<^verbatim>\<open>log.go\<close>); reopening restores the log, and a torn
  append loses the next entry.  \<^verbatim>\<open>PaxosNode\<close>: every handler and round of \<^verbatim>\<open>node.go\<close>, and the transports.
  \<^verbatim>\<open>PaxosCore\<close>, \<^verbatim>\<open>PaxosSystem\<close>, \<^verbatim>\<open>PaxosSafety\<close>, \<^verbatim>\<open>PaxosAgreement\<close>: an abstract account of what has been
  promised, accepted and chosen, a system of nodes over a lossy network with crashes and restarts, and
  agreement of the applied commands on runs that keep four side conditions.  \<^verbatim>\<open>PaxosRuns\<close>: four runs in
  which the code breaks one of these conditions each and replicas diverge.

  \<^bold>\<open>Ledger and two-phase commit.\<close>  \<^verbatim>\<open>LedgerMachine\<close> and \<^verbatim>\<open>LedgerSafety\<close> (\<^verbatim>\<open>src/internal/ledger\<close>): the
  state machine with 64-bit balances, its invariant, its locks and votes, and an overflow.  \<^verbatim>\<open>TwoPhase\<close>,
  \<^verbatim>\<open>TwoPhaseSafety\<close>, \<^verbatim>\<open>TwoPhaseShards\<close>, \<^verbatim>\<open>TwoPhaseAtomic\<close> (\<^verbatim>\<open>src/internal/twopc\<close>): the coordinator against a
  contract of its participants, which ledgers behind a lossy network keep: transfers are atomic,
  conserve money and are settled by retries; a replaced coordinator reuses names and loses money.

  \<^bold>\<open>Engine and control plane.\<close>  \<^verbatim>\<open>Logstream\<close>, \<^verbatim>\<open>Faults\<close> and \<^verbatim>\<open>Transport\<close> (\<^verbatim>\<open>src/internal/logstream\<close>,
  \<^verbatim>\<open>transport\<close>): events, the fault table, deliveries.  \<^verbatim>\<open>ClusterTopology\<close>, \<^verbatim>\<open>Engine\<close>, \<^verbatim>\<open>EngineOps\<close>,
  \<^verbatim>\<open>EngineSafety\<close> (\<^verbatim>\<open>src/internal/cluster\<close>): routing, leaders, every command of the engine and its
  remote form.  \<^verbatim>\<open>Commands\<close> and \<^verbatim>\<open>ControlPlane\<close> (\<^verbatim>\<open>src/internal/gateway\<close>): the parser with its image and
  round trip, the rate limiter, sessions and their outbox.

  \<^bold>\<open>Banks.\<close>  \<^verbatim>\<open>Accounts\<close> (\<^verbatim>\<open>src/internal/accounts\<close>): the account file.  \<^verbatim>\<open>Bank\<close> (\<^verbatim>\<open>src/bank\<close>): ledger,
  participant, state machine, service, start-up.  \<^verbatim>\<open>BankSafety\<close> and \<^verbatim>\<open>BankRuns\<close>: the abstract vault a
  bank implements for whole amounts within 53 bits (the integers a \<^verbatim>\<open>float64\<close> holds exactly), no overdraft,
  every transaction at most once, the ledger across a restart, and two ways in which a replica that
  restarts leaves its group.

  \<^bold>\<open>Payments.\<close>  \<^verbatim>\<open>PaymentTransfer\<close> (\<^verbatim>\<open>src/gateway/registry.go\<close>, \<^verbatim>\<open>transfer.go\<close>): the registry, the
  coordinator, the contract it relies on as the locale \<^verbatim>\<open>payment_network\<close>, and its interpretation on
  the banks behind a network that loses, delays and reorders.  \<^verbatim>\<open>PaymentRuns\<close>: payments are atomic over any
  such network, complete over a working one, and what lost replies leave behind.  \<^verbatim>\<open>PaymentAuth\<close>
  (\<^verbatim>\<open>auth.go\<close>, \<^verbatim>\<open>middleware.go\<close>, \<^verbatim>\<open>service.go\<close>): only the owner of an account moves its money, users survive a
  restart, and how an account is taken over.  \<^verbatim>\<open>PaymentClient\<close> (\<^verbatim>\<open>src/client\<close>): retries end.
  \<^verbatim>\<open>TransactionIds\<close> (\<^verbatim>\<open>src/transaction_id_server\<close>): ids are unique unless a write is torn by a crash.

  \<^bold>\<open>Bounds.\<close>  Ledger balances are 64-bit words and wrap; slots are 64-bit words.  Bank amounts in the
  refinement are whole and within \<open>2^53\<close>.  Transaction ids are counted below \<open>2^63\<close>.

  \<^bold>\<open>Not modelled.\<close>  The code \<^verbatim>\<open>protoc\<close> generates (\<^verbatim>\<open>src/proto\<close>); TLS set-up and coloured logging
  (\<^verbatim>\<open>src/internal/tlsconfig\<close>, \<^verbatim>\<open>logx\<close>); flags, listening, dialling and signals of the five \<^verbatim>\<open>main\<close> functions and
  of \<^verbatim>\<open>src/cmd/cluster\<close>, which only call libraries; the WebSocket handshake and the HTTP server; the
  JSON codecs, which are parameters or act on the decoded value; CSV quoting (files are lists of
  records); the sign of a floating-point zero; bytes beyond ASCII in the parser; the Go scheduler and
  data races, as each critical section is one step; real time, apart from deadlines and expiries that
  are compared with a clock.
\<close>

end
